(* ===== verification/Prelude.thy ===== *)
theory Prelude
  imports Main
begin

text \<open>
  Shared by every theory of the development: the named collections, Go's 64-bit integers
  as \<open>int\<close> with the wrap-around written out, results of fallible calls as sums
  (\<open>Inl\<close> the error, \<open>Inr\<close> the value), and the generic list and map facts the
  component proofs use.
\<close>

named_theorems rule_upd \<open>field updates of stored rules\<close>
named_theorems db_simps \<open>the database layer, unfolded\<close>
named_theorems svc_defs \<open>the operations of the shortener service\<close>
named_theorems http_defs \<open>the HTTP layer, unfolded\<close>

section \<open>64-bit integers\<close>

text \<open>Go's \<open>int64\<close> (and \<open>int\<close> on a 64-bit target): arithmetic wraps modulo 2^64.\<close>

definition wrap64 :: "int \<Rightarrow> int" where
  "wrap64 i = (i + 9223372036854775808) mod 18446744073709551616 - 9223372036854775808"

definition in_int64 :: "int \<Rightarrow> bool" where
  "in_int64 i \<longleftrightarrow> - 9223372036854775808 \<le> i \<and> i \<le> 9223372036854775807"

lemma wrap64_id [simp]: "in_int64 i \<Longrightarrow> wrap64 i = i"
  by (simp add: wrap64_def in_int64_def)

lemma in_int64_wrap64 [simp, intro]: "in_int64 (wrap64 i)"
proof -
  have "0 \<le> (i + 9223372036854775808) mod 18446744073709551616"
    and "(i + 9223372036854775808) mod 18446744073709551616 < 18446744073709551616"
    by simp_all
  then show ?thesis by (simp add: wrap64_def in_int64_def)
qed

lemma wrap64_wrap64 [simp]: "wrap64 (wrap64 i) = wrap64 i"
  by simp

lemma wrap64_mod: "wrap64 i mod 18446744073709551616 = i mod 18446744073709551616"
  by (simp add: wrap64_def mod_diff_left_eq)

section \<open>Results\<close>

text \<open>A call that can fail and that changes a state: its result and the state after it.\<close>

type_synonym ('s, 'e, 'a) call = "'s \<Rightarrow> ('e + 'a) \<times> 's"

definition is_ok :: "'e + 'a \<Rightarrow> bool" where
  "is_ok r = (case r of Inl _ \<Rightarrow> False | Inr _ \<Rightarrow> True)"

lemma is_ok_simps [simp]: "is_ok (Inr v)" "\<not> is_ok (Inl e)"
  by (simp_all add: is_ok_def)

lemma is_ok_iff: "is_ok r \<longleftrightarrow> (\<exists>v. r = Inr v)"
  by (cases r) auto

section \<open>Lists with a key\<close>

text \<open>
  A table is a list of rows with distinct keys; \<open>find_row\<close> is its lookup. These facts
  carry every statement about insertion, update and deletion of rows.
\<close>

fun find_row :: "('r \<Rightarrow> 'k) \<Rightarrow> 'k \<Rightarrow> 'r list \<Rightarrow> 'r option" where
  "find_row key k [] = None"
| "find_row key k (r # rs) = (if key r = k then Some r else find_row key k rs)"

lemma find_row_None_iff: "find_row key k rs = None \<longleftrightarrow> k \<notin> key ` set rs"
  by (induction rs) auto

lemma find_row_SomeD: "find_row key k rs = Some r \<Longrightarrow> r \<in> set rs \<and> key r = k"
  by (induction rs) (auto split: if_splits)

lemma find_row_Some_iff:
  "distinct (map key rs) \<Longrightarrow> find_row key k rs = Some r \<longleftrightarrow> r \<in> set rs \<and> key r = k"
  by (induction rs) auto

lemma find_row_append:
  "find_row key k (rs @ ts) =
     (case find_row key k rs of None \<Rightarrow> find_row key k ts | Some r \<Rightarrow> Some r)"
  by (induction rs) auto

lemma find_row_filter:
  "distinct (map key rs) \<Longrightarrow>
   find_row key k (filter P rs) =
     (case find_row key k rs of None \<Rightarrow> None | Some r \<Rightarrow> if P r then Some r else None)"
proof (induction rs)
  case Nil
  then show ?case by simp
next
  case (Cons a rs)
  have "find_row key k (filter P rs) = None" if "key a = k"
    using Cons.prems that by (auto simp: find_row_None_iff)
  with Cons show ?case by auto
qed

lemma find_row_map:
  "(\<And>r. key (f r) = key r) \<Longrightarrow> find_row key k (map f rs) = map_option f (find_row key k rs)"
  by (induction rs) auto

lemma distinct_map_filter_key: "distinct (map key rs) \<Longrightarrow> distinct (map key (filter P rs))"
  by (rule distinct_map_filter)

lemma map_key_map: "(\<And>r. key (f r) = key r) \<Longrightarrow> map key (map f rs) = map key rs"
  by (induction rs) auto

text \<open>The number of rows a deletion removes is the number of keys it removes.\<close>

lemma length_filter_card_keys:
  assumes "distinct (map key rs)"
  shows "length (filter P rs) = card {k. \<exists>r. find_row key k rs = Some r \<and> P r}"
proof -
  have "{k. \<exists>r. find_row key k rs = Some r \<and> P r} = key ` set (filter P rs)"
    using assms by (auto simp: find_row_Some_iff)
  moreover have "card (key ` set (filter P rs)) = length (filter P rs)"
    using distinct_map_filter_key [OF assms, of P]
    by (metis distinct_card length_map list.set_map)
  ultimately show ?thesis by simp
qed

end
