(* ===== verification/GoStrings.thy ===== *)
theory GoStrings
  imports Prelude
begin

text \<open>
  The functions of Go's packages \<open>strings\<close> and \<open>strconv\<close> that the service uses, on
  strings as byte lists (a Go string is a byte sequence, and so is \<open>string\<close>: a \<open>char\<close>
  has 8 bits). White space is Unicode's, in its UTF-8 encoding; \<open>strings.ToLower\<close> is
  exact on every ASCII byte and on the two other runes whose lower case is an ASCII letter,
  and leaves the remaining runes alone, whose lower case is never compared with anything
  but ASCII text.
\<close>

section \<open>White space\<close>

definition ascii_space :: "char \<Rightarrow> bool" where
  "ascii_space c \<longleftrightarrow> c = CHR 0x20 \<or> c = CHR 0x09 \<or> c = CHR 0x0A \<or> c = CHR 0x0B
     \<or> c = CHR 0x0C \<or> c = CHR 0x0D"

definition space2 :: "char \<Rightarrow> char \<Rightarrow> bool" where
  "space2 a b \<longleftrightarrow> a = CHR 0xC2 \<and> (b = CHR 0x85 \<or> b = CHR 0xA0)"

definition space3 :: "char \<Rightarrow> char \<Rightarrow> char \<Rightarrow> bool" where
  "space3 a b c \<longleftrightarrow>
     (a = CHR 0xE1 \<and> b = CHR 0x9A \<and> c = CHR 0x80)
   \<or> (a = CHR 0xE2 \<and> b = CHR 0x80 \<and>
       (0x80 \<le> (of_char c :: nat) \<and> (of_char c :: nat) \<le> 0x8A
        \<or> c = CHR 0xA8 \<or> c = CHR 0xA9 \<or> c = CHR 0xAF))
   \<or> (a = CHR 0xE2 \<and> b = CHR 0x81 \<and> c = CHR 0x9F)
   \<or> (a = CHR 0xE3 \<and> b = CHR 0x80 \<and> c = CHR 0x80)"

text \<open>The number of bytes of the space a string starts with (0: none), and ends with.\<close>

definition space_width :: "string \<Rightarrow> nat" where
  "space_width s = (case s of [] \<Rightarrow> 0 | a # s1 \<Rightarrow>
     if ascii_space a then 1 else
     (case s1 of [] \<Rightarrow> 0 | b # s2 \<Rightarrow>
       if space2 a b then 2 else
       (case s2 of [] \<Rightarrow> 0 | c # _ \<Rightarrow> if space3 a b c then 3 else 0)))"

definition rspace_width :: "string \<Rightarrow> nat" where
  "rspace_width r = (case r of [] \<Rightarrow> 0 | a # r1 \<Rightarrow>
     if ascii_space a then 1 else
     (case r1 of [] \<Rightarrow> 0 | b # r2 \<Rightarrow>
       if space2 b a then 2 else
       (case r2 of [] \<Rightarrow> 0 | c # _ \<Rightarrow> if space3 c b a then 3 else 0)))"

lemma space_width_Nil [simp]: "space_width [] = 0"
  by (simp add: space_width_def)

lemma rspace_width_Nil [simp]: "rspace_width [] = 0"
  by (simp add: rspace_width_def)

fun trim_left :: "string \<Rightarrow> string" where
  "trim_left s = (if space_width s = 0 \<or> s = [] then s else trim_left (drop (space_width s) s))"

fun trim_rev :: "string \<Rightarrow> string" where
  "trim_rev r = (if rspace_width r = 0 \<or> r = [] then r else trim_rev (drop (rspace_width r) r))"

declare trim_left.simps [simp del] trim_rev.simps [simp del]

text \<open>\<open>strings.TrimSpace\<close>.\<close>

definition trim_space :: "string \<Rightarrow> string" where
  "trim_space s = rev (trim_rev (rev (trim_left s)))"

lemma trim_left_id: "space_width s = 0 \<Longrightarrow> trim_left s = s"
  by (simp add: trim_left.simps)

lemma trim_rev_id: "rspace_width r = 0 \<Longrightarrow> trim_rev r = r"
  by (simp add: trim_rev.simps)

lemma trim_left_done: "space_width (trim_left s) = 0"
proof (induction s rule: trim_left.induct)
  case (1 s)
  then show ?case by (cases "space_width s = 0 \<or> s = []") (auto simp: trim_left.simps [of s])
qed

lemma trim_rev_done: "rspace_width (trim_rev r) = 0"
proof (induction r rule: trim_rev.induct)
  case (1 r)
  then show ?case by (cases "rspace_width r = 0 \<or> r = []") (auto simp: trim_rev.simps [of r])
qed

lemma trim_rev_suffix: "\<exists>p. r = p @ trim_rev r"
proof (induction r rule: trim_rev.induct)
  case (1 r)
  show ?case
  proof (cases "rspace_width r = 0 \<or> r = []")
    case True
    then show ?thesis by (auto simp: trim_rev.simps [of r])
  next
    case False
    then obtain p where "drop (rspace_width r) r = p @ trim_rev (drop (rspace_width r) r)"
      using "1.IH" by blast
    then have "r = (take (rspace_width r) r @ p) @ trim_rev (drop (rspace_width r) r)"
      by (metis append.assoc append_take_drop_id)
    with False show ?thesis by (metis trim_rev.simps)
  qed
qed

text \<open>A prefix of a string that starts with no space starts with no space.\<close>

lemma space_width_prefix: "space_width (p @ t) = 0 \<Longrightarrow> space_width p = 0"
  by (auto simp: space_width_def split: list.splits if_splits)

lemma trim_space_idem [simp]: "trim_space (trim_space s) = trim_space s"
proof -
  obtain p where "rev (trim_left s) = p @ trim_rev (rev (trim_left s))"
    using trim_rev_suffix by blast
  then have "trim_left s = trim_space s @ rev p"
    unfolding trim_space_def by (metis rev_append rev_rev_ident)
  then have "space_width (trim_space s) = 0"
    by (metis space_width_prefix trim_left_done)
  then show ?thesis
    by (simp add: trim_space_def trim_left_id trim_rev_id trim_rev_done)
qed

text \<open>Text over bytes that start and end no space is untouched.\<close>

definition plain_byte :: "char \<Rightarrow> bool" where
  "plain_byte c \<longleftrightarrow> \<not> ascii_space c \<and> (of_char c :: nat) < 128"

lemma plain_byte_not2: "plain_byte a \<Longrightarrow> \<not> space2 a b" "plain_byte b \<Longrightarrow> \<not> space2 a b"
  by (auto simp: plain_byte_def space2_def)

lemma plain_byte_not3: "plain_byte a \<Longrightarrow> \<not> space3 a b c" "plain_byte c \<Longrightarrow> \<not> space3 a b c"
  by (auto simp: plain_byte_def space3_def)

lemma trim_space_plain: "list_all plain_byte s \<Longrightarrow> trim_space s = s"
proof -
  assume a: "list_all plain_byte s"
  have "space_width s = 0"
    using a by (auto simp: space_width_def plain_byte_def plain_byte_not2 plain_byte_not3
        split: list.splits)
  moreover have "rspace_width (rev s) = 0"
  proof (cases "rev s")
    case (Cons c r)
    with a have "plain_byte c"
      by (metis list.set_intros(1) list_all_iff set_rev)
    with Cons show ?thesis
      by (auto simp: rspace_width_def plain_byte_def plain_byte_not2 plain_byte_not3
          split: list.splits)
  qed simp
  ultimately show ?thesis by (simp add: trim_space_def trim_left_id trim_rev_id)
qed

lemma trim_space_Nil [simp]: "trim_space [] = []"
  by (rule trim_space_plain) simp

section \<open>Prefixes, suffixes, searching, splitting\<close>

definition has_prefix :: "string \<Rightarrow> string \<Rightarrow> bool" where
  "has_prefix s p \<longleftrightarrow> take (length p) s = p"

definition has_suffix :: "string \<Rightarrow> string \<Rightarrow> bool" where
  "has_suffix s p \<longleftrightarrow> take (length p) (rev s) = rev p"

definition trim_prefix :: "string \<Rightarrow> string \<Rightarrow> string" where
  "trim_prefix s p = (if has_prefix s p then drop (length p) s else s)"

text \<open>\<open>strings.TrimRight(s, "/")\<close>, the cut set being one byte.\<close>

definition trim_right_byte :: "char \<Rightarrow> string \<Rightarrow> string" where
  "trim_right_byte c s = rev (dropWhile (\<lambda>x. x = c) (rev s))"

fun contains :: "string \<Rightarrow> string \<Rightarrow> bool" where
  "contains [] p = (p = [])"
| "contains (c # s) p = (has_prefix (c # s) p \<or> contains s p)"

text \<open>\<open>strings.Split\<close> at one byte; \<open>strings.Cut\<close>; the text around the last occurrence.\<close>

fun split_byte :: "char \<Rightarrow> string \<Rightarrow> string list" where
  "split_byte c [] = [[]]"
| "split_byte c (x # s) =
     (if x = c then [] # split_byte c s
      else (case split_byte c s of [] \<Rightarrow> [[x]] | p # ps \<Rightarrow> (x # p) # ps))"

fun cut_byte :: "char \<Rightarrow> string \<Rightarrow> (string \<times> string) option" where
  "cut_byte c [] = None"
| "cut_byte c (x # s) =
     (if x = c then Some ([], s) else map_option (\<lambda>(a, b). (x # a, b)) (cut_byte c s))"

definition cut_last :: "char \<Rightarrow> string \<Rightarrow> (string \<times> string) option" where
  "cut_last c s = map_option (\<lambda>(a, b). (rev b, rev a)) (cut_byte c (rev s))"

lemma split_byte_nonempty [simp]: "split_byte c s \<noteq> []"
  by (induction s) (auto split: list.splits)

lemma cut_byte_None_iff: "cut_byte c s = None \<longleftrightarrow> c \<notin> set s"
  by (induction s) auto

lemma cut_byte_SomeD: "cut_byte c s = Some (a, b) \<Longrightarrow> s = a @ c # b \<and> c \<notin> set a"
  by (induction s arbitrary: a b) (auto split: if_splits)

lemma cut_last_SomeD: "cut_last c s = Some (a, b) \<Longrightarrow> s = a @ c # b \<and> c \<notin> set b"
  by (auto simp: cut_last_def dest!: cut_byte_SomeD) (metis rev_append rev_rev_ident rev.simps(2)
      append.assoc append_Cons append_Nil)

lemma trim_right_byte_idem [simp]: "trim_right_byte c (trim_right_byte c s) = trim_right_byte c s"
  by (simp add: trim_right_byte_def dropWhile_idem)

lemma trim_right_byte_pad:
  "trim_right_byte c s @ replicate (length s - length (trim_right_byte c s)) c = s"
proof -
  have t: "takeWhile (\<lambda>x. x = c) r = replicate (length r - length (dropWhile (\<lambda>x. x = c) r)) c"
    for r :: string
    by (induction r) (auto simp: Suc_diff_le length_dropWhile_le)
  have "s = rev (takeWhile (\<lambda>x. x = c) (rev s) @ dropWhile (\<lambda>x. x = c) (rev s))"
    by simp
  then show ?thesis
    unfolding trim_right_byte_def by (subst (asm) t) (metis length_rev rev_append rev_replicate)
qed

lemma trim_right_byte_Nil_iff: "trim_right_byte c s = [] \<longleftrightarrow> (\<forall>x \<in> set s. x = c)"
  by (auto simp: trim_right_byte_def dropWhile_eq_Nil_conv)

lemma set_trim_right_byte: "set (trim_right_byte c s) \<subseteq> set s"
  by (metis trim_right_byte_pad Un_upper1 set_append)

lemma trim_right_byte_last: "trim_right_byte c s \<noteq> [] \<Longrightarrow> last (trim_right_byte c s) \<noteq> c"
  unfolding trim_right_byte_def
  by (metis (mono_tags, lifting) hd_dropWhile last_rev rev_is_Nil_conv)

section \<open>Case\<close>

definition lower_char :: "char \<Rightarrow> char" where
  "lower_char c = (let n = (of_char c :: nat) in if 65 \<le> n \<and> n \<le> 90 then char_of (n + 32) else c)"

text \<open>
  \<open>strings.ToLower\<close>. U+0130 (bytes C4 B0) lowers to \<open>i\<close> and U+212A (E2 84 AA) to
  \<open>k\<close>; every other non-ASCII rune lowers to a non-ASCII rune, kept as it is here.
\<close>

fun to_lower :: "string \<Rightarrow> string" where
  "to_lower [] = []"
| "to_lower (a # s) =
     (if a = CHR 0xC4 \<and> s \<noteq> [] \<and> hd s = CHR 0xB0 then CHR ''i'' # to_lower (tl s)
      else if a = CHR 0xE2 \<and> take 2 s = [CHR 0x84, CHR 0xAA] then CHR ''k'' # to_lower (drop 2 s)
      else lower_char a # to_lower s)"

section \<open>Decimal numbers\<close>

definition is_digit :: "char \<Rightarrow> bool" where
  "is_digit c \<longleftrightarrow> 48 \<le> (of_char c :: nat) \<and> (of_char c :: nat) \<le> 57"

definition is_alpha :: "char \<Rightarrow> bool" where
  "is_alpha c \<longleftrightarrow> (let n = (of_char c :: nat) in 65 \<le> n \<and> n \<le> 90 \<or> 97 \<le> n \<and> n \<le> 122)"

definition is_alnum :: "char \<Rightarrow> bool" where
  "is_alnum c \<longleftrightarrow> is_alpha c \<or> is_digit c"

definition digit_val :: "char \<Rightarrow> int" where
  "digit_val c = of_char c - 48"

definition digit_char :: "int \<Rightarrow> char" where
  "digit_char n = char_of (n + 48)"

definition digits_val :: "string \<Rightarrow> int" where
  "digits_val s = foldl (\<lambda>n c. 10 * n + digit_val c) 0 s"

text \<open>The decimal digits of a number that is not negative.\<close>

function show_nat :: "int \<Rightarrow> string" where
  "show_nat n = (if n < 10 then [digit_char n] else show_nat (n div 10) @ [digit_char (n mod 10)])"
  by pat_completeness auto
termination
  by (relation "measure nat") auto

declare show_nat.simps [simp del]

definition show_int :: "int \<Rightarrow> string" where
  "show_int i = (if i < 0 then CHR ''-'' # show_nat (- i) else show_nat i)"

text \<open>\<open>strconv.ParseInt(s, 10, 64)\<close>, and \<open>strconv.Atoi\<close>, as success or failure.\<close>

definition parse_int64 :: "string \<Rightarrow> int option" where
  "parse_int64 s =
     (let neg = (s \<noteq> [] \<and> hd s = CHR ''-'');
          ds = (if s \<noteq> [] \<and> (hd s = CHR ''-'' \<or> hd s = CHR ''+'') then tl s else s);
          un = digits_val ds
      in if ds = [] \<or> \<not> list_all is_digit ds then None
         else if \<not> neg \<and> 9223372036854775808 \<le> un then None
         else if neg \<and> 9223372036854775808 < un then None
         else Some (if neg then - un else un))"

text \<open>\<open>strconv.ParseBool\<close>.\<close>

definition parse_bool :: "string \<Rightarrow> bool option" where
  "parse_bool s =
     (if s \<in> set [''1'', ''t'', ''T'', ''TRUE'', ''true'', ''True''] then Some True
      else if s \<in> set [''0'', ''f'', ''F'', ''FALSE'', ''false'', ''False''] then Some False
      else None)"

lemma of_char_int: "(of_char c :: int) = int (of_char c)"
  by (rule of_nat_of_char [symmetric])

lemma of_char_digit_char [simp]:
  assumes "0 \<le> n" "n < 10"
  shows "(of_char (digit_char n) :: int) = n + 48" "(of_char (digit_char n) :: nat) = nat n + 48"
proof -
  have "(n + 48) mod 256 = n + 48" using assms by simp
  then show i: "(of_char (digit_char n) :: int) = n + 48" by (simp add: digit_char_def)
  then show "(of_char (digit_char n) :: nat) = nat n + 48"
    using assms by (metis nat_int of_char_int nat_add_distrib nat_numeral zero_le_numeral)
qed

lemma is_digit_digit_char [simp]: "0 \<le> n \<Longrightarrow> n < 10 \<Longrightarrow> is_digit (digit_char n)"
  by (simp add: is_digit_def)

lemma digit_val_digit_char [simp]: "0 \<le> n \<Longrightarrow> n < 10 \<Longrightarrow> digit_val (digit_char n) = n"
  by (simp add: digit_val_def)

lemma digit_val_range: "is_digit c \<Longrightarrow> 0 \<le> digit_val c \<and> digit_val c < 10"
  using of_char_int [of c] by (auto simp: is_digit_def digit_val_def)

lemma digits_val_simps [simp]:
  "digits_val [] = 0" "digits_val (s @ [c]) = 10 * digits_val s + digit_val c"
  by (simp_all add: digits_val_def)

lemma digits_val_nonneg: "list_all is_digit s \<Longrightarrow> 0 \<le> digits_val s"
proof (induction s rule: rev_induct)
  case (snoc c s)
  then show ?case using digit_val_range [of c] by simp
qed simp

lemma show_nat_nonempty [simp]: "show_nat n \<noteq> []"
  by (subst show_nat.simps) simp

lemma show_nat_digits: "0 \<le> n \<Longrightarrow> list_all is_digit (show_nat n)"
proof (induction n rule: show_nat.induct)
  case (1 n)
  then show ?case by (cases "n < 10") (auto simp: show_nat.simps [of n])
qed

lemma digits_val_show_nat [simp]: "0 \<le> n \<Longrightarrow> digits_val (show_nat n) = n"
proof (induction n rule: show_nat.induct)
  case (1 n)
  show ?case
  proof (cases "n < 10")
    case True
    then show ?thesis using digits_val_simps(2) [of "[]" "digit_char n"] "1.prems"
      by (simp add: show_nat.simps [of n])
  next
    case False
    with 1 show ?thesis by (simp add: show_nat.simps [of n])
  qed
qed

lemma not_digit_sign [simp]: "\<not> is_digit (CHR ''-'')" "\<not> is_digit (CHR ''+'')"
  by (simp_all add: is_digit_def)

lemma hd_show_nat: "0 \<le> n \<Longrightarrow> hd (show_nat n) \<noteq> CHR ''-''" "0 \<le> n \<Longrightarrow> hd (show_nat n) \<noteq> CHR ''+''"
  using show_nat_digits [of n] show_nat_nonempty [of n]
  by (metis hd_in_set list_all_iff not_digit_sign)+

text \<open>Printing and reading a 64-bit integer gives it back.\<close>

lemma parse_show_int: "in_int64 i \<Longrightarrow> parse_int64 (show_int i) = Some i"
  by (auto simp: parse_int64_def show_int_def in_int64_def show_nat_digits hd_show_nat Let_def)

lemma parse_int64_range: "parse_int64 s = Some i \<Longrightarrow> in_int64 i"
  using digits_val_nonneg [of s] digits_val_nonneg [of "tl s"]
  by (auto simp: parse_int64_def in_int64_def Let_def split: if_splits)

lemma is_alnum_plain: "is_alnum c \<Longrightarrow> plain_byte c"
  by (auto simp: is_alnum_def is_alpha_def is_digit_def plain_byte_def ascii_space_def Let_def)

lemma trim_space_alnum: "list_all is_alnum s \<Longrightarrow> trim_space s = s"
  by (rule trim_space_plain) (auto simp: list_all_iff is_alnum_plain)

end
