(* ===== verification/GoNet.thy ===== *)
theory GoNet
  imports GoStrings
begin

text \<open>
  IP addresses as the packages \<open>net/netip\<close> and \<open>net\<close> read them: the parsers of
  addresses and prefixes, prefix membership, \<open>net.SplitHostPort\<close>, and the address
  classes of \<open>net.IP\<close> the service asks for. An address is its bytes (4 or 16 of them)
  and, for IPv6, its zone.
\<close>

datatype addr = Addr4 "int list" | Addr6 "int list" string

record prefix =
  p_addr :: addr
  p_bits :: int

section \<open>Parsing addresses\<close>

text \<open>One field of a dotted address: decimal, at most 255, no leading zero.\<close>

definition parse_octet :: "string \<Rightarrow> int option" where
  "parse_octet s =
     (if s = [] \<or> \<not> list_all is_digit s \<or> (1 < length s \<and> hd s = CHR ''0'') \<or> 255 < digits_val s
      then None else Some (digits_val s))"

definition parse_ipv4_fields :: "string \<Rightarrow> int list option" where
  "parse_ipv4_fields s =
     (let fs = map parse_octet (split_byte (CHR ''.'') s)
      in if length fs = 4 \<and> None \<notin> set fs then Some (map the fs) else None)"

definition is_hex :: "char \<Rightarrow> bool" where
  "is_hex c \<longleftrightarrow> (let n = (of_char c :: nat) in
     48 \<le> n \<and> n \<le> 57 \<or> 65 \<le> n \<and> n \<le> 70 \<or> 97 \<le> n \<and> n \<le> 102)"

definition unhex :: "char \<Rightarrow> int" where
  "unhex c = (let n = (of_char c :: int) in
     if n \<le> 57 then n - 48 else if n \<le> 70 then n - 55 else n - 87)"

definition hex_val :: "string \<Rightarrow> int" where
  "hex_val s = foldl (\<lambda>n c. 16 * n + unhex c) 0 s"

text \<open>
  The loop of \<open>parseIPv6\<close>: \<open>k\<close> is the number of 16-bit groups there is still room for,
  \<open>bs\<close> the bytes read, \<open>ell\<close> the position of the \<open>::\<close>. The result is what the loop
  leaves: the bytes, the position and the text not read.
\<close>

fun ipv6_loop :: "nat \<Rightarrow> string \<Rightarrow> int list \<Rightarrow> nat option \<Rightarrow> (int list \<times> nat option \<times> string) option" where
  "ipv6_loop 0 s bs ell = Some (bs, ell, s)"
| "ipv6_loop (Suc k) s bs ell =
     (let ds = takeWhile is_hex s; r = dropWhile is_hex s in
      if ds = [] \<or> 4 < length ds then None
      else if r \<noteq> [] \<and> hd r = CHR ''.'' then
        (if (ell = None \<and> length bs \<noteq> 12) \<or> 16 < length bs + 4 then None
         else map_option (\<lambda>v4. (bs @ v4, ell, [])) (parse_ipv4_fields s))
      else
        (let bs1 = bs @ [hex_val ds div 256, hex_val ds mod 256] in
         if r = [] then Some (bs1, ell, [])
         else if hd r \<noteq> CHR '':'' \<or> tl r = [] then None
         else if hd (tl r) = CHR '':'' then
           (if ell \<noteq> None then None
            else if tl (tl r) = [] then Some (bs1, Some (length bs1), [])
            else ipv6_loop k (tl (tl r)) bs1 (Some (length bs1)))
         else ipv6_loop k (tl r) bs1 ell))"

definition ipv6_finish :: "int list \<Rightarrow> nat option \<Rightarrow> int list option" where
  "ipv6_finish bs ell =
     (if length bs < 16
      then map_option (\<lambda>e. take e bs @ replicate (16 - length bs) 0 @ drop e bs) ell
      else if ell \<noteq> None then None else Some bs)"

definition parse_ipv6 :: "string \<Rightarrow> addr option" where
  "parse_ipv6 a =
     (case (case cut_byte (CHR ''%'') a of None \<Rightarrow> (a, [], True) | Some (s, z) \<Rightarrow> (s, z, z \<noteq> [])) of
        (s, zone, zone_ok) \<Rightarrow>
      if \<not> zone_ok then None
      else if s = ''::'' then Some (Addr6 (replicate 16 0) zone)
      else Option.bind
             (if has_prefix s ''::'' then ipv6_loop 8 (drop 2 s) [] (Some 0) else ipv6_loop 8 s [] None)
             (\<lambda>(bs, ell, rest). if rest \<noteq> [] then None
                else map_option (\<lambda>b. Addr6 b zone) (ipv6_finish bs ell)))"

text \<open>\<open>netip.ParseAddr\<close>: the first of \<open>.\<close>, \<open>:\<close> and \<open>%\<close> decides.\<close>

definition parse_addr :: "string \<Rightarrow> addr option" where
  "parse_addr s =
     (case dropWhile (\<lambda>c. c \<noteq> CHR ''.'' \<and> c \<noteq> CHR '':'' \<and> c \<noteq> CHR ''%'') s of
        [] \<Rightarrow> None
      | c # _ \<Rightarrow>
          if c = CHR ''.'' then map_option Addr4 (parse_ipv4_fields s)
          else if c = CHR '':'' then parse_ipv6 s
          else None)"

text \<open>\<open>net.ParseIP\<close>: the 16-byte form (a dotted address is mapped), no zone.\<close>

definition parse_ip :: "string \<Rightarrow> int list option" where
  "parse_ip s =
     (case parse_addr s of
        None \<Rightarrow> None
      | Some (Addr4 b) \<Rightarrow> Some (replicate 10 0 @ [255, 255] @ b)
      | Some (Addr6 b z) \<Rightarrow> if z = [] then Some b else None)"

section \<open>Prefixes\<close>

definition bit_len :: "addr \<Rightarrow> int" where
  "bit_len a = (case a of Addr4 _ \<Rightarrow> 32 | Addr6 _ _ \<Rightarrow> 128)"

definition without_zone :: "addr \<Rightarrow> addr" where
  "without_zone a = (case a of Addr4 b \<Rightarrow> Addr4 b | Addr6 b z \<Rightarrow> Addr6 b [])"

definition has_zone :: "addr \<Rightarrow> bool" where
  "has_zone a = (case a of Addr4 _ \<Rightarrow> False | Addr6 _ z \<Rightarrow> z \<noteq> [])"

definition addr_bytes :: "addr \<Rightarrow> int list" where
  "addr_bytes a = (case a of Addr4 b \<Rightarrow> b | Addr6 b _ \<Rightarrow> b)"

definition bytes_num :: "int list \<Rightarrow> int" where
  "bytes_num bs = foldl (\<lambda>n b. 256 * n + b) 0 bs"

text \<open>\<open>netip.PrefixFrom\<close> of an address and a number of bits in its range.\<close>

definition prefix_from :: "addr \<Rightarrow> int \<Rightarrow> prefix" where
  "prefix_from a n = \<lparr>p_addr = without_zone a, p_bits = n\<rparr>"

definition parse_prefix :: "string \<Rightarrow> prefix option" where
  "parse_prefix s =
     (case cut_last (CHR ''/'') s of
        None \<Rightarrow> None
      | Some (a, bits) \<Rightarrow>
          (case parse_addr a of
             None \<Rightarrow> None
           | Some ip \<Rightarrow>
               if has_zone ip \<or> (1 < length bits \<and> (\<not> is_digit (hd bits) \<or> hd bits = CHR ''0''))
               then None
               else (case parse_int64 bits of
                       None \<Rightarrow> None
                     | Some n \<Rightarrow> if n < 0 \<or> bit_len ip < n then None else Some (prefix_from ip n))))"

text \<open>\<open>Prefix.Contains\<close>: the same family, no zone, and the leading bits agree.\<close>

definition prefix_contains :: "prefix \<Rightarrow> addr \<Rightarrow> bool" where
  "prefix_contains p a \<longleftrightarrow>
     \<not> has_zone a \<and> bit_len (p_addr p) = bit_len a \<and>
     (let k = nat (bit_len a - p_bits p)
      in bytes_num (addr_bytes a) div 2 ^ k = bytes_num (addr_bytes (p_addr p)) div 2 ^ k)"

section \<open>Address classes\<close>

text \<open>\<open>IP.To4\<close> of a 16-byte address: the four bytes of a mapped one.\<close>

definition to4 :: "int list \<Rightarrow> int list option" where
  "to4 ip = (if take 12 ip = replicate 10 0 @ [255, 255] then Some (drop 12 ip) else None)"

definition is_loopback :: "int list \<Rightarrow> bool" where
  "is_loopback ip = (case to4 ip of
     Some b \<Rightarrow> b ! 0 = 127 | None \<Rightarrow> ip = replicate 15 0 @ [1])"

definition is_private :: "int list \<Rightarrow> bool" where
  "is_private ip = (case to4 ip of
     Some b \<Rightarrow> b ! 0 = 10 \<or> (b ! 0 = 172 \<and> b ! 1 div 16 = 1) \<or> (b ! 0 = 192 \<and> b ! 1 = 168)
   | None \<Rightarrow> ip ! 0 div 2 = 126)"

definition is_link_local_multicast :: "int list \<Rightarrow> bool" where
  "is_link_local_multicast ip = (case to4 ip of
     Some b \<Rightarrow> b ! 0 = 224 \<and> b ! 1 = 0 \<and> b ! 2 = 0
   | None \<Rightarrow> ip ! 0 = 255 \<and> ip ! 1 mod 16 = 2)"

definition is_link_local_unicast :: "int list \<Rightarrow> bool" where
  "is_link_local_unicast ip = (case to4 ip of
     Some b \<Rightarrow> b ! 0 = 169 \<and> b ! 1 = 254
   | None \<Rightarrow> ip ! 0 = 254 \<and> ip ! 1 div 64 = 2)"

definition is_multicast :: "int list \<Rightarrow> bool" where
  "is_multicast ip = (case to4 ip of Some b \<Rightarrow> b ! 0 div 16 = 14 | None \<Rightarrow> ip ! 0 = 255)"

definition is_unspecified :: "int list \<Rightarrow> bool" where
  "is_unspecified ip \<longleftrightarrow> to4 ip = Some [0, 0, 0, 0] \<or> ip = replicate 16 0"

section \<open>Host and port\<close>

text \<open>\<open>net.SplitHostPort\<close>, its errors as \<open>None\<close>.\<close>

definition split_host_port :: "string \<Rightarrow> (string \<times> string) option" where
  "split_host_port hp =
     (case cut_last (CHR '':'') hp of
        None \<Rightarrow> None
      | Some (a, port) \<Rightarrow>
          if hd hp = CHR ''['' then
            (case cut_byte (CHR '']'') hp of
               None \<Rightarrow> None
             | Some (b, rest) \<Rightarrow>
                 if length b + 1 = length a \<and> CHR ''['' \<notin> set (tl hp) \<and> CHR '']'' \<notin> set rest
                 then Some (tl b, port) else None)
          else if CHR '':'' \<in> set a \<or> CHR ''['' \<in> set hp \<or> CHR '']'' \<in> set hp then None
          else Some (a, port))"

section \<open>Facts\<close>

lemma parse_octet_range: "parse_octet s = Some n \<Longrightarrow> 0 \<le> n \<and> n \<le> 255"
  by (auto simp: parse_octet_def digits_val_nonneg split: if_splits)

lemma parse_ipv4_fields_props:
  assumes "parse_ipv4_fields s = Some b"
  shows "length b = 4" "\<forall>x \<in> set b. 0 \<le> x \<and> x \<le> 255"
proof -
  have l: "length (split_byte (CHR ''.'') s) = 4"
    and n: "None \<notin> set (map parse_octet (split_byte (CHR ''.'') s))"
    and b: "b = map the (map parse_octet (split_byte (CHR ''.'') s))"
    using assms by (auto simp: parse_ipv4_fields_def Let_def split: if_splits)
  show "length b = 4" using b l by simp
  show "\<forall>x \<in> set b. 0 \<le> x \<and> x \<le> 255"
  proof
    fix x assume "x \<in> set b"
    then obtain f where f: "f \<in> set (split_byte (CHR ''.'') s)" "x = the (parse_octet f)"
      using b by auto
    with n have "parse_octet f = Some x" by (cases "parse_octet f") (force simp: image_iff)+
    then show "0 \<le> x \<and> x \<le> 255" by (rule parse_octet_range)
  qed
qed

lemma to4_length: "length ip = 16 \<Longrightarrow> to4 ip = Some b \<Longrightarrow> length b = 4"
  by (auto simp: to4_def split: if_splits)

text \<open>An address is in the one-address prefix made of it, as configured proxies are.\<close>

lemma prefix_contains_self: "\<not> has_zone a \<Longrightarrow> prefix_contains (prefix_from a (bit_len a)) a"
  by (cases a) (auto simp: prefix_contains_def prefix_from_def without_zone_def bit_len_def
      addr_bytes_def has_zone_def)

end
