(* ===== verification/GoUrl.thy ===== *)
theory GoUrl
  imports GoNet
begin

text \<open>
  Package \<open>net/url\<close> of Go 1.25 (the toolchain \<open>go.mod\<close> asks for) as far as the service
  uses it: \<open>Parse\<close>, \<open>URL.String\<close>, \<open>URL.Hostname\<close> and the query parameters. Errors
  are \<open>None\<close>: the service never looks at their text.
\<close>

record url =
  u_Scheme :: string
  u_Opaque :: string
  u_User :: "(string \<times> string option) option"
  u_Host :: string
  u_Path :: string
  u_RawPath :: string
  u_OmitHost :: bool
  u_ForceQuery :: bool
  u_RawQuery :: string
  u_Fragment :: string
  u_RawFragment :: string

definition empty_url :: url where
  "empty_url = \<lparr>u_Scheme = [], u_Opaque = [], u_User = None, u_Host = [], u_Path = [],
     u_RawPath = [], u_OmitHost = False, u_ForceQuery = False, u_RawQuery = [],
     u_Fragment = [], u_RawFragment = []\<rparr>"

section \<open>Escaping\<close>

datatype encoding = EncPath | EncHost | EncZone | EncUserPassword | EncQueryComponent | EncFragment

definition host_marks :: string where
  "host_marks = [CHR 0x22, CHR 0x27] @ ''!$&()*+,;=:[]<>''"

definition unreserved_marks :: string where "unreserved_marks = ''-_.~''"

definition reserved_marks :: string where "reserved_marks = ''$&+,/:;=?@''"

definition fragment_marks :: string where "fragment_marks = ''!()*''"

text \<open>\<open>shouldEscape\<close>: which bytes a part of a URL does not hold as they are.\<close>

definition should_escape :: "char \<Rightarrow> encoding \<Rightarrow> bool" where
  "should_escape c mode =
     (if is_alnum c then False
      else if (mode = EncHost \<or> mode = EncZone) \<and> c \<in> set host_marks
        then False
      else if c \<in> set unreserved_marks then False
      else if c \<in> set reserved_marks then
        (case mode of
           EncPath \<Rightarrow> c = CHR ''?''
         | EncUserPassword \<Rightarrow> c \<in> set ''@/?:''
         | EncQueryComponent \<Rightarrow> True
         | EncFragment \<Rightarrow> False
         | _ \<Rightarrow> True)
      else if mode = EncFragment \<and> c \<in> set fragment_marks then False
      else True)"

definition upper_hex :: "int \<Rightarrow> char" where
  "upper_hex n = (if n < 10 then char_of (n + 48) else char_of (n + 55))"

definition percent :: "char \<Rightarrow> string" where
  "percent c = [CHR ''%'', upper_hex (of_char c div 16), upper_hex (of_char c mod 16)]"

definition escape :: "string \<Rightarrow> encoding \<Rightarrow> string" where
  "escape s mode = concat (map (\<lambda>c.
     if mode = EncQueryComponent \<and> c = CHR 0x20 then ''+''
     else if should_escape c mode then percent c else [c]) s)"

text \<open>\<open>unescape\<close>: the check of the text and the decoding in one pass.\<close>

fun unescape :: "string \<Rightarrow> encoding \<Rightarrow> string option" where
  "unescape [] mode = Some []"
| "unescape (c # s) mode =
     (if c = CHR ''%'' then
        (case s of
           a # b # t \<Rightarrow>
             if \<not> is_hex a \<or> \<not> is_hex b then None
             else if mode = EncHost \<and> unhex a < 8 \<and> [a, b] \<noteq> ''25'' then None
             else if mode = EncZone \<and> [a, b] \<noteq> ''25'' \<and> char_of (unhex a * 16 + unhex b) \<noteq> CHR 0x20
                 \<and> should_escape (char_of (unhex a * 16 + unhex b)) EncHost then None
             else map_option (\<lambda>r. char_of (unhex a * 16 + unhex b) # r) (unescape t mode)
         | _ \<Rightarrow> None)
      else if c = CHR ''+'' \<and> mode = EncQueryComponent then
        map_option (\<lambda>r. CHR 0x20 # r) (unescape s mode)
      else if (mode = EncHost \<or> mode = EncZone) \<and> (of_char c :: nat) < 128 \<and> should_escape c mode then None
      else map_option (\<lambda>r. c # r) (unescape s mode))"

definition encoded_marks :: string where
  "encoded_marks = CHR 0x27 # ''!$&()*+,;=:@[]%''"

definition valid_encoded :: "string \<Rightarrow> encoding \<Rightarrow> bool" where
  "valid_encoded s mode \<longleftrightarrow> list_all (\<lambda>c.
     c \<in> set encoded_marks \<or> \<not> should_escape c mode) s"

section \<open>Parsing\<close>

definition is_ctl :: "char \<Rightarrow> bool" where
  "is_ctl c \<longleftrightarrow> (of_char c :: nat) < 32 \<or> (of_char c :: nat) = 127"

text \<open>\<open>getScheme\<close>: \<open>None\<close> for a missing scheme before a colon, else scheme and rest.\<close>

definition scheme_byte :: "char \<Rightarrow> bool" where
  "scheme_byte c \<longleftrightarrow> is_alnum c \<or> c \<in> set ''+-.''"

definition get_scheme :: "string \<Rightarrow> (string \<times> string) option" where
  "get_scheme s =
     (let p = takeWhile scheme_byte s; r = dropWhile scheme_byte s in
      if r \<noteq> [] \<and> hd r = CHR '':'' then
        (if p = [] then None
         else if is_alpha (hd p) then Some (p, tl r) else Some ([], s))
      else Some ([], s))"

definition valid_optional_port :: "string \<Rightarrow> bool" where
  "valid_optional_port p \<longleftrightarrow> p = [] \<or> hd p = CHR '':'' \<and> list_all is_digit (tl p)"

fun find_sub :: "string \<Rightarrow> string \<Rightarrow> (string \<times> string) option" where
  "find_sub p [] = (if p = [] then Some ([], []) else None)"
| "find_sub p (c # s) =
     (if has_prefix (c # s) p then Some ([], c # s)
      else map_option (\<lambda>(a, b). (c # a, b)) (find_sub p s))"

text \<open>\<open>parseHost\<close>: a bracketed address, possibly with a zone, or a name with an optional port.\<close>

definition parse_host :: "string \<Rightarrow> string option" where
  "parse_host host =
     (case cut_last (CHR ''['') host of
        Some (pre, after) \<Rightarrow>
          (case cut_last (CHR '']'') host of
             None \<Rightarrow> None
           | Some (front, port) \<Rightarrow>
               if \<not> valid_optional_port port then None
               else if length front < length pre + 1 then None
               else
                 (let hostname = drop (length pre + 1) front in
                  Option.bind (unescape port EncHost) (\<lambda>up.
                  Option.bind
                    (case find_sub ''%25'' hostname of
                       Some (h, z) \<Rightarrow> Option.bind (unescape h EncHost) (\<lambda>a.
                          map_option (\<lambda>b. a @ b) (unescape z EncZone))
                     | None \<Rightarrow> unescape hostname EncHost)
                  (\<lambda>name.
                    (case parse_addr name of
                       None \<Rightarrow> None
                     | Some (Addr4 _) \<Rightarrow> None
                     | Some (Addr6 _ _) \<Rightarrow> Some (''['' @ name @ '']'' @ up))))))
      | None \<Rightarrow>
          (case cut_last (CHR '':'') host of
             Some (_, port) \<Rightarrow>
               if valid_optional_port (CHR '':'' # port) then unescape host EncHost else None
           | None \<Rightarrow> unescape host EncHost))"

definition valid_userinfo :: "string \<Rightarrow> bool" where
  "valid_userinfo s \<longleftrightarrow> list_all (\<lambda>c. is_alnum c \<or> c \<in> set ''-._:~!$&()*+,;=%@'' \<union> {CHR 0x27}) s"

definition parse_authority :: "string \<Rightarrow> ((string \<times> string option) option \<times> string) option" where
  "parse_authority a =
     (case cut_last (CHR ''@'') a of
        None \<Rightarrow> map_option (\<lambda>h. (None, h)) (parse_host a)
      | Some (ui, hp) \<Rightarrow>
          Option.bind (parse_host hp) (\<lambda>h.
            if \<not> valid_userinfo ui then None
            else (case cut_byte (CHR '':'') ui of
                    None \<Rightarrow> map_option (\<lambda>n. (Some (n, None), h)) (unescape ui EncUserPassword)
                  | Some (n, p) \<Rightarrow>
                      Option.bind (unescape n EncUserPassword) (\<lambda>n'.
                      map_option (\<lambda>p'. (Some (n', Some p'), h)) (unescape p EncUserPassword)))))"

definition set_path :: "url \<Rightarrow> string \<Rightarrow> url option" where
  "set_path u p = map_option (\<lambda>path.
     u\<lparr>u_Path := path, u_RawPath := (if p = escape path EncPath then [] else p)\<rparr>) (unescape p EncPath)"

definition set_fragment :: "url \<Rightarrow> string \<Rightarrow> url option" where
  "set_fragment u f = map_option (\<lambda>frag.
     u\<lparr>u_Fragment := frag, u_RawFragment := (if f = escape frag EncFragment then [] else f)\<rparr>)
       (unescape f EncFragment)"

text \<open>The part of \<open>parse\<close> after the scheme and the query are split off.\<close>

definition parse_hier :: "url \<Rightarrow> string \<Rightarrow> url option" where
  "parse_hier u rest =
     (if \<not> has_prefix rest ''/'' \<and> u_Scheme u \<noteq> [] then Some (u\<lparr>u_Opaque := rest\<rparr>)
      else if \<not> has_prefix rest ''/'' \<and> CHR '':'' \<in> set (takeWhile (\<lambda>c. c \<noteq> CHR ''/'') rest) then None
      else if (u_Scheme u \<noteq> [] \<or> \<not> has_prefix rest ''///'') \<and> has_prefix rest ''//'' then
        (let authority = takeWhile (\<lambda>c. c \<noteq> CHR ''/'') (drop 2 rest);
             path = dropWhile (\<lambda>c. c \<noteq> CHR ''/'') (drop 2 rest)
         in case parse_authority authority of
              None \<Rightarrow> None
            | Some (user, h) \<Rightarrow> set_path (u\<lparr>u_User := user, u_Host := h\<rparr>) path)
      else if u_Scheme u \<noteq> [] \<and> has_prefix rest ''/'' then set_path (u\<lparr>u_OmitHost := True\<rparr>) rest
      else set_path u rest)"

definition parse_no_fragment :: "string \<Rightarrow> url option" where
  "parse_no_fragment s =
     (if list_ex is_ctl s then None
      else if s = ''*'' then Some (empty_url\<lparr>u_Path := ''*''\<rparr>)
      else (case get_scheme s of
              None \<Rightarrow> None
            | Some (scheme, rest) \<Rightarrow>
                let u = empty_url\<lparr>u_Scheme := to_lower scheme\<rparr> in
                if has_suffix rest ''?'' \<and> count_list rest (CHR ''?'') = 1
                then parse_hier (u\<lparr>u_ForceQuery := True\<rparr>) (butlast rest)
                else (case cut_byte (CHR ''?'') rest of
                        None \<Rightarrow> parse_hier u rest
                      | Some (r, q) \<Rightarrow> parse_hier (u\<lparr>u_RawQuery := q\<rparr>) r)))"

text \<open>\<open>url.Parse\<close>.\<close>

definition parse_url :: "string \<Rightarrow> url option" where
  "parse_url raw =
     (case cut_byte (CHR ''#'') raw of
        None \<Rightarrow> parse_no_fragment raw
      | Some (s, frag) \<Rightarrow>
          Option.bind (parse_no_fragment s) (\<lambda>u. if frag = [] then Some u else set_fragment u frag))"

section \<open>Reading and printing\<close>

definition hostname :: "url \<Rightarrow> string" where
  "hostname u =
     (let h = (case cut_last (CHR '':'') (u_Host u) of
                 None \<Rightarrow> u_Host u
               | Some (a, p) \<Rightarrow> if valid_optional_port (CHR '':'' # p) then a else u_Host u)
      in if has_prefix h ''['' \<and> has_suffix h '']'' then tl (butlast h) else h)"

definition escaped_path :: "url \<Rightarrow> string" where
  "escaped_path u =
     (if u_RawPath u \<noteq> [] \<and> valid_encoded (u_RawPath u) EncPath
         \<and> unescape (u_RawPath u) EncPath = Some (u_Path u) then u_RawPath u
      else if u_Path u = ''*'' then ''*''
      else escape (u_Path u) EncPath)"

definition escaped_fragment :: "url \<Rightarrow> string" where
  "escaped_fragment u =
     (if u_RawFragment u \<noteq> [] \<and> valid_encoded (u_RawFragment u) EncFragment
         \<and> unescape (u_RawFragment u) EncFragment = Some (u_Fragment u) then u_RawFragment u
      else escape (u_Fragment u) EncFragment)"

definition user_string :: "string \<times> string option \<Rightarrow> string" where
  "user_string ui = escape (fst ui) EncUserPassword @
     (case snd ui of None \<Rightarrow> [] | Some p \<Rightarrow> '':'' @ escape p EncUserPassword)"

definition authority_string :: "url \<Rightarrow> string" where
  "authority_string u =
     (if u_Scheme u = [] \<and> u_Host u = [] \<and> u_User u = None then []
      else if u_OmitHost u \<and> u_Host u = [] \<and> u_User u = None then []
      else (if u_Host u \<noteq> [] \<or> u_Path u \<noteq> [] \<or> u_User u \<noteq> None then ''//'' else [])
        @ (case u_User u of None \<Rightarrow> [] | Some ui \<Rightarrow> user_string ui @ ''@'')
        @ (if u_Host u \<noteq> [] then escape (u_Host u) EncHost else []))"

definition url_string :: "url \<Rightarrow> string" where
  "url_string u =
     (if u_Scheme u \<noteq> [] then u_Scheme u @ '':'' else []) @
     (if u_Opaque u \<noteq> [] then u_Opaque u
      else
        (let auth = authority_string u; path = escaped_path u in
         auth @
         (if path \<noteq> [] \<and> hd path \<noteq> CHR ''/'' \<and> u_Host u \<noteq> [] then ''/'' else []) @
         (if u_Scheme u = [] \<and> auth = [] \<and> CHR '':'' \<in> set (takeWhile (\<lambda>c. c \<noteq> CHR ''/'') path)
          then ''./'' else []) @
         path)) @
     (if u_ForceQuery u \<or> u_RawQuery u \<noteq> [] then ''?'' @ u_RawQuery u else []) @
     (if u_Fragment u \<noteq> [] then ''#'' @ escaped_fragment u else [])"

section \<open>Query parameters\<close>

text \<open>
  \<open>URL.Query().Get(key)\<close>: the first value of the key among the well-formed pairs. From
  10000 separators on \<open>ParseQuery\<close> reads nothing.
\<close>

definition parse_pair :: "string \<Rightarrow> (string \<times> string) option" where
  "parse_pair p =
     (if CHR '';'' \<in> set p \<or> p = [] then None
      else (case (case cut_byte (CHR ''='') p of None \<Rightarrow> (p, []) | Some kv \<Rightarrow> kv) of (k, v) \<Rightarrow>
        Option.bind (unescape k EncQueryComponent) (\<lambda>k'.
          map_option (\<lambda>v'. (k', v')) (unescape v EncQueryComponent))))"

definition query_pairs :: "string \<Rightarrow> (string \<times> string) list" where
  "query_pairs q =
     (if 10000 < count_list q (CHR ''&'') + 1 then []
      else List.map_filter parse_pair (split_byte (CHR ''&'') q))"

definition query_get :: "string \<Rightarrow> string \<Rightarrow> string" where
  "query_get q key = (case map_of (query_pairs q) key of None \<Rightarrow> [] | Some v \<Rightarrow> v)"

section \<open>Printed URLs hold no control byte\<close>

definition clean :: "string \<Rightarrow> bool" where
  "clean s \<longleftrightarrow> list_all (\<lambda>c. \<not> is_ctl c) s"

lemma clean_simps [simp]:
  "clean []" "clean (c # s) \<longleftrightarrow> \<not> is_ctl c \<and> clean s" "clean (s @ t) \<longleftrightarrow> clean s \<and> clean t"
  by (simp_all add: clean_def)

lemma clean_subset: "set t \<subseteq> set s \<Longrightarrow> clean s \<Longrightarrow> clean t"
  by (auto simp: clean_def list_all_iff)

lemma alnum_not_ctl: "is_alnum c \<Longrightarrow> \<not> is_ctl c"
  by (auto simp: is_alnum_def is_alpha_def is_digit_def is_ctl_def Let_def)

lemma clean_mem: "clean s \<Longrightarrow> c \<in> set s \<Longrightarrow> \<not> is_ctl c"
  by (auto simp: clean_def list_all_iff)

lemma marks_clean:
  "clean host_marks" "clean unreserved_marks" "clean reserved_marks" "clean fragment_marks"
  "clean encoded_marks"
  by code_simp+

lemma literals_not_ctl [simp]:
  "\<not> is_ctl (CHR ''+'')" "\<not> is_ctl (CHR ''%'')" "\<not> is_ctl (CHR '':'')" "\<not> is_ctl (CHR ''/'')"
  "\<not> is_ctl (CHR ''?'')" "\<not> is_ctl (CHR ''#'')" "\<not> is_ctl (CHR ''@'')" "\<not> is_ctl (CHR ''.'')"
  "\<not> is_ctl (CHR ''*'')" "\<not> is_ctl (CHR ''i'')" "\<not> is_ctl (CHR ''k'')"
  by (simp_all add: is_ctl_def)

lemma unescaped_not_ctl: "\<not> should_escape c mode \<Longrightarrow> \<not> is_ctl c"
  using marks_clean [THEN clean_mem, of c] alnum_not_ctl [of c]
  by (auto simp: should_escape_def split: if_splits)

lemma upper_hex_not_ctl: "0 \<le> n \<Longrightarrow> n < 16 \<Longrightarrow> \<not> is_ctl (upper_hex n)"
proof -
  assume n: "0 \<le> n" "n < 16"
  have "list_all (\<lambda>n. \<not> is_ctl (upper_hex n)) [0..15]" by code_simp
  then show ?thesis using n by (auto simp: list_all_iff)
qed

lemma percent_clean: "clean (percent c)"
proof -
  have "0 \<le> (of_char c :: int)" "(of_char c :: int) < 256"
    using nat_of_char_less_256 [of c] by (auto simp: of_char_int simp del: nat_of_char_less_256)
  then show ?thesis by (simp add: percent_def upper_hex_not_ctl)
qed

lemma escape_clean: "clean (escape s mode)"
  by (induction s) (auto simp: escape_def percent_clean unescaped_not_ctl)

lemma valid_encoded_clean: "valid_encoded s mode \<Longrightarrow> clean s"
  using marks_clean(5) [THEN clean_mem] unescaped_not_ctl
  unfolding valid_encoded_def clean_def list_all_iff by blast

lemma lower_char_not_ctl: "\<not> is_ctl c \<Longrightarrow> \<not> is_ctl (lower_char c)"
  by (auto simp: lower_char_def Let_def is_ctl_def)

lemma clean_tl: "clean s \<Longrightarrow> clean (tl s)"
  by (cases s) auto

lemma clean_drop: "clean s \<Longrightarrow> clean (drop n s)"
  by (rule clean_subset [OF set_drop_subset])

lemma clean_butlast: "clean s \<Longrightarrow> clean (butlast s)"
  by (rule clean_subset [of _ s]) (auto dest: in_set_butlastD)

lemma to_lower_clean: "clean s \<Longrightarrow> clean (to_lower s)"
  by (induction s rule: to_lower.induct) (auto simp: lower_char_not_ctl clean_tl clean_drop)

text \<open>What parsing keeps: no control byte in the parts that are printed as they are.\<close>

definition url_clean :: "url \<Rightarrow> bool" where
  "url_clean u \<longleftrightarrow> clean (u_Scheme u) \<and> clean (u_Opaque u) \<and> clean (u_RawQuery u)"

lemma set_path_frame:
  "set_path u p = Some v \<Longrightarrow> u_Scheme v = u_Scheme u \<and> u_Opaque v = u_Opaque u \<and>
     u_RawQuery v = u_RawQuery u \<and> u_Host v = u_Host u"
  by (auto simp: set_path_def)

lemma set_fragment_frame:
  "set_fragment u p = Some v \<Longrightarrow> u_Scheme v = u_Scheme u \<and> u_Opaque v = u_Opaque u \<and>
     u_RawQuery v = u_RawQuery u \<and> u_Host v = u_Host u"
  by (auto simp: set_fragment_def)

lemma parse_hier_frame:
  assumes "parse_hier u rest = Some v" "u_Opaque u = []" "u_Host u = []"
  shows "u_Scheme v = u_Scheme u \<and> u_RawQuery v = u_RawQuery u \<and> u_Opaque v \<in> {[], rest} \<and>
     (u_Host v \<noteq> [] \<longrightarrow> u_Opaque v = [])"
  using assms
  by (auto simp: parse_hier_def Let_def split: if_splits option.splits dest!: set_path_frame)

lemma get_scheme_subset: "get_scheme s = Some (a, r) \<Longrightarrow> set a \<subseteq> set s \<and> set r \<subseteq> set s"
  by (auto simp: get_scheme_def Let_def split: if_splits
      dest: set_takeWhileD set_dropWhileD list.set_sel(2) [rotated])

lemma parse_no_fragment_clean:
  assumes "parse_no_fragment s = Some u"
  shows "url_clean u \<and> (u_Host u \<noteq> [] \<longrightarrow> u_Opaque u = [])"
proof (cases "s = ''*''")
  case True
  with assms show ?thesis
    by (auto simp: parse_no_fragment_def url_clean_def empty_url_def split: if_splits)
next
  case False
  from assms have cl: "clean s"
    by (auto simp: parse_no_fragment_def clean_def list_all_iff list_ex_iff split: if_splits)
  from assms False obtain a r where g: "get_scheme s = Some (a, r)"
    by (auto simp: parse_no_fragment_def split: if_splits option.splits)
  have cr: "clean a" "clean r" using get_scheme_subset [OF g] cl clean_subset by blast+
  let ?u = "empty_url\<lparr>u_Scheme := to_lower a\<rparr>"
  from assms False g consider
      "parse_hier (?u\<lparr>u_ForceQuery := True\<rparr>) (butlast r) = Some u"
    | "parse_hier ?u r = Some u"
    | r' q where "cut_byte (CHR ''?'') r = Some (r', q)" "parse_hier (?u\<lparr>u_RawQuery := q\<rparr>) r' = Some u"
    by (auto simp: parse_no_fragment_def Let_def split: if_splits option.splits)
  then show ?thesis
  proof cases
    case 1
    then show ?thesis using parse_hier_frame [OF 1] cr clean_butlast [OF cr(2)]
      by (auto simp: url_clean_def empty_url_def to_lower_clean)
  next
    case 2
    then show ?thesis using parse_hier_frame [OF 2] cr
      by (auto simp: url_clean_def empty_url_def to_lower_clean)
  next
    case 3
    then have "clean r'" "clean q" using cr by (auto dest!: cut_byte_SomeD)
    then show ?thesis using parse_hier_frame [OF 3(2)] cr
      by (auto simp: url_clean_def empty_url_def to_lower_clean)
  qed
qed

lemma parse_url_clean:
  assumes "parse_url raw = Some u"
  shows "url_clean u" "u_Host u \<noteq> [] \<Longrightarrow> u_Opaque u = []"
proof -
  have "url_clean u \<and> (u_Host u \<noteq> [] \<longrightarrow> u_Opaque u = [])"
  proof (cases "cut_byte (CHR ''#'') raw")
    case None
    with assms show ?thesis by (simp add: parse_url_def parse_no_fragment_clean)
  next
    case (Some p)
    with assms obtain v where "parse_no_fragment (fst p) = Some v" "v = u \<or> set_fragment v (snd p) = Some u"
      by (cases p) (auto simp: parse_url_def bind_eq_Some_conv split: if_splits)
    then show ?thesis
      using parse_no_fragment_clean [of "fst p" v] by (auto simp: url_clean_def dest!: set_fragment_frame)
  qed
  then show "url_clean u" "u_Host u \<noteq> [] \<Longrightarrow> u_Opaque u = []" by auto
qed

lemma user_string_clean: "clean (user_string ui)"
  by (simp add: user_string_def escape_clean split: option.split)

lemma authority_string_clean: "clean (authority_string u)"
  by (simp add: authority_string_def escape_clean user_string_clean split: option.split)

lemma escaped_path_clean: "clean (escaped_path u)"
  using valid_encoded_clean [of "u_RawPath u" EncPath] by (auto simp: escaped_path_def escape_clean)

lemma escaped_fragment_clean: "clean (escaped_fragment u)"
  using valid_encoded_clean [of "u_RawFragment u" EncFragment]
  by (auto simp: escaped_fragment_def escape_clean)

lemma url_string_clean: "url_clean u \<Longrightarrow> clean (url_string u)"
  by (simp add: url_string_def url_clean_def authority_string_clean escaped_path_clean
      escaped_fragment_clean Let_def)

text \<open>A URL with a scheme and a host prints as \<open>scheme://\<close> and the rest.\<close>

lemma url_string_prefix:
  assumes "u_Scheme u \<noteq> []" "u_Host u \<noteq> []" "u_Opaque u = []"
  shows "has_prefix (url_string u) (u_Scheme u @ ''://'')"
  using assms by (auto simp: url_string_def authority_string_def has_prefix_def Let_def)

end
