(* ===== verification/GoTime.thy ===== *)
theory GoTime
  imports GoStrings
begin

text \<open>
  Go's \<open>time\<close> package as far as the service uses it: an instant is the number of
  nanoseconds since 1970-01-01T00:00:00Z (the service turns every time into UTC and reads
  only the wall clock of stored times), a duration a 64-bit number of nanoseconds. The
  proleptic Gregorian calendar, \<open>Format(time.RFC3339Nano)\<close> and
  \<open>Parse(time.RFC3339Nano)\<close> (the RFC 3339 path of it: text in another shape, which
  the service never writes, is refused here) with their round trip, and the order of the
  formatted text as bytes against the order of time.
\<close>

type_synonym instant = int
type_synonym duration = int

definition second :: duration where "second = 1000000000"
definition minute :: duration where "minute = 60000000000"

section \<open>Calendar\<close>

definition leap :: "int \<Rightarrow> bool" where
  "leap y \<longleftrightarrow> y mod 4 = 0 \<and> (y mod 100 \<noteq> 0 \<or> y mod 400 = 0)"

definition month_lens :: "bool \<Rightarrow> int list" where
  "month_lens l = [31, if l then 29 else 28, 31, 30, 31, 30, 31, 31, 30, 31, 30, 31]"

text \<open>Days are counted from 0001-01-01.\<close>

definition days_before_year :: "int \<Rightarrow> int" where
  "days_before_year y = 365 * (y - 1) + (y - 1) div 4 - (y - 1) div 100 + (y - 1) div 400"

definition days_before_month :: "bool \<Rightarrow> int \<Rightarrow> int" where
  "days_before_month l m = sum_list (take (nat (m - 1)) (month_lens l))"

definition day_of_civil :: "int \<Rightarrow> int \<Rightarrow> int \<Rightarrow> int" where
  "day_of_civil y m d = days_before_year y + days_before_month (leap y) m + (d - 1)"

definition year_of_day :: "int \<Rightarrow> int" where
  "year_of_day n =
     (let a = n div 146097; r = n mod 146097;
          b = min 3 (r div 36524); r1 = r - 36524 * b;
          c = r1 div 1461; r2 = r1 mod 1461;
          e = min 3 (r2 div 365)
      in 400 * a + 100 * b + 4 * c + e + 1)"

fun split_month :: "int list \<Rightarrow> int \<Rightarrow> int \<Rightarrow> int \<times> int" where
  "split_month [] m d = (m, d + 1)"
| "split_month (n # ns) m d = (if d < n then (m, d + 1) else split_month ns (m + 1) (d - n))"

definition civil_of_day :: "int \<Rightarrow> int \<times> int \<times> int" where
  "civil_of_day n =
     (let y = year_of_day n in (y, split_month (month_lens (leap y)) 1 (n - days_before_year y)))"

lemma days_before_year_parts:
  assumes "0 \<le> b" "b \<le> 3" "0 \<le> c" "c \<le> 24" "0 \<le> e" "e \<le> 3"
  shows "days_before_year (400 * a + 100 * b + 4 * c + e + 1)
           = 146097 * a + 36524 * b + 1461 * c + 365 * e"
proof -
  let ?p = "400 * a + 100 * b + 4 * c + e"
  have "?p div 4 = 100 * a + 25 * b + c"
    by (rule int_div_pos_eq [where r = e]) (use assms in auto)
  moreover have "?p div 100 = 4 * a + b"
    by (rule int_div_pos_eq [where r = "4 * c + e"]) (use assms in auto)
  moreover have "?p div 400 = a"
    by (rule int_div_pos_eq [where r = "100 * b + 4 * c + e"]) (use assms in auto)
  ultimately show ?thesis by (simp add: days_before_year_def)
qed

lemma div_bounds:
  fixes n k :: int
  shows "0 < k \<Longrightarrow> k * (n div k) \<le> n" "0 < k \<Longrightarrow> n < k * (n div k) + k"
  using mult_div_mod_eq [of k n] pos_mod_bound [of k n] pos_mod_sign [of k n] by linarith+

lemma div_pred_if:
  fixes y k :: int
  assumes k: "0 < k"
  shows "y div k = (y - 1) div k + (if y mod k = 0 then 1 else 0)"
proof -
  have r: "0 \<le> (y - 1) mod k" "(y - 1) mod k < k" using k by simp_all
  have y: "y = k * ((y - 1) div k) + ((y - 1) mod k + 1)"
    using mult_div_mod_eq [of k "y - 1"] by linarith
  show ?thesis
  proof (cases "(y - 1) mod k + 1 = k")
    case True
    then have "y = k * ((y - 1) div k + 1)" using y by (simp add: algebra_simps)
    then show ?thesis using k by (metis mod_mult_self1_is_0 nonzero_mult_div_cancel_left less_irrefl)
  next
    case False
    then have q: "0 \<le> (y - 1) mod k + 1" "(y - 1) mod k + 1 < k" using r by auto
    have "y div k = (y - 1) div k" using y q by (metis int_div_pos_eq)
    moreover have "y mod k = (y - 1) mod k + 1" using y q by (metis int_mod_pos_eq)
    ultimately show ?thesis using r by simp
  qed
qed

lemma mod_divides:
  fixes y a b :: int
  shows "a dvd b \<Longrightarrow> y mod b = 0 \<Longrightarrow> y mod a = 0"
  by (metis dvd_eq_mod_eq_0 dvd_trans)

lemma add_ifs:
  fixes y :: int
  shows "\<lbrakk>q4 = p4 + (if A then 1 else 0); q100 = p100 + (if B then 1 else 0);
    q400 = p400 + (if C then 1 else 0); C \<Longrightarrow> B; B \<Longrightarrow> A\<rbrakk> \<Longrightarrow>
    365 * y + q4 - q100 + q400
      = 365 * (y - 1) + p4 - p100 + p400 + (if A \<and> (\<not> B \<or> C) then 366 else 365)"
  by (cases A; cases B; cases C) simp_all

lemma days_before_year_Suc: "days_before_year (y + 1) = days_before_year y + (if leap y then 366 else 365)"
proof -
  have "days_before_year (y + 1) = 365 * y + y div 4 - y div 100 + y div 400"
    by (simp add: days_before_year_def)
  also have "\<dots> = 365 * (y - 1) + (y - 1) div 4 - (y - 1) div 100 + (y - 1) div 400
      + (if y mod 4 = 0 \<and> (y mod 100 \<noteq> 0 \<or> y mod 400 = 0) then 366 else 365)"
    by (rule add_ifs; (rule div_pred_if, simp | rule mod_divides [rotated], assumption, simp))
  finally show ?thesis by (simp only: days_before_year_def leap_def)
qed

lemma year_of_day_bounds:
  "days_before_year (year_of_day n) \<le> n" "n < days_before_year (year_of_day n + 1)"
proof -
  define a where "a = n div 146097"
  define r where "r = n mod 146097"
  define q where "q = r div 36524"
  define b where "b = min 3 q"
  define r1 where "r1 = r - 36524 * b"
  define c where "c = r1 div 1461"
  define r2 where "r2 = r1 mod 1461"
  define p where "p = r2 div 365"
  define e where "e = min 3 p"
  have r: "0 \<le> r" "r < 146097" by (simp_all add: r_def)
  have q: "36524 * q \<le> r" "r < 36524 * q + 36524" unfolding q_def by (rule div_bounds; simp)+
  have b: "0 \<le> b" "b \<le> 3" using r q by (auto simp: b_def)
  have r1: "0 \<le> r1" "r1 \<le> 36524" "b < 3 \<Longrightarrow> r1 < 36524"
    using r q by (auto simp: r1_def b_def min_def split: if_splits)
  have r2: "0 \<le> r2" "r2 < 1461" by (simp_all add: r2_def)
  have r1_eq: "r1 = 1461 * c + r2" by (simp add: c_def r2_def)
  have c: "0 \<le> c" "c \<le> 24" using r1 r2 r1_eq by auto
  have p: "365 * p \<le> r2" "r2 < 365 * p + 365" unfolding p_def by (rule div_bounds; simp)+
  have e: "0 \<le> e" "e \<le> 3" using r2 p by (auto simp: e_def)
  have n: "n = 146097 * a + 36524 * b + 1461 * c + r2"
    using r1_eq mult_div_mod_eq [of 146097 n] unfolding a_def r_def r1_def by linarith
  have y: "year_of_day n = 400 * a + 100 * b + 4 * c + e + 1"
    by (simp only: year_of_day_def Let_def a_def r_def q_def b_def r1_def c_def r2_def p_def e_def)
  have dby: "days_before_year (year_of_day n) = 146097 * a + 36524 * b + 1461 * c + 365 * e"
    unfolding y by (rule days_before_year_parts) (use b c e in auto)
  have lo: "365 * e \<le> r2" using p by (auto simp: e_def min_def split: if_splits)
  have hi: "r2 \<le> 365 * e + 365" "e < 3 \<Longrightarrow> r2 < 365 * e + 365"
    using r2 p by (auto simp: e_def min_def split: if_splits)
  show "days_before_year (year_of_day n) \<le> n" using dby n lo by simp
  show "n < days_before_year (year_of_day n + 1)"
  proof (cases "r2 < 365 * e + 365")
    case True
    then show ?thesis using dby n by (simp add: days_before_year_Suc)
  next
    case False
    then have "e = 3" using hi(2) e by force
    with False hi(1) have e3: "e = 3" "r2 = 1460" by auto
    have "c < 24 \<or> b = 3"
      using r1 r1_eq e3 b c by auto
    moreover have "year_of_day n = 4 * (100 * a + 25 * b + c + 1)"
      "year_of_day n = 100 * (4 * a + b) + 4 * (c + 1)" "c = 24 \<Longrightarrow> year_of_day n = 100 * (4 * a + b + 1)"
      "c = 24 \<Longrightarrow> b = 3 \<Longrightarrow> year_of_day n = 400 * (a + 1)"
      using e3 y by simp_all
    moreover have "year_of_day n mod 100 = 4 * (c + 1)" if "c < 24"
      by (rule int_mod_pos_eq [OF calculation(3)]) (use that c in auto)
    ultimately have "leap (year_of_day n)"
      unfolding leap_def using c by (metis add_pos_nonneg dvd_imp_mod_0 dvd_triv_left mult_eq_0_iff
          less_irrefl less_le zero_less_one zero_neq_numeral add.commute)
    then show ?thesis using dby n e3 by (simp add: days_before_year_Suc)
  qed
qed

lemma days_before_year_mono: "y \<le> y' \<Longrightarrow> days_before_year y \<le> days_before_year y'"
  by (induction y' rule: int_ge_induct) (auto simp: days_before_year_Suc)

lemma year_of_day_less_iff: "year_of_day n < y \<longleftrightarrow> n < days_before_year y"
proof
  assume "year_of_day n < y"
  then have "days_before_year (year_of_day n + 1) \<le> days_before_year y"
    by (intro days_before_year_mono) simp
  with year_of_day_bounds(2) [of n] show "n < days_before_year y" by linarith
next
  assume n: "n < days_before_year y"
  show "year_of_day n < y"
  proof (rule ccontr)
    assume "\<not> year_of_day n < y"
    then have "days_before_year y \<le> days_before_year (year_of_day n)"
      by (intro days_before_year_mono) simp
    with year_of_day_bounds(1) [of n] n show False by linarith
  qed
qed

lemma year_of_day_mono: "n \<le> n' \<Longrightarrow> year_of_day n \<le> year_of_day n'"
  using year_of_day_less_iff [of n' "year_of_day n"] year_of_day_bounds(1) [of n] by linarith

definition days_in :: "int \<Rightarrow> int \<Rightarrow> int" where
  "days_in m y = month_lens (leap y) ! nat (m - 1)"

lemma split_month_props:
  assumes "0 \<le> d" "d < sum_list ns" "split_month ns m d = (m', d')"
  shows "\<exists>i < length ns. m' = m + int i \<and> 1 \<le> d' \<and> d' \<le> ns ! i \<and> d = sum_list (take i ns) + d' - 1"
  using assms
proof (induction ns m d rule: split_month.induct)
  case (2 n ns m d)
  show ?case
  proof (cases "d < n")
    case True
    with 2 show ?thesis by auto
  next
    case False
    with 2 obtain i where "i < length ns" "m' = m + 1 + int i" "1 \<le> d'" "d' \<le> ns ! i"
      "d - n = sum_list (take i ns) + d' - 1" by auto
    then show ?thesis by (intro exI [of _ "Suc i"]) auto
  qed
qed simp

lemma month_lens_sum [simp]: "sum_list (month_lens l) = (if l then 366 else 365)"
  "length (month_lens l) = 12"
  by (simp_all add: month_lens_def)

lemma civil_of_day_props:
  assumes "civil_of_day n = (y, m, d)"
  shows "y = year_of_day n" "1 \<le> m" "m \<le> 12" "1 \<le> d" "d \<le> days_in m y" "day_of_civil y m d = n"
proof -
  show y: "y = year_of_day n" using assms by (auto simp: civil_of_day_def Let_def)
  have s: "split_month (month_lens (leap y)) 1 (n - days_before_year y) = (m, d)"
    using assms y by (auto simp: civil_of_day_def Let_def)
  have "0 \<le> n - days_before_year y" "n - days_before_year y < sum_list (month_lens (leap y))"
    using year_of_day_bounds [of n] unfolding y days_before_year_Suc by (auto split: if_splits)
  from split_month_props [OF this s] obtain i where
    i: "i < 12" "m = 1 + int i" "1 \<le> d" "d \<le> month_lens (leap y) ! i"
      "n - days_before_year y = sum_list (take i (month_lens (leap y))) + d - 1" by auto
  show "1 \<le> m" "m \<le> 12" "1 \<le> d" using i by auto
  show "d \<le> days_in m y" using i by (simp add: days_in_def)
  show "day_of_civil y m d = n" using i by (simp add: day_of_civil_def days_before_month_def)
qed

text \<open>Later days are later dates, in the order year, month, day.\<close>

lemma month_lens_nonneg: "x \<in> set (month_lens l) \<Longrightarrow> 0 \<le> x"
  by (auto simp: month_lens_def)

lemma days_before_month_less:
  assumes "1 \<le> m" "m < m'" "m' \<le> 12"
  shows "days_before_month (leap y) m + days_in m y \<le> days_before_month (leap y) m'"
proof -
  let ?l = "month_lens (leap y)" and ?i = "nat (m - 1)" and ?j = "nat (m' - 1)"
  have "?i < ?j" using assms by simp
  then obtain k where k: "?j = Suc ?i + k" by (metis add_Suc less_imp_Suc_add)
  then have "take ?j ?l = take (Suc ?i) ?l @ take k (drop (Suc ?i) ?l)" by (metis take_add)
  moreover have "take (Suc ?i) ?l = take ?i ?l @ [?l ! ?i]"
    by (rule take_Suc_conv_app_nth) (use assms in auto)
  moreover have "0 \<le> sum_list (take k (drop (Suc ?i) ?l))"
    by (rule sum_list_nonneg) (meson in_set_dropD in_set_takeD month_lens_nonneg)
  ultimately show ?thesis by (simp add: days_before_month_def days_in_def)
qed

lemma civil_of_day_less:
  assumes "n < n'" "civil_of_day n = (y, m, d)" "civil_of_day n' = (y', m', d')"
  shows "y < y' \<or> y = y' \<and> (m < m' \<or> m = m' \<and> d < d')"
proof -
  note p = civil_of_day_props [OF assms(2)] and p' = civil_of_day_props [OF assms(3)]
  have "y \<le> y'" using assms(1) p(1) p'(1) by (simp add: year_of_day_mono)
  moreover have "m \<le> m'" if "y = y'"
  proof (rule ccontr)
    assume "\<not> m \<le> m'"
    then have "days_before_month (leap y) m' + days_in m' y \<le> days_before_month (leap y) m"
      using p p' by (intro days_before_month_less) auto
    then have "n' < n" using p p' that by (auto simp: day_of_civil_def)
    with assms(1) show False by simp
  qed
  moreover have "d < d'" if "y = y'" "m = m'"
    using that assms(1) p(6) p'(6) by (auto simp: day_of_civil_def)
  ultimately show ?thesis by linarith
qed

section \<open>RFC 3339 text\<close>

text \<open>\<open>fixed w n\<close>: the last \<open>w\<close> decimal digits of \<open>n\<close>. \<open>append_int\<close> is the
  \<open>appendInt(b, x, width)\<close> of package \<open>time\<close>: at least \<open>w\<close> digits.\<close>

fun fixed :: "nat \<Rightarrow> int \<Rightarrow> string" where
  "fixed 0 n = []"
| "fixed (Suc w) n = fixed w (n div 10) @ [digit_char (n mod 10)]"

definition append_int :: "int \<Rightarrow> nat \<Rightarrow> string" where
  "append_int x w =
     (let n = \<bar>x\<bar>; ds = (if n < 10 ^ w then fixed w n else show_nat n)
      in if x < 0 then CHR ''-'' # ds else ds)"

text \<open>The date and the time of day of a whole second, and the fraction of a second with its
  trailing zeros dropped (nothing for a whole second).\<close>

definition stamp :: "int \<Rightarrow> string" where
  "stamp s =
     (case civil_of_day (s div 86400 + 719162) of (y, m, d) \<Rightarrow>
       append_int y 4 @ ''-'' @ append_int m 2 @ ''-'' @ append_int d 2 @ ''T'' @
       append_int (s mod 86400 div 3600) 2 @ '':'' @
       append_int (s mod 3600 div 60) 2 @ '':'' @
       append_int (s mod 60) 2)"

definition fraction :: "int \<Rightarrow> string" where
  "fraction ns = (if ns = 0 then [] else CHR ''.'' # trim_right_byte (CHR ''0'') (fixed 9 ns))"

definition format_rfc3339nano :: "instant \<Rightarrow> string" where
  "format_rfc3339nano t = stamp (t div second) @ fraction (t mod second) @ ''Z''"

text \<open>\<open>time.Parse(time.RFC3339Nano, s)\<close>: the shape, the ranges, then the instant.\<close>

definition parse_uint :: "string \<Rightarrow> int \<Rightarrow> int \<Rightarrow> int option" where
  "parse_uint s lo hi =
     (if list_all is_digit s \<and> lo \<le> digits_val s \<and> digits_val s \<le> hi
      then Some (digits_val s) else None)"

definition parse_fraction :: "string \<Rightarrow> int \<times> string" where
  "parse_fraction s =
     (if 2 \<le> length s \<and> hd s = CHR ''.'' \<and> is_digit (s ! 1)
      then let ds = takeWhile is_digit (tl s)
           in (digits_val (take 9 (ds @ replicate 9 (CHR ''0''))), drop (length ds) (tl s))
      else (0, s))"

definition parse_zone :: "string \<Rightarrow> int option" where
  "parse_zone z =
     (if z = ''Z'' then Some 0
      else if length z = 6 \<and> (hd z = CHR ''-'' \<or> hd z = CHR ''+'') \<and> z ! 3 = CHR '':'' then
        (case (parse_uint (take 2 (drop 1 z)) 0 23, parse_uint (take 2 (drop 4 z)) 0 59) of
           (Some hr, Some mm) \<Rightarrow>
             Some (if hd z = CHR ''-'' then - ((hr * 60 + mm) * 60) else (hr * 60 + mm) * 60)
         | _ \<Rightarrow> None)
      else None)"

definition unix_seconds :: "int \<Rightarrow> int \<Rightarrow> int \<Rightarrow> int \<Rightarrow> int \<Rightarrow> int \<Rightarrow> int" where
  "unix_seconds y m d h mi se = (day_of_civil y m d - 719162) * 86400 + h * 3600 + mi * 60 + se"

definition parse_stamp :: "string \<Rightarrow> int option" where
  "parse_stamp s =
     (if s ! 4 = CHR ''-'' \<and> s ! 7 = CHR ''-'' \<and> s ! 10 = CHR ''T'' \<and> s ! 13 = CHR '':''
         \<and> s ! 16 = CHR '':''
      then Option.bind (parse_uint (take 4 s) 0 9999) (\<lambda>y.
           Option.bind (parse_uint (take 2 (drop 5 s)) 1 12) (\<lambda>m.
           Option.bind (parse_uint (take 2 (drop 8 s)) 1 (days_in m y)) (\<lambda>d.
           Option.bind (parse_uint (take 2 (drop 11 s)) 0 23) (\<lambda>h.
           Option.bind (parse_uint (take 2 (drop 14 s)) 0 59) (\<lambda>mi.
           Option.bind (parse_uint (take 2 (drop 17 s)) 0 59) (\<lambda>se.
             Some (unix_seconds y m d h mi se)))))))
      else None)"

definition parse_rfc3339nano :: "string \<Rightarrow> instant option" where
  "parse_rfc3339nano s =
     (if length s < 19 then None
      else Option.bind (parse_stamp (take 19 s)) (\<lambda>sec.
           case parse_fraction (drop 19 s) of (ns, z) \<Rightarrow>
             map_option (\<lambda>off. (sec - off) * second + ns) (parse_zone z)))"

text \<open>The instants whose year has the four digits the text has room for.\<close>

definition rfc3339_ok :: "instant \<Rightarrow> bool" where
  "rfc3339_ok t \<longleftrightarrow> - 62167219200 * second \<le> t \<and> t < 253402300800 * second"

lemma length_fixed [simp]: "length (fixed w n) = w"
  by (induction w arbitrary: n) auto

lemma fixed_digits [simp]: "list_all is_digit (fixed w n)"
  by (induction w arbitrary: n) auto

lemma digits_val_fixed [simp]: "digits_val (fixed w n) = n mod 10 ^ w"
proof (induction w arbitrary: n)
  case (Suc w)
  have "n mod (10 * 10 ^ w) = 10 * (n div 10 mod 10 ^ w) + n mod 10"
    by (rule zmod_zmult2_eq) simp
  with Suc show ?case by simp
qed simp

lemma append_int_small: "0 \<le> x \<Longrightarrow> x < 10 ^ w \<Longrightarrow> append_int x w = fixed w x"
  by (simp add: append_int_def)

lemma parse_uint_fixed [simp]:
  "0 \<le> n \<Longrightarrow> n < 10 ^ w \<Longrightarrow> lo \<le> n \<Longrightarrow> n \<le> hi \<Longrightarrow> parse_uint (fixed w n) lo hi = Some n"
  by (simp add: parse_uint_def)

text \<open>The shape of a stamp whose year has four digits.\<close>

lemma stamp_form:
  assumes "- 62167219200 \<le> s" "s < 253402300800"
  obtains y m d h mi se where
    "civil_of_day (s div 86400 + 719162) = (y, m, d)"
    "h = s mod 86400 div 3600" "mi = s mod 3600 div 60" "se = s mod 60"
    "0 \<le> y" "y \<le> 9999" "1 \<le> m" "m \<le> 12" "1 \<le> d" "d \<le> days_in m y" "d \<le> 31"
    "0 \<le> h" "h \<le> 23" "0 \<le> mi" "mi \<le> 59" "0 \<le> se" "se \<le> 59"
    "s = unix_seconds y m d h mi se"
    "stamp s = fixed 4 y @ ''-'' @ fixed 2 m @ ''-'' @ fixed 2 d @ ''T'' @
       fixed 2 h @ '':'' @ fixed 2 mi @ '':'' @ fixed 2 se"
proof -
  obtain y m d where c: "civil_of_day (s div 86400 + 719162) = (y, m, d)"
    by (metis prod_cases3)
  note p = civil_of_day_props [OF c]
  define h where "h = s mod 86400 div 3600"
  define mi where "mi = s mod 3600 div 60"
  define se where "se = s mod 60"
  have "- 719528 \<le> s div 86400" "s div 86400 < 2932897" using assms by auto
  moreover have "days_before_year 10000 = 3652059" "days_before_year 0 = - 366"
    by (simp_all add: days_before_year_def)
  ultimately have y: "0 \<le> y" "y \<le> 9999"
    using year_of_day_less_iff [of "s div 86400 + 719162" 10000]
      year_of_day_less_iff [of "s div 86400 + 719162" 0] p(1) by linarith+
  have "set (month_lens l) \<subseteq> {..31}" for l by (auto simp: month_lens_def)
  moreover have "days_in m y \<in> set (month_lens (leap y))"
    unfolding days_in_def by (rule nth_mem) (use p in auto)
  ultimately have d: "d \<le> 31" using p(5) by fastforce
  have r: "0 \<le> h" "h \<le> 23" "0 \<le> mi" "mi \<le> 59" "0 \<le> se" "se \<le> 59"
    by (auto simp: h_def mi_def se_def pos_imp_zdiv_nonneg_iff)
  have "s mod 86400 = h * 3600 + s mod 3600"
    using mult_div_mod_eq [of 3600 "s mod 86400"] by (simp add: h_def mod_mod_cancel)
  moreover have "s mod 3600 = mi * 60 + se"
    using mult_div_mod_eq [of 60 "s mod 3600"] by (simp add: mi_def se_def mod_mod_cancel)
  ultimately have u: "s = unix_seconds y m d h mi se"
    using mult_div_mod_eq [of 86400 s] p(6) by (simp add: unix_seconds_def)
  have f: "stamp s = fixed 4 y @ ''-'' @ fixed 2 m @ ''-'' @ fixed 2 d @ ''T'' @
       fixed 2 h @ '':'' @ fixed 2 mi @ '':'' @ fixed 2 se"
    using c y d p r by (simp add: stamp_def append_int_small flip: h_def mi_def se_def)
  show thesis by (rule that [OF c h_def mi_def se_def y p(2-5) d r u f])
qed

lemma length_stamp:
  assumes "- 62167219200 \<le> s" "s < 253402300800"
  shows "length (stamp s) = 19"
proof -
  from assms obtain y m d h mi se where
    "stamp s = fixed 4 y @ ''-'' @ fixed 2 m @ ''-'' @ fixed 2 d @ ''T'' @
       fixed 2 h @ '':'' @ fixed 2 mi @ '':'' @ fixed 2 se" by (rule stamp_form)
  then show ?thesis by simp
qed

lemma parse_stamp_stamp:
  assumes "- 62167219200 \<le> s" "s < 253402300800"
  shows "parse_stamp (stamp s) = Some s"
proof -
  from assms obtain y m d h mi se where r: "0 \<le> y" "y \<le> 9999" "1 \<le> m" "m \<le> 12" "1 \<le> d"
    "d \<le> days_in m y" "d \<le> 31" "0 \<le> h" "h \<le> 23" "0 \<le> mi" "mi \<le> 59" "0 \<le> se" "se \<le> 59"
    and u: "s = unix_seconds y m d h mi se"
    and f: "stamp s = fixed 4 y @ ''-'' @ fixed 2 m @ ''-'' @ fixed 2 d @ ''T'' @
       fixed 2 h @ '':'' @ fixed 2 mi @ '':'' @ fixed 2 se"
    by (rule stamp_form)
  show ?thesis unfolding f parse_stamp_def using r by (simp add: nth_append flip: u)
qed

lemma fixed_pos: "0 < n \<Longrightarrow> n < 10 ^ w \<Longrightarrow> \<exists>x \<in> set (fixed w n). x \<noteq> CHR ''0''"
proof (induction w arbitrary: n)
  case (Suc w)
  show ?case
  proof (cases "n div 10 = 0")
    case True
    then have "n mod 10 = n" "n < 10" using Suc.prems by auto
    with Suc.prems have "digit_val (digit_char (n mod 10)) \<noteq> digit_val (CHR ''0'')" by (simp add: digit_val_def [of "CHR ''0''"])
    then have "digit_char (n mod 10) \<noteq> CHR ''0''" by metis
    then show ?thesis by simp
  next
    case False
    with Suc have "\<exists>x \<in> set (fixed w (n div 10)). x \<noteq> CHR ''0''"
      by (intro Suc.IH) auto
    then show ?thesis by auto
  qed
qed simp

lemma parse_fraction_fraction:
  assumes "0 \<le> ns" "ns < second"
  shows "parse_fraction (fraction ns @ ''Z'') = (ns, ''Z'')"
proof (cases "ns = 0")
  case True
  then show ?thesis by (simp add: fraction_def parse_fraction_def)
next
  case False
  define D where "D = trim_right_byte (CHR ''0'') (fixed 9 ns)"
  have ne: "D \<noteq> []"
    using fixed_pos [of ns 9] assms False by (auto simp: D_def trim_right_byte_Nil_iff second_def)
  have dig: "list_all is_digit D"
    using fixed_digits [of 9 ns] set_trim_right_byte [of "CHR ''0''" "fixed 9 ns"]
    unfolding D_def list_all_iff by blast
  have pad: "D @ replicate (9 - length D) (CHR ''0'') = fixed 9 ns"
    using trim_right_byte_pad [of "CHR ''0''" "fixed 9 ns"] by (simp add: D_def)
  have "length D + (9 - length D) = 9"
    using pad by (metis length_append length_fixed length_replicate)
  then have len: "length D \<le> 9" by linarith
  have "take 9 (D @ replicate 9 (CHR ''0'')) = D @ replicate (9 - length D) (CHR ''0'')"
    using len by simp
  then have "digits_val (take 9 (D @ replicate 9 (CHR ''0''))) = ns"
    using pad assms by (simp add: second_def)
  moreover have "takeWhile is_digit (D @ ''Z'') = D"
    using dig by (simp add: takeWhile_append2 list_all_iff is_digit_def)
  moreover have "is_digit (D ! 0)" using dig ne by (simp add: list_all_iff)
  ultimately show ?thesis using False ne
    by (cases D) (auto simp: fraction_def parse_fraction_def Let_def simp flip: D_def)
qed

lemma rfc3339_ok_seconds: "rfc3339_ok t \<Longrightarrow> - 62167219200 \<le> t div second \<and> t div second < 253402300800"
  by (auto simp: rfc3339_ok_def second_def)

text \<open>Formatting a time and parsing the text gives the time back, to the nanosecond.\<close>

lemma parse_format_time: "rfc3339_ok t \<Longrightarrow> parse_rfc3339nano (format_rfc3339nano t) = Some t"
proof -
  assume "rfc3339_ok t"
  then have s: "- 62167219200 \<le> t div second" "t div second < 253402300800"
    by (auto dest: rfc3339_ok_seconds)
  have "0 \<le> t mod second" "t mod second < second" by (simp_all add: second_def)
  then show ?thesis
    using length_stamp [OF s] parse_stamp_stamp [OF s] mult_div_mod_eq [of second t]
    by (simp add: parse_rfc3339nano_def format_rfc3339nano_def parse_fraction_fraction
        parse_zone_def mult.commute)
qed

section \<open>The order of the text\<close>

text \<open>The order of byte strings (\<open>memcmp\<close>, then length), in which a database compares text
  with its binary collation.\<close>

fun bytes_less :: "string \<Rightarrow> string \<Rightarrow> bool" where
  "bytes_less s [] = False"
| "bytes_less [] (y # t) = True"
| "bytes_less (x # s) (y # t) =
     ((of_char x :: nat) < of_char y \<or> x = y \<and> bytes_less s t)"

definition bytes_le :: "string \<Rightarrow> string \<Rightarrow> bool" where
  "bytes_le s t \<longleftrightarrow> \<not> bytes_less t s"

lemma bytes_less_same_prefix [simp]: "bytes_less (p @ u) (p @ v) = bytes_less u v"
  by (induction p) auto

lemma bytes_less_irrefl [simp]: "\<not> bytes_less s s"
  by (induction s) auto

lemma bytes_le_refl [simp]: "bytes_le s s"
  by (simp add: bytes_le_def)

lemma bytes_less_asym: "bytes_less s t \<Longrightarrow> \<not> bytes_less t s"
  by (induction s t rule: bytes_less.induct) auto

lemma bytes_less_append: "length a = length b \<Longrightarrow> bytes_less a b \<Longrightarrow> bytes_less (a @ u) (b @ v)"
  by (induction a b rule: bytes_less.induct) auto

lemma fixed_less: "0 \<le> a \<Longrightarrow> a < b \<Longrightarrow> b < 10 ^ w \<Longrightarrow> bytes_less (fixed w a) (fixed w b)"
proof (induction w arbitrary: a b)
  case (Suc w)
  show ?case
  proof (cases "a div 10 = b div 10")
    case True
    then have "a mod 10 < b mod 10"
      using Suc.prems mult_div_mod_eq [of 10 a] mult_div_mod_eq [of 10 b] by linarith
    then show ?thesis using True by simp
  next
    case False
    then have "a div 10 < b div 10" using Suc.prems by (metis order_less_le zdiv_mono1 less_imp_le zero_less_numeral)
    then have "bytes_less (fixed w (a div 10)) (fixed w (b div 10))"
      using Suc.prems by (intro Suc.IH) auto
    then show ?thesis by (simp add: bytes_less_append)
  qed
qed simp

text \<open>One fixed-width field of a stamp decides, or the rest does.\<close>

lemma field_less:
  assumes "0 \<le> a" "b < 10 ^ w" "a < b \<or> a = b \<and> bytes_less u v"
  shows "bytes_less (fixed w a @ u) (fixed w b @ v)"
  using assms(3)
proof (elim disjE conjE)
  assume "a < b"
  then show ?thesis using assms(1,2) by (intro bytes_less_append fixed_less) simp_all
qed simp

lemma stamp_less:
  assumes "- 62167219200 \<le> s" "s < s'" "s' < 253402300800"
  shows "bytes_less (stamp s) (stamp s')"
proof -
  from assms have "- 62167219200 \<le> s" "s < 253402300800" by simp_all
  then obtain y m d h mi se where c: "civil_of_day (s div 86400 + 719162) = (y, m, d)"
      "h = s mod 86400 div 3600" "mi = s mod 3600 div 60" "se = s mod 60"
    and r: "0 \<le> y" "y \<le> 9999" "1 \<le> m" "m \<le> 12" "1 \<le> d" "d \<le> days_in m y" "d \<le> 31"
      "0 \<le> h" "h \<le> 23" "0 \<le> mi" "mi \<le> 59" "0 \<le> se" "se \<le> 59"
    and u: "s = unix_seconds y m d h mi se"
    and f: "stamp s = fixed 4 y @ ''-'' @ fixed 2 m @ ''-'' @ fixed 2 d @ ''T'' @
       fixed 2 h @ '':'' @ fixed 2 mi @ '':'' @ fixed 2 se"
    by (rule stamp_form)
  from assms have "- 62167219200 \<le> s'" "s' < 253402300800" by simp_all
  then obtain y' m' d' h' mi' se' where c': "civil_of_day (s' div 86400 + 719162) = (y', m', d')"
      "h' = s' mod 86400 div 3600" "mi' = s' mod 3600 div 60" "se' = s' mod 60"
    and r': "0 \<le> y'" "y' \<le> 9999" "1 \<le> m'" "m' \<le> 12" "1 \<le> d'" "d' \<le> days_in m' y'" "d' \<le> 31"
      "0 \<le> h'" "h' \<le> 23" "0 \<le> mi'" "mi' \<le> 59" "0 \<le> se'" "se' \<le> 59"
    and u': "s' = unix_seconds y' m' d' h' mi' se'"
    and f': "stamp s' = fixed 4 y' @ ''-'' @ fixed 2 m' @ ''-'' @ fixed 2 d' @ ''T'' @
       fixed 2 h' @ '':'' @ fixed 2 mi' @ '':'' @ fixed 2 se'"
    by (rule stamp_form)
  have date: "y < y' \<or> y = y' \<and> (m < m' \<or> m = m' \<and> (d < d' \<or>
      d = d' \<and> h * 3600 + mi * 60 + se < h' * 3600 + mi' * 60 + se'))"
  proof (cases "s div 86400 = s' div 86400")
    case True
    then show ?thesis using c(1) c'(1) u u' assms(2) by (auto simp: unix_seconds_def)
  next
    case False
    with assms(2) have "s div 86400 < s' div 86400"
      by (metis order_less_le zdiv_mono1 less_imp_le zero_less_numeral)
    then show ?thesis using civil_of_day_less [OF _ c(1) c'(1)] by auto
  qed
  have time: "h * 3600 + mi * 60 + se < h' * 3600 + mi' * 60 + se' \<Longrightarrow>
      h < h' \<or> h = h' \<and> (mi < mi' \<or> mi = mi' \<and> se < se')"
    using r r' by linarith
  have small: "\<And>x. x \<le> 9999 \<Longrightarrow> x < (10 :: int) ^ 4" "\<And>x. x \<le> 59 \<Longrightarrow> x < (10 :: int) ^ 2" by auto
  show ?thesis
    unfolding f f'
    by (intro field_less small; (use r r' in simp; fail)?)
      (use date time r r' in \<open>auto intro!: field_less fixed_less\<close>)
qed

text \<open>
  Times in different seconds are ordered as their texts are. Within one second the text of
  the whole second comes last (its \<open>Z\<close> is above the point and the digits), and a fraction
  whose digits continue another's comes before it.
\<close>

lemma format_less_seconds:
  assumes "rfc3339_ok t" "rfc3339_ok t'" "t div second < t' div second"
  shows "bytes_less (format_rfc3339nano t) (format_rfc3339nano t')"
  unfolding format_rfc3339nano_def
  using rfc3339_ok_seconds [OF assms(1)] rfc3339_ok_seconds [OF assms(2)] assms(3)
  by (intro bytes_less_append stamp_less) (simp_all add: length_stamp)

lemma format_le_seconds:
  assumes "rfc3339_ok t" "rfc3339_ok t'" "bytes_le (format_rfc3339nano t) (format_rfc3339nano t')"
  shows "t div second \<le> t' div second"
  using format_less_seconds [OF assms(2,1)] assms(3) by (auto simp: bytes_le_def not_le [symmetric])

lemma format_le_if_seconds:
  assumes "rfc3339_ok t" "rfc3339_ok t'" "t div second < t' div second"
  shows "bytes_le (format_rfc3339nano t) (format_rfc3339nano t')"
  using bytes_less_asym [OF format_less_seconds [OF assms]] by (simp add: bytes_le_def)

end
