(* ===== verification/Rules.thy ===== *)
theory Rules
  imports GoUrl GoTime
begin

text \<open>
  The data of \<open>internal/shortener/service.go\<close>: the rule behind a short link, the input
  of its creation, the errors of the service, and the pure functions on them (validation of
  targets, aliases and codes, the building of a rule, expiry, the short URL).
\<close>

record rule =
  r_Code :: string
  r_URL :: string
  r_CreatedAt :: instant
  r_ExpiresAt :: "instant option"
  r_MaxUsages :: "int option"
  r_UsedCount :: int
  r_LastUsedAt :: "instant option"

record create_input =
  in_URL :: string
  in_Alias :: string
  in_TTLSeconds :: int
  in_MaxUsages :: int

text \<open>
  The errors a service call returns. \<open>OtherError\<close> is every error that is none of the
  exported ones (the wrapped errors of a driver or of the random source), with its text.
\<close>

datatype svc_error =
    ErrNotFound
  | ErrAlreadyExists
  | ValidationError string string
  | ExpiredError rule string
  | OtherError string

text \<open>\<open>(*ValidationError).Error\<close> and \<open>(*ExpiredError).Error\<close>.\<close>

fun error_text :: "svc_error \<Rightarrow> string" where
  "error_text ErrNotFound = ''rule not found''"
| "error_text ErrAlreadyExists = ''rule already exists''"
| "error_text (ValidationError f m) = (if f = [] then m else f @ '': '' @ m)"
| "error_text (ExpiredError r reason) = ''rule expired because '' @ reason"
| "error_text (OtherError m) = m"

section \<open>Expiry\<close>

definition Expired :: "rule \<Rightarrow> instant \<Rightarrow> bool \<times> string" where
  "Expired r now =
     (if (case r_ExpiresAt r of Some e \<Rightarrow> \<not> now < e | None \<Rightarrow> False) then (True, ''ttl'')
      else if (case r_MaxUsages r of Some m \<Rightarrow> m \<le> r_UsedCount r | None \<Rightarrow> False)
        then (True, ''max_usages'')
      else (False, []))"

text \<open>The rule after one more use: what \<open>ResolveRule\<close> of a store returns.\<close>

definition used :: "rule \<Rightarrow> instant \<Rightarrow> rule" where
  "used r now = r\<lparr>r_UsedCount := wrap64 (r_UsedCount r + 1), r_LastUsedAt := Some now\<rparr>"

section \<open>Validation\<close>

text \<open>\<open>aliasPattern\<close>, the regular expression \<open>^[A-Za-z0-9]{4,32}$\<close>.\<close>

definition alias_pattern :: "string \<Rightarrow> bool" where
  "alias_pattern s \<longleftrightarrow> list_all is_alnum s \<and> 4 \<le> length s \<and> length s \<le> 32"

definition normalizeAlias :: "string \<Rightarrow> svc_error + string" where
  "normalizeAlias raw =
     (let alias = trim_space raw in
      if alias = [] then Inr []
      else if \<not> alias_pattern alias
        then Inl (ValidationError ''alias'' ''must match ^[A-Za-z0-9]{4,32}$'')
      else Inr alias)"

definition validateCode :: "string \<Rightarrow> svc_error + string" where
  "validateCode raw =
     (let code = trim_space raw in
      if code = [] then Inl (ValidationError ''code'' ''is required'')
      else if \<not> alias_pattern code
        then Inl (ValidationError ''code'' ''must match ^[A-Za-z0-9]{4,32}$'')
      else Inr code)"

definition validatePublicTarget :: "url \<Rightarrow> svc_error + unit" where
  "validatePublicTarget target =
     (let h = trim_space (to_lower (hostname target)) in
      if h = [] then Inl (ValidationError ''url'' ''must include a hostname'')
      else if h = ''localhost'' \<or> has_suffix h ''.localhost'' \<or> has_suffix h ''.local''
        then Inl (ValidationError ''url'' ''private and local targets are not allowed'')
      else
        (case parse_ip h of
           None \<Rightarrow> Inr ()
         | Some ip \<Rightarrow>
             if is_loopback ip \<or> is_private ip \<or> is_link_local_multicast ip
                \<or> is_link_local_unicast ip \<or> is_multicast ip \<or> is_unspecified ip
             then Inl (ValidationError ''url'' ''private and local targets are not allowed'')
             else Inr ()))"

definition validateTargetURL :: "string \<Rightarrow> bool \<Rightarrow> svc_error + url" where
  "validateTargetURL raw0 rejectPrivateTargets =
     (let raw = trim_space raw0 in
      if raw = [] then Inl (ValidationError ''url'' ''is required'')
      else
        (case parse_url raw of
           None \<Rightarrow> Inl (ValidationError ''url'' ''must be a valid absolute URL'')
         | Some parsed \<Rightarrow>
             if u_Scheme parsed = [] \<or> u_Host parsed = []
             then Inl (ValidationError ''url'' ''must be a valid absolute URL'')
             else if u_Scheme parsed = ''http'' \<or> u_Scheme parsed = ''https''
             then (if rejectPrivateTargets
                   then (case validatePublicTarget parsed of Inl e \<Rightarrow> Inl e | Inr _ \<Rightarrow> Inr parsed)
                   else Inr parsed)
             else Inl (ValidationError ''url'' ''only http and https URLs are supported'')))"

section \<open>Building a rule\<close>

text \<open>\<open>now.Add(time.Duration(ttl) * time.Second)\<close>: the product is an \<open>int64\<close> and wraps.\<close>

definition ttl_expiry :: "int \<Rightarrow> instant \<Rightarrow> instant" where
  "ttl_expiry ttl now = now + wrap64 (ttl * second)"

definition ruleFromInput :: "bool \<Rightarrow> create_input \<Rightarrow> instant \<Rightarrow> svc_error + rule" where
  "ruleFromInput reject input now =
     (case validateTargetURL (in_URL input) reject of
        Inl e \<Rightarrow> Inl e
      | Inr target \<Rightarrow>
          (case normalizeAlias (in_Alias input) of
             Inl e \<Rightarrow> Inl e
           | Inr alias \<Rightarrow>
               if in_TTLSeconds input < 0
               then Inl (ValidationError ''ttl_seconds'' ''must be greater than or equal to 0'')
               else if in_MaxUsages input < 0
               then Inl (ValidationError ''max_usages'' ''must be greater than or equal to 0'')
               else Inr \<lparr>r_Code = alias, r_URL = url_string target, r_CreatedAt = now,
                 r_ExpiresAt = (if 0 < in_TTLSeconds input
                    then Some (ttl_expiry (in_TTLSeconds input) now) else None),
                 r_MaxUsages = (if 0 < in_MaxUsages input then Some (in_MaxUsages input) else None),
                 r_UsedCount = 0, r_LastUsedAt = None\<rparr>))"

definition BuildShortURL :: "string \<Rightarrow> string \<Rightarrow> string" where
  "BuildShortURL baseURL code =
     (let base = trim_right_byte (CHR ''/'') (trim_space baseURL) in
      if base = [] then ''/r/'' @ code else base @ ''/r/'' @ code)"

section \<open>Facts\<close>

lemma used_simps [simp, rule_upd]:
  "r_Code (used r now) = r_Code r" "r_URL (used r now) = r_URL r"
  "r_CreatedAt (used r now) = r_CreatedAt r" "r_ExpiresAt (used r now) = r_ExpiresAt r"
  "r_MaxUsages (used r now) = r_MaxUsages r"
  "r_UsedCount (used r now) = wrap64 (r_UsedCount r + 1)"
  "r_LastUsedAt (used r now) = Some now"
  by (simp_all add: used_def)

lemma Expired_iff:
  "fst (Expired r now) \<longleftrightarrow>
     (\<exists>e. r_ExpiresAt r = Some e \<and> e \<le> now) \<or> (\<exists>m. r_MaxUsages r = Some m \<and> m \<le> r_UsedCount r)"
  by (auto simp: Expired_def split: option.splits)

text \<open>Time does not make an expired rule valid again, and more uses do not either.\<close>

lemma Expired_mono: "fst (Expired r now) \<Longrightarrow> now \<le> now' \<Longrightarrow> fst (Expired r now')"
  by (auto simp: Expired_iff)

lemma alias_pattern_trim: "alias_pattern s \<Longrightarrow> trim_space s = s"
  by (simp add: alias_pattern_def trim_space_alnum)

lemma alias_pattern_nonempty: "alias_pattern s \<Longrightarrow> s \<noteq> []"
  by (auto simp: alias_pattern_def)

lemma validateCode_Inr: "validateCode raw = Inr c \<longleftrightarrow> c = trim_space raw \<and> alias_pattern c"
  by (auto simp: validateCode_def Let_def alias_pattern_nonempty)

lemma validateCode_alias: "alias_pattern c \<Longrightarrow> validateCode c = Inr c"
  by (simp add: validateCode_Inr alias_pattern_trim)

lemma validateCode_Inl: "validateCode raw = Inl e \<Longrightarrow> \<exists>m. e = ValidationError ''code'' m"
  by (auto simp: validateCode_def Let_def split: if_splits)

lemma normalizeAlias_Inr:
  "normalizeAlias raw = Inr a \<longleftrightarrow> a = trim_space raw \<and> (a = [] \<or> alias_pattern a)"
  by (auto simp: normalizeAlias_def Let_def split: if_splits)

lemma normalizeAlias_Inl: "normalizeAlias raw = Inl e \<Longrightarrow> \<exists>m. e = ValidationError ''alias'' m"
  by (auto simp: normalizeAlias_def Let_def split: if_splits)

lemma validatePublicTarget_Inl:
  "validatePublicTarget u = Inl e \<Longrightarrow> \<exists>m. e = ValidationError ''url'' m"
  by (auto simp: validatePublicTarget_def Let_def split: if_splits option.splits)

lemma validateTargetURL_Inl:
  "validateTargetURL raw rej = Inl e \<Longrightarrow> \<exists>m. e = ValidationError ''url'' m"
  by (auto simp: validateTargetURL_def Let_def dest: validatePublicTarget_Inl
      split: if_splits option.splits sum.splits)

lemma validateTargetURL_Inr:
  assumes "validateTargetURL raw rej = Inr u"
  shows "parse_url (trim_space raw) = Some u" "u_Host u \<noteq> []"
    "u_Scheme u = ''http'' \<or> u_Scheme u = ''https''" "rej \<Longrightarrow> validatePublicTarget u = Inr ()"
  using assms
  by (auto simp: validateTargetURL_def Let_def split: if_splits option.splits sum.splits)

text \<open>A URL that passes validation prints as an \<open>http\<close> or \<open>https\<close> URL with no control byte.\<close>

lemma validateTargetURL_string:
  assumes "validateTargetURL raw rej = Inr u"
  shows "has_prefix (url_string u) ''http://'' \<or> has_prefix (url_string u) ''https://''"
    "clean (url_string u)"
proof -
  note v = validateTargetURL_Inr [OF assms]
  have "has_prefix (url_string u) (u_Scheme u @ ''://'')"
    by (rule url_string_prefix) (use v parse_url_clean [OF v(1)] in auto)
  then show "has_prefix (url_string u) ''http://'' \<or> has_prefix (url_string u) ''https://''"
    using v(3) by auto
  show "clean (url_string u)" using parse_url_clean [OF v(1)] by (simp add: url_string_clean)
qed

lemma ruleFromInput_Inl:
  "ruleFromInput rej input now = Inl e \<Longrightarrow> \<exists>f m. e = ValidationError f m"
  by (auto simp: ruleFromInput_def dest: validateTargetURL_Inl normalizeAlias_Inl
      split: sum.splits if_splits)

lemma ruleFromInput_Inr:
  assumes "ruleFromInput rej input now = Inr r"
  shows "\<exists>u. validateTargetURL (in_URL input) rej = Inr u \<and> r_URL r = url_string u"
    "r_Code r = trim_space (in_Alias input)" "r_Code r = [] \<or> alias_pattern (r_Code r)"
    "r_CreatedAt r = now" "r_UsedCount r = 0" "r_LastUsedAt r = None"
    "0 \<le> in_TTLSeconds input" "0 \<le> in_MaxUsages input"
    "r_ExpiresAt r = (if in_TTLSeconds input = 0 then None
       else Some (ttl_expiry (in_TTLSeconds input) now))"
    "r_MaxUsages r = (if in_MaxUsages input = 0 then None else Some (in_MaxUsages input))"
  using assms
  by (auto simp: ruleFromInput_def normalizeAlias_Inr split: sum.splits if_splits)

lemma ttl_expiry_exact: "0 \<le> ttl \<Longrightarrow> ttl \<le> 9223372036 \<Longrightarrow> ttl_expiry ttl now = now + ttl * second"
  by (simp add: ttl_expiry_def in_int64_def second_def)

end
