(* ===== verification/Store.thy ===== *)
theory Store
  imports Rules
begin

text \<open>
  The interface \<open>Store\<close> of \<open>internal/shortener/service.go\<close> and its contract. The
  operations are a record, as the interface value is a table of methods; the contract is a
  locale over an abstraction of the store's state to a map from codes to rules. A store may
  fail at any call (\<open>quiet\<close> says that it will not); it may keep less than it is given
  (\<open>keeps\<close>: PostgreSQL keeps microseconds), and \<open>sweeps\<close> is the test its bulk deletion
  applies.
\<close>

record 's store_ops =
  op_Ping :: "('s, svc_error, unit) call"
  op_Close :: "('s, svc_error, unit) call"
  op_CreateRule :: "rule \<Rightarrow> ('s, svc_error, rule) call"
  op_GetRule :: "string \<Rightarrow> ('s, svc_error, rule) call"
  op_DeleteRule :: "string \<Rightarrow> ('s, svc_error, unit) call"
  op_DeleteExpired :: "instant \<Rightarrow> ('s, svc_error, int) call"
  op_ResolveRule :: "string \<Rightarrow> instant \<Rightarrow> ('s, svc_error, rule) call"

type_synonym table = "string \<rightharpoonup> rule"

text \<open>What a bulk deletion with the test \<open>sw\<close> leaves.\<close>

definition swept :: "(rule \<Rightarrow> bool) \<Rightarrow> table \<Rightarrow> table" where
  "swept sw m = (\<lambda>c. case m c of None \<Rightarrow> None | Some r \<Rightarrow> if sw r then None else Some r)"

lemma swept_Some_iff: "swept sw m c = Some r \<longleftrightarrow> m c = Some r \<and> \<not> sw r"
  by (auto simp: swept_def split: option.splits)

lemma swept_le: "swept sw m c = Some r \<Longrightarrow> m c = Some r"
  by (simp add: swept_Some_iff)

text \<open>
  The counters of a table have room for one more use: the use count of a rule is an
  \<open>int64\<close>, and no statement of the contract is about a count that overflows.
\<close>

definition roomy :: "int \<Rightarrow> table \<Rightarrow> bool" where
  "roomy k m \<longleftrightarrow> (\<forall>c r. m c = Some r \<longrightarrow> 0 \<le> r_UsedCount r \<and> r_UsedCount r + k \<le> 9223372036854775807)"

lemma roomy_mono: "roomy k m \<Longrightarrow> j \<le> k \<Longrightarrow> roomy j m"
  unfolding roomy_def by fastforce

lemma roomy_room: "roomy k m \<Longrightarrow> 0 < k \<Longrightarrow> m c = Some r \<Longrightarrow> wrap64 (r_UsedCount r + 1) = r_UsedCount r + 1"
  unfolding roomy_def by (fastforce simp: in_int64_def)

locale rule_store =
  fixes ops :: "'s store_ops"
    and wf :: "'s \<Rightarrow> bool"
    and look :: "'s \<Rightarrow> table"
    and keeps :: "rule \<Rightarrow> rule"
    and storable :: "rule \<Rightarrow> bool"
    and timely :: "instant \<Rightarrow> bool"
    and sweeps :: "rule \<Rightarrow> instant \<Rightarrow> bool"
    and quiet :: "'s \<Rightarrow> bool"
  assumes keeps_frame: "r_Code (keeps r) = r_Code r" "r_URL (keeps r) = r_URL r"
      "r_MaxUsages (keeps r) = r_MaxUsages r" "r_UsedCount (keeps r) = r_UsedCount r"
      "r_ExpiresAt (keeps r) = None \<longleftrightarrow> r_ExpiresAt r = None"
    and look_code: "wf s \<Longrightarrow> look s c = Some r \<Longrightarrow> r_Code r = c"
    and ping: "wf s \<Longrightarrow> op_Ping ops s = (u, s') \<Longrightarrow> wf s' \<and> look s' = look s \<and> (quiet s \<longrightarrow> quiet s' \<and> u = Inr ())"
    and create_wf: "wf s \<Longrightarrow> storable r \<Longrightarrow> op_CreateRule ops r s = (res, s') \<Longrightarrow> wf s'"
    and create_Inr: "wf s \<Longrightarrow> storable r \<Longrightarrow> op_CreateRule ops r s = (Inr r', s') \<Longrightarrow>
      r' = r \<and> look s (r_Code r) = None \<and> look s' = (look s)(r_Code r \<mapsto> keeps r)"
    and create_Inl: "wf s \<Longrightarrow> storable r \<Longrightarrow> op_CreateRule ops r s = (Inl e, s') \<Longrightarrow>
      look s' = look s \<or> (look s (r_Code r) = None \<and> look s' = (look s)(r_Code r \<mapsto> keeps r))"
    and create_quiet: "wf s \<Longrightarrow> quiet s \<Longrightarrow> storable r \<Longrightarrow> op_CreateRule ops r s = (res, s') \<Longrightarrow>
      quiet s' \<and> res = (if look s (r_Code r) = None then Inr r else Inl ErrAlreadyExists)
        \<and> (look s (r_Code r) \<noteq> None \<longrightarrow> look s' = look s)"
    and get_state: "wf s \<Longrightarrow> op_GetRule ops c s = (res, s') \<Longrightarrow> wf s' \<and> look s' = look s"
    and get_Inr: "wf s \<Longrightarrow> op_GetRule ops c s = (Inr r, s') \<Longrightarrow> look s c = Some r"
    and get_NotFound: "wf s \<Longrightarrow> op_GetRule ops c s = (Inl ErrNotFound, s') \<Longrightarrow> look s c = None"
    and get_quiet: "wf s \<Longrightarrow> quiet s \<Longrightarrow> op_GetRule ops c s = (res, s') \<Longrightarrow>
      quiet s' \<and> res = (case look s c of None \<Rightarrow> Inl ErrNotFound | Some r \<Rightarrow> Inr r)"
    and delete_wf: "wf s \<Longrightarrow> op_DeleteRule ops c s = (v, s') \<Longrightarrow> wf s'"
    and delete_Inr: "wf s \<Longrightarrow> op_DeleteRule ops c s = (Inr (), s') \<Longrightarrow>
      look s c \<noteq> None \<and> look s' = (look s)(c := None)"
    and delete_Inl: "wf s \<Longrightarrow> op_DeleteRule ops c s = (Inl e, s') \<Longrightarrow>
      look s' = look s \<or> look s' = (look s)(c := None)"
    and delete_NotFound: "wf s \<Longrightarrow> op_DeleteRule ops c s = (Inl ErrNotFound, s') \<Longrightarrow> look s c = None"
    and delete_quiet: "wf s \<Longrightarrow> quiet s \<Longrightarrow> op_DeleteRule ops c s = (v, s') \<Longrightarrow>
      quiet s' \<and> v = (if look s c = None then Inl ErrNotFound else Inr ())"
    and sweep_wf: "wf s \<Longrightarrow> op_DeleteExpired ops now s = (n, s') \<Longrightarrow> wf s'"
    and sweep_Inr: "wf s \<Longrightarrow> timely now \<Longrightarrow> op_DeleteExpired ops now s = (Inr k, s') \<Longrightarrow>
      look s' = swept (\<lambda>r. sweeps r now) (look s)
      \<and> k = int (card {c. \<exists>r. look s c = Some r \<and> sweeps r now})"
    and sweep_Inl: "wf s \<Longrightarrow> timely now \<Longrightarrow> op_DeleteExpired ops now s = (Inl e, s') \<Longrightarrow>
      look s' = look s \<or> look s' = swept (\<lambda>r. sweeps r now) (look s)"
    and sweep_quiet: "wf s \<Longrightarrow> quiet s \<Longrightarrow> op_DeleteExpired ops now s = (n, s') \<Longrightarrow> quiet s' \<and> is_ok n"
    and resolve_wf: "wf s \<Longrightarrow> timely now \<Longrightarrow> roomy 1 (look s) \<Longrightarrow>
      op_ResolveRule ops c now s = (res, s') \<Longrightarrow> wf s'"
    and resolve_Inr: "wf s \<Longrightarrow> timely now \<Longrightarrow> roomy 1 (look s) \<Longrightarrow>
      op_ResolveRule ops c now s = (Inr r', s') \<Longrightarrow>
      \<exists>r. look s c = Some r \<and> \<not> fst (Expired r now) \<and> r' = used r now
        \<and> look s' = (look s)(c \<mapsto> keeps (used r now))"
    and resolve_Inl: "wf s \<Longrightarrow> timely now \<Longrightarrow> roomy 1 (look s) \<Longrightarrow>
      op_ResolveRule ops c now s = (Inl e, s') \<Longrightarrow>
      look s' = look s \<or>
      (\<exists>r. look s c = Some r \<and> \<not> fst (Expired r now) \<and> look s' = (look s)(c \<mapsto> keeps (used r now)))"
    and resolve_NotFound: "wf s \<Longrightarrow> op_ResolveRule ops c now s = (Inl ErrNotFound, s') \<Longrightarrow>
      look s c = None \<and> look s' = look s"
    and resolve_Expired: "wf s \<Longrightarrow> op_ResolveRule ops c now s = (Inl (ExpiredError r reason), s') \<Longrightarrow>
      look s c = Some r \<and> Expired r now = (True, reason) \<and> look s' = look s"
    and resolve_quiet: "wf s \<Longrightarrow> quiet s \<Longrightarrow> timely now \<Longrightarrow> roomy 1 (look s) \<Longrightarrow>
      op_ResolveRule ops c now s = (res, s') \<Longrightarrow>
      quiet s' \<and> res = (case look s c of None \<Rightarrow> Inl ErrNotFound
        | Some r \<Rightarrow> if fst (Expired r now) then Inl (ExpiredError r (snd (Expired r now)))
                    else Inr (used r now))"
begin

text \<open>A created rule is found, and every other code is as before.\<close>

lemma create_then_get:
  assumes "wf s" "storable r" "op_CreateRule ops r s = (Inr r', s1)"
    "op_GetRule ops (r_Code r) s1 = (Inr r2, s2)"
  shows "r2 = keeps r"
  using get_Inr [OF create_wf [OF assms(1-3)] assms(4)] create_Inr [OF assms(1-3)] by simp

text \<open>A deleted rule is not found any more.\<close>

lemma delete_then_get:
  assumes "wf s" "op_DeleteRule ops c s = (Inr (), s1)" "op_GetRule ops c s1 = (Inr r, s2)"
  shows False
  using get_Inr [OF delete_wf [OF assms(1,2)] assms(3)] delete_Inr [OF assms(1,2)] by simp

text \<open>What a resolution can do to the table, whatever it returns.\<close>

lemma resolve_effect:
  assumes "wf s" "timely now" "roomy 1 (look s)" "op_ResolveRule ops c now s = (res, s')"
  obtains "look s' = look s"
  | r where "look s c = Some r" "\<not> fst (Expired r now)" "look s' = (look s)(c \<mapsto> keeps (used r now))"
proof (cases res)
  case (Inl e)
  then show thesis using resolve_Inl [OF assms(1-3)] assms(4) that by blast
next
  case (Inr r)
  then show thesis using resolve_Inr [OF assms(1-3)] assms(4) that by blast
qed

text \<open>No operation but creation brings a code into the table.\<close>

lemma resolve_dom:
  assumes "wf s" "timely now" "roomy 1 (look s)" "op_ResolveRule ops c now s = (res, s')"
  shows "dom (look s') = dom (look s)"
  by (rule resolve_effect [OF assms]) auto

end

end
