(* ===== verification/SqlDb.thy ===== *)
theory SqlDb
  imports Prelude
begin

text \<open>
  The database behind \<open>database/sql\<close>, as far as both stores see it. The engine and the
  driver are not part of the repository; what they do with the statements of the stores is:
  a statement runs on the rows of the table, and any call may fail. Which calls fail is a
  script, one entry per call: a call works, fails without effect, or takes effect with its
  acknowledgement lost (a connection that breaks after the server has applied a statement or
  a commit). An empty script means that every later call works. The errors the engine
  itself raises (a violated primary key, an integer out of range) are fields of the
  database. A transaction works on a copy of the rows, which only a commit makes the table;
  what it changes is lost when the transaction is rolled back.
\<close>

datatype 'e fault = Works | Fails 'e | AckLost 'e

record ('r, 'e) db =
  db_rows :: "'r list"
  db_faults :: "'e fault list"
  db_conflict :: 'e
  db_overflow :: 'e

definition next_fault :: "('r, 'e) db \<Rightarrow> 'e fault \<times> ('r, 'e) db" where
  "next_fault d = (case db_faults d of [] \<Rightarrow> (Works, d) | f # fs \<Rightarrow> (f, d\<lparr>db_faults := fs\<rparr>))"

text \<open>A call with no effect on the rows: \<open>Ping\<close>, \<open>Close\<close>, \<open>BeginTx\<close>, \<open>RowsAffected\<close>, a query.\<close>

definition db_call :: "('r list \<Rightarrow> 'a) \<Rightarrow> ('r, 'e) db \<Rightarrow> ('e + 'a) \<times> ('r, 'e) db" where
  "db_call f d =
     (case next_fault d of
        (Works, d') \<Rightarrow> (Inr (f (db_rows d')), d')
      | (Fails e, d') \<Rightarrow> (Inl e, d')
      | (AckLost e, d') \<Rightarrow> (Inl e, d'))"

text \<open>A statement of its own: it commits by itself. It returns the rows it affected.\<close>

definition db_exec ::
  "('r list \<Rightarrow> 'e + int \<times> 'r list) \<Rightarrow> ('r, 'e) db \<Rightarrow> ('e + int) \<times> ('r, 'e) db" where
  "db_exec stmt d =
     (case next_fault d of
        (Fails e, d') \<Rightarrow> (Inl e, d')
      | (Works, d') \<Rightarrow>
          (case stmt (db_rows d') of
             Inl e \<Rightarrow> (Inl e, d')
           | Inr (n, rs) \<Rightarrow> (Inr n, d'\<lparr>db_rows := rs\<rparr>))
      | (AckLost e, d') \<Rightarrow>
          (case stmt (db_rows d') of
             Inl e' \<Rightarrow> (Inl e', d')
           | Inr (n, rs) \<Rightarrow> (Inl e, d'\<lparr>db_rows := rs\<rparr>)))"

text \<open>A statement inside a transaction, on the transaction's copy of the rows.\<close>

definition tx_exec ::
  "('r list \<Rightarrow> 'e + int \<times> 'r list) \<Rightarrow> 'r list \<Rightarrow> ('r, 'e) db \<Rightarrow> ('e + 'r list) \<times> ('r, 'e) db" where
  "tx_exec stmt w d =
     (case next_fault d of
        (Works, d') \<Rightarrow> (case stmt w of Inl e \<Rightarrow> (Inl e, d') | Inr (n, rs) \<Rightarrow> (Inr rs, d'))
      | (Fails e, d') \<Rightarrow> (Inl e, d')
      | (AckLost e, d') \<Rightarrow> (Inl e, d'))"

definition tx_commit :: "'r list \<Rightarrow> ('r, 'e) db \<Rightarrow> ('e + unit) \<times> ('r, 'e) db" where
  "tx_commit w d =
     (case next_fault d of
        (Works, d') \<Rightarrow> (Inr (), d'\<lparr>db_rows := w\<rparr>)
      | (Fails e, d') \<Rightarrow> (Inl e, d')
      | (AckLost e, d') \<Rightarrow> (Inl e, d'\<lparr>db_rows := w\<rparr>))"

section \<open>Facts\<close>

definition no_faults :: "('r, 'e) db \<Rightarrow> bool" where
  "no_faults d \<longleftrightarrow> db_faults d = []"

lemma next_fault_rows [simp]:
  "next_fault d = (f, d') \<Longrightarrow> db_rows d' = db_rows d"
  by (auto simp: next_fault_def split: list.splits)

lemma next_fault_no_faults: "no_faults d \<Longrightarrow> next_fault d = (Works, d)"
  by (simp add: next_fault_def no_faults_def)

text \<open>The fields that name the engine's errors never change.\<close>

definition same_errors :: "('r, 'e) db \<Rightarrow> ('r, 'e) db \<Rightarrow> bool" where
  "same_errors d d' \<longleftrightarrow> db_conflict d' = db_conflict d \<and> db_overflow d' = db_overflow d"

lemma db_call_Inr:
  "db_call f d = (Inr v, d') \<Longrightarrow> v = f (db_rows d) \<and> db_rows d' = db_rows d"
  by (auto simp: db_call_def split: prod.splits fault.splits)

lemma db_call_rows: "db_call f d = (res, d') \<Longrightarrow> db_rows d' = db_rows d"
  by (auto simp: db_call_def split: prod.splits fault.splits)

lemma db_exec_Inr:
  "db_exec stmt d = (Inr n, d') \<Longrightarrow> \<exists>rs. stmt (db_rows d) = Inr (n, rs) \<and> db_rows d' = rs"
  by (auto simp: db_exec_def split: prod.splits fault.splits sum.splits)

lemma db_exec_Inl:
  "db_exec stmt d = (Inl e, d') \<Longrightarrow>
     db_rows d' = db_rows d \<or> (\<exists>n rs. stmt (db_rows d) = Inr (n, rs) \<and> db_rows d' = rs)"
  by (auto simp: db_exec_def split: prod.splits fault.splits sum.splits)

lemma tx_exec_rows: "tx_exec stmt w d = (res, d') \<Longrightarrow> db_rows d' = db_rows d"
  by (auto simp: tx_exec_def split: prod.splits fault.splits sum.splits)

lemma tx_exec_Inr: "tx_exec stmt w d = (Inr rs, d') \<Longrightarrow> \<exists>n. stmt w = Inr (n, rs)"
  by (auto simp: tx_exec_def split: prod.splits fault.splits sum.splits)

lemma tx_commit_Inr: "tx_commit w d = (Inr v, d') \<Longrightarrow> db_rows d' = w"
  by (auto simp: tx_commit_def split: prod.splits fault.splits)

lemma tx_commit_Inl: "tx_commit w d = (Inl e, d') \<Longrightarrow> db_rows d' = db_rows d \<or> db_rows d' = w"
  by (auto simp: tx_commit_def split: prod.splits fault.splits)

lemma no_faults_eqs [db_simps]:
  assumes "no_faults d"
  shows "db_call f d = (Inr (f (db_rows d)), d)"
    "db_exec stmt d = (case stmt (db_rows d) of
       Inl e \<Rightarrow> (Inl e, d) | Inr (n, rs) \<Rightarrow> (Inr n, d\<lparr>db_rows := rs\<rparr>))"
    "tx_exec stmt w d = (case stmt w of Inl e \<Rightarrow> (Inl e, d) | Inr (n, rs) \<Rightarrow> (Inr rs, d))"
    "tx_commit w d = (Inr (), d\<lparr>db_rows := w\<rparr>)"
  using assms
  by (simp_all add: db_call_def db_exec_def tx_exec_def tx_commit_def next_fault_no_faults)

lemma no_faults_update [simp]: "no_faults (d\<lparr>db_rows := rs\<rparr>) = no_faults d"
  by (simp add: no_faults_def)

text \<open>Calls keep the engine's error values and never add a failure.\<close>

definition db_frame :: "('r, 'e) db \<Rightarrow> ('r, 'e) db \<Rightarrow> bool" where
  "db_frame d d' \<longleftrightarrow> same_errors d d' \<and> set (db_faults d') \<subseteq> set (db_faults d)"

lemma db_frame_refl [simp]: "db_frame d d"
  by (simp add: db_frame_def same_errors_def)

lemma db_frame_trans [trans]: "db_frame d d' \<Longrightarrow> db_frame d' d'' \<Longrightarrow> db_frame d d''"
  by (auto simp: db_frame_def same_errors_def)

lemma next_fault_frame: "next_fault d = (f, d') \<Longrightarrow> db_frame d d'"
  by (cases "db_faults d"; force simp add: next_fault_def db_frame_def same_errors_def)

lemma db_frame_update [simp]:
  "db_frame d (d'\<lparr>db_rows := rs\<rparr>) = db_frame d d'" "db_frame (d\<lparr>db_rows := rs\<rparr>) d' = db_frame d d'"
  by (simp_all add: db_frame_def same_errors_def)

lemma db_call_frame: "db_call f d = (res, d') \<Longrightarrow> db_frame d d'"
  by (auto simp: db_call_def dest: next_fault_frame split: prod.splits fault.splits)

lemma db_exec_frame: "db_exec stmt d = (res, d') \<Longrightarrow> db_frame d d'"
  by (auto simp: db_exec_def dest: next_fault_frame split: prod.splits fault.splits sum.splits)

lemma tx_exec_frame: "tx_exec stmt w d = (res, d') \<Longrightarrow> db_frame d d'"
  by (auto simp: tx_exec_def dest: next_fault_frame split: prod.splits fault.splits sum.splits)

lemma tx_commit_frame: "tx_commit w d = (res, d') \<Longrightarrow> db_frame d d'"
  by (auto simp: tx_commit_def dest: next_fault_frame split: prod.splits fault.splits)

lemmas db_frames = db_call_frame db_exec_frame tx_exec_frame tx_commit_frame

lemma no_faults_frame: "db_frame d d' \<Longrightarrow> no_faults d \<Longrightarrow> no_faults d'"
  by (auto simp: db_frame_def no_faults_def)

end
