(* ===== verification/RowTable.thy ===== *)
theory RowTable
  imports Store SqlDb
begin

text \<open>
  Tables of rows that hold rules, for both stores: a row type with its key, the scan of a row
  and the row of a rule, related by the round trip that the locale asks for. The lemmas say
  what inserting, filtering and updating rows does to the map from codes to rules that the
  table stands for; each store interprets the locale with its own row type.
\<close>

definition table_ok ::
  "('row \<Rightarrow> string) \<Rightarrow> ('row \<Rightarrow> rule option) \<Rightarrow> (rule \<Rightarrow> 'row) \<Rightarrow> (rule \<Rightarrow> bool) \<Rightarrow> 'row list \<Rightarrow> bool" where
  "table_ok key scan mk good rows \<longleftrightarrow> distinct (map key rows) \<and>
     list_all (\<lambda>row. case scan row of None \<Rightarrow> False | Some r \<Rightarrow> good r \<and> row = mk r) rows"

definition table_look :: "('row \<Rightarrow> string) \<Rightarrow> ('row \<Rightarrow> rule option) \<Rightarrow> 'row list \<Rightarrow> table" where
  "table_look key scan rows c = Option.bind (find_row key c rows) scan"

text \<open>An \<open>INSERT\<close> under a primary key, a \<open>DELETE\<close> with a condition, an \<open>UPDATE\<close> of all rows.\<close>

definition sql_insert :: "('row \<Rightarrow> string) \<Rightarrow> 'e \<Rightarrow> 'row \<Rightarrow> 'row list \<Rightarrow> 'e + int \<times> 'row list" where
  "sql_insert key conflict row rs =
     (if list_ex (\<lambda>x. key x = key row) rs then Inl conflict else Inr (1, rs @ [row]))"

definition sql_delete :: "('row \<Rightarrow> bool) \<Rightarrow> 'row list \<Rightarrow> 'e + int \<times> 'row list" where
  "sql_delete p rs = Inr (int (length (filter p rs)), filter (\<lambda>x. \<not> p x) rs)"

lemma sql_delete_Inr: "sql_delete p rs = Inr (n, ts) \<longleftrightarrow>
    n = int (length (filter p rs)) \<and> ts = filter (\<lambda>x. \<not> p x) rs"
  by (auto simp: sql_delete_def)

locale row_table =
  fixes key :: "'row \<Rightarrow> string"
    and scan :: "'row \<Rightarrow> rule option"
    and mk :: "rule \<Rightarrow> 'row"
    and good :: "rule \<Rightarrow> bool"
  assumes scan_mk: "good r \<Longrightarrow> scan (mk r) = Some r"
    and key_mk: "key (mk r) = r_Code r"
begin

lemma row_of:
  assumes "table_ok key scan mk good rows" "row \<in> set rows"
  obtains r where "row = mk r" "good r" "scan row = Some r" "r_Code r = key row"
proof (cases "scan row")
  case None
  with assms show thesis by (force simp: table_ok_def list_all_iff)
next
  case (Some r)
  with assms have "good r" "row = mk r" by (force simp: table_ok_def list_all_iff)+
  with Some that show thesis by (metis key_mk)
qed

lemma find_of:
  assumes "table_ok key scan mk good rows" "find_row key c rows = Some row"
  obtains r where "row = mk r" "good r" "scan row = Some r" "table_look key scan rows c = Some r" "r_Code r = c"
proof -
  have "row \<in> set rows" "key row = c" using find_row_SomeD [OF assms(2)] by auto
  then obtain r where r: "row = mk r" "good r" "scan row = Some r" "r_Code r = c"
    by (metis row_of [OF assms(1)])
  moreover have "table_look key scan rows c = Some r"
    using assms(2) r(3) by (simp add: table_look_def)
  ultimately show thesis using that by blast
qed

lemma look_Some:
  assumes "table_ok key scan mk good rows" "table_look key scan rows c = Some r"
  shows "find_row key c rows = Some (mk r)" "good r" "r_Code r = c" "scan (mk r) = Some r"
proof -
  obtain row where row: "find_row key c rows = Some row"
    using assms(2) by (auto simp: table_look_def bind_eq_Some_conv)
  obtain r' where "row = mk r'" "good r'" "scan row = Some r'" "table_look key scan rows c = Some r'"
    "r_Code r' = c" by (rule find_of [OF assms(1) row])
  then show "find_row key c rows = Some (mk r)" "good r" "r_Code r = c" "scan (mk r) = Some r"
    using row assms(2) by auto
qed

lemma look_None:
  assumes "table_ok key scan mk good rows"
  shows "table_look key scan rows c = None \<longleftrightarrow> find_row key c rows = None"
proof
  assume n: "table_look key scan rows c = None"
  show "find_row key c rows = None"
  proof (rule ccontr)
    assume "find_row key c rows \<noteq> None"
    then obtain row where "find_row key c rows = Some row" by blast
    then show False using find_of [OF assms] n by (metis option.distinct(1))
  qed
qed (simp add: table_look_def)

lemma insert_Inr:
  assumes "table_ok key scan mk good rows" "good r" "sql_insert key e (mk r) rows = Inr (n, rs)"
  shows "table_look key scan rows (r_Code r) = None" "table_ok key scan mk good rs"
    "table_look key scan rs = (table_look key scan rows)(r_Code r \<mapsto> r)"
proof -
  have rs: "rs = rows @ [mk r]" and new: "r_Code r \<notin> key ` set rows"
    using assms(3) by (auto simp: sql_insert_def list_ex_iff key_mk split: if_splits)
  then have f: "find_row key (r_Code r) rows = None" by (simp add: find_row_None_iff)
  then show "table_look key scan rows (r_Code r) = None" by (simp add: table_look_def)
  show "table_ok key scan mk good rs"
    using assms(1,2) new rs by (auto simp: table_ok_def scan_mk key_mk)
  show "table_look key scan rs = (table_look key scan rows)(r_Code r \<mapsto> r)"
    using f assms(2)
    by (auto simp: rs table_look_def find_row_append fun_eq_iff scan_mk key_mk split: option.split)
qed

lemma insert_Inl:
  assumes "table_ok key scan mk good rows"
  shows "sql_insert key e (mk r) rows = Inl e' \<longleftrightarrow>
    e' = e \<and> table_look key scan rows (r_Code r) \<noteq> None"
  using look_None [OF assms, of "r_Code r"] find_row_None_iff [of key "r_Code r" rows]
  by (auto simp: sql_insert_def list_ex_iff key_mk image_iff)

lemma look_filter:
  assumes "table_ok key scan mk good rows"
  shows "table_ok key scan mk good (filter P rows)"
    "table_look key scan (filter P rows) = swept (\<lambda>r. \<not> P (mk r)) (table_look key scan rows)"
proof -
  have dist: "distinct (map key rows)" using assms by (simp add: table_ok_def)
  show "table_ok key scan mk good (filter P rows)"
    using assms by (auto simp: table_ok_def distinct_map_filter list_all_iff)
  show "table_look key scan (filter P rows) = swept (\<lambda>r. \<not> P (mk r)) (table_look key scan rows)"
  proof
    fix c
    show "table_look key scan (filter P rows) c = swept (\<lambda>r. \<not> P (mk r)) (table_look key scan rows) c"
    proof (cases "find_row key c rows")
      case None
      then show ?thesis by (simp add: table_look_def swept_def find_row_filter [OF dist])
    next
      case (Some row)
      obtain r where "row = mk r" "scan row = Some r" by (rule find_of [OF assms Some])
      then show ?thesis using Some by (simp add: table_look_def swept_def find_row_filter [OF dist])
    qed
  qed
qed

text \<open>Deleting one key, and the number of rows a deletion removes.\<close>

lemma look_remove:
  assumes "table_ok key scan mk good rows"
  shows "table_look key scan (filter (\<lambda>x. key x \<noteq> c) rows) = (table_look key scan rows)(c := None)"
proof
  fix k
  show "table_look key scan (filter (\<lambda>x. key x \<noteq> c) rows) k = ((table_look key scan rows)(c := None)) k"
    using look_Some(3) [OF assms, of k]
    by (auto simp: look_filter(2) [OF assms] swept_def key_mk split: option.split)
qed

lemma count_removed:
  assumes "table_ok key scan mk good rows"
  shows "length (filter P rows) = card {c. \<exists>r. table_look key scan rows c = Some r \<and> P (mk r)}"
proof -
  have "(\<exists>row. find_row key c rows = Some row \<and> P row)
      \<longleftrightarrow> (\<exists>r. table_look key scan rows c = Some r \<and> P (mk r))" for c
    using look_Some(1) [OF assms] find_of [OF assms] by metis
  then show ?thesis
    using length_filter_card_keys [of key rows P] assms by (simp add: table_ok_def)
qed

lemma count_removed_key:
  assumes "table_ok key scan mk good rows"
  shows "length (filter (\<lambda>x. key x = c) rows) = (if table_look key scan rows c = None then 0 else 1)"
proof -
  have "{k. \<exists>r. table_look key scan rows k = Some r \<and> key (mk r) = c}
      = (if table_look key scan rows c = None then {} else {c})"
    using look_Some(3) [OF assms] by (auto simp: key_mk)
  then show ?thesis unfolding count_removed [OF assms] by simp
qed

text \<open>An update that turns the row of one rule into the row of another with the same code.\<close>

lemma look_update:
  assumes ok: "table_ok key scan mk good rows" and r: "table_look key scan rows c = Some r"
    and hit: "f (mk r) = mk r'" and miss: "\<And>row. key row \<noteq> c \<Longrightarrow> f row = row"
    and good': "good r'" and code: "r_Code r' = c"
  shows "table_ok key scan mk good (map f rows)"
    "table_look key scan (map f rows) = (table_look key scan rows)(c \<mapsto> r')"
proof -
  note lr = look_Some [OF ok r]
  have dist: "distinct (map key rows)" using ok by (simp add: table_ok_def)
  have uniq: "row = mk r" if "row \<in> set rows" "key row = c" for row
    using that lr(1) find_row_Some_iff [OF dist, of c row] by simp
  have keyf: "key (f row) = key row" if "row \<in> set rows" for row
    using that uniq hit miss code by (metis key_mk)
  have "case scan (f row) of None \<Rightarrow> False | Some r \<Rightarrow> good r \<and> f row = mk r" if "row \<in> set rows" for row
  proof (cases "key row = c")
    case True
    then show ?thesis using that uniq hit good' by (simp add: scan_mk)
  next
    case False
    then have "f row = row" by (rule miss)
    moreover obtain r where "row = mk r" "good r" "scan row = Some r" by (rule row_of [OF ok \<open>row \<in> set rows\<close>])
    ultimately show ?thesis by simp
  qed
  moreover have "map key (map f rows) = map key rows" using keyf by simp
  ultimately show "table_ok key scan mk good (map f rows)"
    using dist by (simp add: table_ok_def list_all_iff del: map_map)
  have fr: "find_row key k (map f rows) = map_option f (find_row key k rows)" for k
    using keyf by (induction rows) auto
  show "table_look key scan (map f rows) = (table_look key scan rows)(c \<mapsto> r')"
  proof
    fix k
    show "table_look key scan (map f rows) k = ((table_look key scan rows)(c \<mapsto> r')) k"
    proof (cases "k = c")
      case True
      then show ?thesis using lr(1) good' by (simp add: table_look_def fr hit scan_mk)
    next
      case False
      then show ?thesis
        by (cases "find_row key k rows") (auto simp: table_look_def fr miss dest: find_row_SomeD)
    qed
  qed
qed

end

end
