(* ===== verification/CodeGen.thy ===== *)
theory CodeGen
  imports GoStrings
begin

text \<open>
  \<open>internal/code/generator.go\<close>: short codes drawn from an alphabet. The random source
  is a sequence of draws, each a failure or a number; \<open>rand.Int\<close> reduces it to the range it
  is asked for, so every sequence of results in range is the reading of some source.
\<close>

datatype draw = Draw int | DrawFails string

type_synonym entropy = "nat \<Rightarrow> draw"

definition alphabet :: string where
  "alphabet = ''abcdefghijklmnopqrstuvwxyzABCDEFGHIJKLMNOPQRSTUVWXYZ0123456789''"

record generator =
  gen_length :: int

definition NewGenerator :: "int \<Rightarrow> generator" where
  "NewGenerator n = \<lparr>gen_length = n\<rparr>"

definition rand_Int :: "int \<Rightarrow> entropy \<Rightarrow> (string + int) \<times> entropy" where
  "rand_Int limit src =
     (case src 0 of Draw n \<Rightarrow> Inr (n mod limit) | DrawFails e \<Rightarrow> Inl e, \<lambda>i. src (Suc i))"

text \<open>The loop over the positions of the result.\<close>

fun generate_loop :: "nat \<Rightarrow> entropy \<Rightarrow> (string + string) \<times> entropy" where
  "generate_loop 0 src = (Inr [], src)"
| "generate_loop (Suc k) src =
     (case rand_Int (int (length alphabet)) src of
        (Inl e, src') \<Rightarrow> (Inl (''read random value: '' @ e), src')
      | (Inr n, src') \<Rightarrow>
          (case generate_loop k src' of
             (Inl e, src'') \<Rightarrow> (Inl e, src'')
           | (Inr s, src'') \<Rightarrow> (Inr (alphabet ! nat n # s), src'')))"

definition Generate :: "generator \<Rightarrow> entropy \<Rightarrow> (string + string) \<times> entropy" where
  "Generate g src =
     (if gen_length g \<le> 0 then (Inl (''invalid code length: '' @ show_int (gen_length g)), src)
      else generate_loop (nat (gen_length g)) src)"

section \<open>Facts\<close>

lemma length_alphabet [simp]: "length alphabet = 62"
  by (simp add: alphabet_def)

lemma alphabet_alnum: "list_all is_alnum alphabet"
  by code_simp

lemma distinct_alphabet: "distinct alphabet"
  by code_simp

lemma rand_Int_range:
  "rand_Int limit src = (Inr n, src') \<Longrightarrow> 0 < limit \<Longrightarrow> 0 \<le> n \<and> n < limit"
  by (auto simp: rand_Int_def split: draw.splits)

lemma alphabet_nth: "0 \<le> n \<Longrightarrow> n < 62 \<Longrightarrow> alphabet ! nat n \<in> set alphabet"
  by (rule nth_mem) simp

lemma generate_loop_Inr:
  "generate_loop k src = (Inr s, src') \<Longrightarrow> length s = k \<and> set s \<subseteq> set alphabet"
proof (induction k arbitrary: src s src')
  case (Suc k)
  then obtain n src1 t where "rand_Int 62 src = (Inr n, src1)" "generate_loop k src1 = (Inr t, src')"
    "s = alphabet ! nat n # t"
    by (auto split: prod.splits sum.splits)
  then show ?case using Suc.IH [of src1 t src'] rand_Int_range [of 62 src n src1] alphabet_nth [of n]
    by auto
qed simp

text \<open>A generated code has the length asked for and letters and digits only.\<close>

lemma Generate_Inr:
  assumes "Generate g src = (Inr s, src')"
  shows "length s = nat (gen_length g)" "list_all is_alnum s" "0 < gen_length g"
  using assms alphabet_alnum
  by (auto simp: Generate_def list_all_iff dest!: generate_loop_Inr split: if_splits)

lemma generate_loop_no_fail:
  assumes "\<forall>i. \<exists>n. src i = Draw n"
  shows "\<exists>s src'. generate_loop k src = (Inr s, src')"
  using assms
proof (induction k arbitrary: src)
  case (Suc k)
  obtain n where n: "src 0 = Draw n" using Suc.prems by blast
  have "\<forall>i. \<exists>n. src (Suc i) = Draw n" using Suc.prems by blast
  then obtain s src' where "generate_loop k (\<lambda>i. src (Suc i)) = (Inr s, src')"
    using Suc.IH [of "\<lambda>i. src (Suc i)"] by blast
  moreover have "rand_Int 62 src = (Inr (n mod 62), \<lambda>i. src (Suc i))"
    using n by (simp add: rand_Int_def)
  ultimately show ?case by simp
qed simp

lemma generate_loop_rest:
  "generate_loop k src = (Inr s, src') \<Longrightarrow> \<exists>m. src' = (\<lambda>i. src (i + m))"
proof (induction k arbitrary: src s)
  case 0
  then show ?case by (intro exI [of _ 0]) simp
next
  case (Suc k)
  then obtain n src1 t where 1: "rand_Int 62 src = (Inr n, src1)" and 2: "generate_loop k src1 = (Inr t, src')"
    by (auto split: prod.splits sum.splits)
  from Suc.IH [OF 2] obtain m where "src' = (\<lambda>i. src1 (i + m))" by blast
  with 1 have "src' = (\<lambda>i. src (i + Suc m))" by (auto simp: rand_Int_def)
  then show ?case by blast
qed

text \<open>Every text over the alphabet is drawn from some source: no code is out of reach, and the
  draw that gives it is unique position by position.\<close>

lemma generate_loop_onto:
  "set s \<subseteq> set alphabet \<Longrightarrow> \<exists>src. fst (generate_loop (length s) src) = Inr s"
proof (induction s)
  case (Cons c s)
  then obtain src src' where src: "generate_loop (length s) src = (Inr s, src')"
    by (metis (no_types, lifting) insert_subset list.simps(15) prod.collapse)
  from Cons.prems obtain i where i: "i < 62" "alphabet ! i = c"
    by (metis in_set_conv_nth length_alphabet list.set_intros(1) subsetD)
  let ?src = "case_nat (Draw (int i)) src"
  have "rand_Int 62 ?src = (Inr (int i), src)"
    using i by (simp add: rand_Int_def)
  then have "fst (generate_loop (length (c # s)) ?src) = Inr (c # s)"
    using src i by simp
  then show ?case by blast
qed auto

end
