(* ===== verification/Shortener.thy ===== *)
theory Shortener
  imports Store CodeGen
begin

text \<open>
  The \<open>Service\<close> of \<open>internal/shortener/service.go\<close>: each method over an arbitrary store. A
  method works on the store's state and the random source. \<open>svc_now\<close> is the service's clock,
  from the reading of the system's clock (\<open>wall\<close>), which it is by default. The methods are without their
  spans; Tracing has them with their spans and shows that these change nothing.
\<close>

record 's service =
  svc_store :: "'s store_ops"
  svc_generator :: generator
  svc_baseURL :: string
  svc_rejectPrivateTargets :: bool
  svc_now :: "instant \<Rightarrow> instant"

type_synonym 's service_option = "'s service \<Rightarrow> 's service"

definition WithNow :: "(instant \<Rightarrow> instant) \<Rightarrow> 's service_option" where
  "WithNow now svc = svc\<lparr>svc_now := now\<rparr>"

definition WithPrivateTargetRejection :: "bool \<Rightarrow> 's service_option" where
  "WithPrivateTargetRejection enabled svc = svc\<lparr>svc_rejectPrivateTargets := enabled\<rparr>"

definition NewService ::
  "'s store_ops \<Rightarrow> generator \<Rightarrow> string \<Rightarrow> 's service_option list \<Rightarrow> 's service" where
  "NewService store gen baseURL opts =
     fold (\<lambda>opt svc. opt svc) opts
       \<lparr>svc_store = store, svc_generator = gen,
        svc_baseURL = trim_right_byte (CHR ''/'') (trim_space baseURL),
        svc_rejectPrivateTargets = False, svc_now = (\<lambda>wall. wall)\<rparr>"

definition svc_Now :: "'s service \<Rightarrow> instant \<Rightarrow> instant" where
  "svc_Now svc wall = svc_now svc wall"

definition svc_Ping :: "'s service \<Rightarrow> ('s, svc_error, unit) call" where
  "svc_Ping svc s = op_Ping (svc_store svc) s"

definition svc_DeleteExpired :: "'s service \<Rightarrow> instant \<Rightarrow> ('s, svc_error, int) call" where
  "svc_DeleteExpired svc wall s =
     (case op_DeleteExpired (svc_store svc) (svc_Now svc wall) s of
        (Inl e, s') \<Rightarrow> (Inl e, s')
      | (Inr deleted, s') \<Rightarrow> (Inr deleted, s'))"

text \<open>The loop of \<open>CreateRule\<close> over at most \<open>k\<close> generated codes.\<close>

fun create_generated :: "nat \<Rightarrow> 's service \<Rightarrow> rule \<Rightarrow> ('s \<times> entropy, svc_error, rule) call" where
  "create_generated 0 svc r (s, src) =
     (Inl (OtherError ''could not generate a unique short code''), (s, src))"
| "create_generated (Suc k) svc r (s, src) =
     (case Generate (svc_generator svc) src of
        (Inl e, src') \<Rightarrow> (Inl (OtherError e), (s, src'))
      | (Inr code, src') \<Rightarrow>
          (case op_CreateRule (svc_store svc) (r\<lparr>r_Code := code\<rparr>) s of
             (Inl e, s') \<Rightarrow>
               if e = ErrAlreadyExists then create_generated k svc (r\<lparr>r_Code := code\<rparr>) (s', src')
               else (Inl e, (s', src'))
           | (Inr created, s') \<Rightarrow> (Inr created, (s', src'))))"

definition svc_CreateRule ::
  "'s service \<Rightarrow> instant \<Rightarrow> create_input \<Rightarrow> ('s \<times> entropy, svc_error, rule) call" where
  "svc_CreateRule svc wall input w =
     (case ruleFromInput (svc_rejectPrivateTargets svc) input (svc_Now svc wall) of
        Inl e \<Rightarrow> (Inl e, w)
      | Inr r \<Rightarrow>
          if r_Code r \<noteq> [] then
            (case op_CreateRule (svc_store svc) r (fst w) of
               (Inl e, s') \<Rightarrow> (Inl e, (s', snd w))
             | (Inr created, s') \<Rightarrow> (Inr created, (s', snd w)))
          else create_generated 10 svc r w)"

definition svc_GetRule :: "'s service \<Rightarrow> string \<Rightarrow> ('s, svc_error, rule) call" where
  "svc_GetRule svc raw s =
     (case validateCode raw of
        Inl e \<Rightarrow> (Inl e, s)
      | Inr code \<Rightarrow> op_GetRule (svc_store svc) code s)"

definition svc_DeleteRule :: "'s service \<Rightarrow> string \<Rightarrow> ('s, svc_error, unit) call" where
  "svc_DeleteRule svc raw s =
     (case validateCode raw of
        Inl e \<Rightarrow> (Inl e, s)
      | Inr code \<Rightarrow> op_DeleteRule (svc_store svc) code s)"

definition svc_ResolveRule :: "'s service \<Rightarrow> instant \<Rightarrow> string \<Rightarrow> ('s, svc_error, rule) call" where
  "svc_ResolveRule svc wall raw s =
     (case validateCode raw of
        Inl e \<Rightarrow> (Inl e, s)
      | Inr code \<Rightarrow> op_ResolveRule (svc_store svc) code (svc_Now svc wall) s)"

lemmas svc_ops_defs [svc_defs] = svc_Now_def svc_Ping_def svc_DeleteExpired_def svc_CreateRule_def
  svc_GetRule_def svc_DeleteRule_def svc_ResolveRule_def

lemma svc_DeleteExpired_eq: "svc_DeleteExpired svc wall s = op_DeleteExpired (svc_store svc) (svc_Now svc wall) s"
  by (simp add: svc_DeleteExpired_def split: prod.split sum.split)

section \<open>Inputs that never reach the store\<close>

lemma svc_invalid_code:
  "\<not> alias_pattern (trim_space raw) \<Longrightarrow>
     (\<exists>m. svc_GetRule svc raw s = (Inl (ValidationError ''code'' m), s)
        \<and> svc_DeleteRule svc raw s = (Inl (ValidationError ''code'' m), s)
        \<and> svc_ResolveRule svc wall raw s = (Inl (ValidationError ''code'' m), s))"
  using validateCode_Inr [of raw] validateCode_Inl [of raw]
  by (cases "validateCode raw") (auto simp: svc_defs)

lemma svc_invalid_input:
  "ruleFromInput (svc_rejectPrivateTargets svc) input (svc_Now svc wall) = Inl e \<Longrightarrow>
     svc_CreateRule svc wall input w = (Inl e, w)"
  by (simp add: svc_CreateRule_def)

section \<open>Calls of a store in sequence\<close>

text \<open>
  The calls that the service makes to its store, as data, and what a sequence of them does.
  \<open>hits c\<close> counts the successful resolutions of one code.
\<close>

datatype store_call =
    CallCreate rule
  | CallGet string
  | CallDelete string
  | CallSweep instant
  | CallResolve string instant

fun call_state :: "'s store_ops \<Rightarrow> store_call \<Rightarrow> 's \<Rightarrow> 's" where
  "call_state ops (CallCreate r) s = snd (op_CreateRule ops r s)"
| "call_state ops (CallGet c) s = snd (op_GetRule ops c s)"
| "call_state ops (CallDelete c) s = snd (op_DeleteRule ops c s)"
| "call_state ops (CallSweep now) s = snd (op_DeleteExpired ops now s)"
| "call_state ops (CallResolve c now) s = snd (op_ResolveRule ops c now s)"

fun hit :: "'s store_ops \<Rightarrow> string \<Rightarrow> store_call \<Rightarrow> 's \<Rightarrow> nat" where
  "hit ops c (CallResolve c' now) s = (if c' = c \<and> is_ok (fst (op_ResolveRule ops c' now s)) then 1 else 0)"
| "hit ops c _ s = 0"

fun hits :: "'s store_ops \<Rightarrow> string \<Rightarrow> store_call list \<Rightarrow> 's \<Rightarrow> nat" where
  "hits ops c [] s = 0"
| "hits ops c (k # ks) s = hit ops c k s + hits ops c ks (call_state ops k s)"

fun call_ok :: "(rule \<Rightarrow> bool) \<Rightarrow> (instant \<Rightarrow> bool) \<Rightarrow> store_call \<Rightarrow> bool" where
  "call_ok storable timely (CallCreate r) \<longleftrightarrow> storable r \<and> r_UsedCount r = 0"
| "call_ok storable timely (CallSweep now) \<longleftrightarrow> timely now"
| "call_ok storable timely (CallResolve c now) \<longleftrightarrow> timely now"
| "call_ok storable timely _ \<longleftrightarrow> True"

fun creates :: "string \<Rightarrow> store_call \<Rightarrow> bool" where
  "creates c (CallCreate r) \<longleftrightarrow> r_Code r = c"
| "creates c _ \<longleftrightarrow> False"

context rule_store
begin

text \<open>
  What any one call leaves at a code it does not create: nothing, or the rule that was there,
  or, after a resolution that was allowed, the rule with one more use.
\<close>

lemma call_wf:
  assumes "wf s" "call_ok storable timely k" "roomy 1 (look s)"
  shows "wf (call_state ops k s)"
proof (cases k)
  case (CallCreate r)
  then show ?thesis using create_wf [OF assms(1), of r] assms(2) by (metis call_ok.simps(1) call_state.simps(1) prod.collapse)
next
  case (CallGet c)
  then show ?thesis using get_state assms(1) by (metis call_state.simps(2) prod.collapse)
next
  case (CallDelete c)
  then show ?thesis using delete_wf [OF assms(1)] by (metis call_state.simps(3) prod.collapse)
next
  case (CallSweep now)
  then show ?thesis using sweep_wf [OF assms(1)] by (metis call_state.simps(4) prod.collapse)
next
  case (CallResolve c now)
  then show ?thesis using resolve_wf [OF assms(1) _ assms(3)] assms(2)
    by (metis call_ok.simps(3) call_state.simps(5) prod.collapse)
qed

lemma call_look:
  assumes "wf s" "call_ok storable timely k" "roomy 1 (look s)"
  obtains (same) "look (call_state ops k s) = look s"
  | (create) r where "k = CallCreate r" "look s (r_Code r) = None"
      "look (call_state ops k s) = (look s)(r_Code r \<mapsto> keeps r)"
  | (delete) c where "k = CallDelete c" "look (call_state ops k s) = (look s)(c := None)"
  | (sweep) now where "k = CallSweep now" "look (call_state ops k s) = swept (\<lambda>r. sweeps r now) (look s)"
  | (resolve) c now r where "k = CallResolve c now" "look s c = Some r" "\<not> fst (Expired r now)"
      "look (call_state ops k s) = (look s)(c \<mapsto> keeps (used r now))"
      "wrap64 (r_UsedCount r + 1) = r_UsedCount r + 1"
proof (cases k)
  case (CallCreate r)
  obtain res s' where c: "op_CreateRule ops r s = (res, s')" by fastforce
  have "look s' = look s \<or> (look s (r_Code r) = None \<and> look s' = (look s)(r_Code r \<mapsto> keeps r))"
    by (cases res) (use c create_Inl [OF assms(1), of r] create_Inr [OF assms(1), of r] assms(2) CallCreate in auto)
  with c CallCreate same create show thesis by fastforce
next
  case (CallGet c)
  then show thesis using get_state [OF assms(1), of c] same by (metis call_state.simps(2) prod.collapse)
next
  case (CallDelete c)
  obtain v s' where d: "op_DeleteRule ops c s = (v, s')" by fastforce
  have "look s' = look s \<or> look s' = (look s)(c := None)"
    by (cases v) (use d delete_Inl [OF assms(1)] delete_Inr [OF assms(1)] in auto)
  with d CallDelete same delete show thesis by fastforce
next
  case (CallSweep now)
  obtain n s' where d: "op_DeleteExpired ops now s = (n, s')" by fastforce
  have "look s' = look s \<or> look s' = swept (\<lambda>r. sweeps r now) (look s)"
    by (cases n) (use d sweep_Inl [OF assms(1)] sweep_Inr [OF assms(1)] assms(2) CallSweep in auto)
  with d CallSweep same sweep show thesis by fastforce
next
  case (CallResolve c now)
  obtain res s' where d: "op_ResolveRule ops c now s = (res, s')" by fastforce
  have t: "timely now" using assms(2) CallResolve by simp
  have s': "call_state ops k s = s'" using d CallResolve by simp
  show thesis
  proof (cases rule: resolve_effect [OF assms(1) t assms(3) d])
    case 1
    then show thesis using same s' by simp
  next
    case (2 r)
    then show thesis using resolve [OF CallResolve 2(1,2)] roomy_room [OF assms(3) zero_less_one 2(1)] s' by simp
  qed
qed

lemma call_roomy:
  assumes "wf s" "call_ok storable timely k" "roomy (j + 1) (look s)" "0 \<le> j" "j \<le> 9223372036854775807"
  shows "roomy j (look (call_state ops k s))"
proof -
  have one: "roomy 1 (look s)" and same: "roomy j (look s)" using assms(3,4) by (auto intro: roomy_mono)
  from assms(1,2) one show ?thesis
  proof (cases rule: call_look)
    case (resolve c now r)
    then show ?thesis using same assms(3) unfolding resolve(4) by (auto simp: roomy_def keeps_frame)
  qed (use same assms in \<open>auto simp: roomy_def keeps_frame swept_Some_iff\<close>)
qed

text \<open>
  The central promise of a limited link: whatever is called in whatever order, and whichever
  calls fail, a link is resolved at most as often as its limit allows.
\<close>

lemma hits_le_limit:
  assumes "wf s" "list_all (call_ok storable timely) ks" "roomy (int (length ks)) (look s)"
    "int (length ks) \<le> 9223372036854775807" "list_all (\<lambda>k. \<not> creates c k) ks"
    "look s c = None \<or> (\<exists>r m. look s c = Some r \<and> r_MaxUsages r = Some m \<and> m - r_UsedCount r \<le> n)" "0 \<le> n"
  shows "int (hits ops c ks s) \<le> n"
  using assms
proof (induction ks arbitrary: s n)
  case (Cons k ks)
  have ok: "call_ok storable timely k" and room: "roomy (int (length ks) + 1) (look s)"
    and one: "roomy 1 (look s)"
    using Cons.prems(2,3) by (auto intro: roomy_mono simp: add.commute)
  have new: "\<not> creates c k" using Cons.prems(5) by simp
  let ?s = "call_state ops k s"
  have wf': "wf ?s" by (rule call_wf [OF Cons.prems(1) ok one])
  have room': "roomy (int (length ks)) (look ?s)"
    using Cons.prems(4) by (intro call_roomy [OF Cons.prems(1) ok room]) auto
  note IH = Cons.IH [OF wf' _ room' _ _ _]
  have tail: "int (hits ops c ks ?s) \<le> n'" if
    "look ?s c = None \<or> (\<exists>r m. look ?s c = Some r \<and> r_MaxUsages r = Some m \<and> m - r_UsedCount r \<le> n')" "0 \<le> n'" for n'
    by (rule IH) (use that Cons.prems in auto)
  show ?case
  proof (cases "hit ops c k s = 0")
    case True
    from Cons.prems(1) ok one
    have "look ?s c = None \<or> (\<exists>r m. look ?s c = Some r \<and> r_MaxUsages r = Some m \<and> m - r_UsedCount r \<le> n)"
    proof (cases rule: call_look)
      case (create r)
      then show ?thesis using new Cons.prems(6) by auto
    next
      case (sweep now)
      then show ?thesis using Cons.prems(6) by (cases "look s c") (auto simp: swept_def)
    next
      case (resolve c' now r)
      then show ?thesis using Cons.prems(6) by (auto simp: keeps_frame)
    qed (use Cons.prems(6) in auto)
    from tail [OF this Cons.prems(7)] True show ?thesis by simp
  next
    case False
    then obtain now where k: "k = CallResolve c now" and hit: "hit ops c k s = 1"
      and "is_ok (fst (op_ResolveRule ops c now s))"
      by (cases k) (auto split: if_splits)
    then obtain r' s' where d: "op_ResolveRule ops c now s = (Inr r', s')"
      by (metis is_ok_iff prod.collapse)
    have t: "timely now" using ok k by simp
    from resolve_Inr [OF Cons.prems(1) t one d] obtain r where
      r: "look s c = Some r" "\<not> fst (Expired r now)" "look s' = (look s)(c \<mapsto> keeps (used r now))" by blast
    have w: "wrap64 (r_UsedCount r + 1) = r_UsedCount r + 1" by (rule roomy_room [OF one _ r(1)]) simp
    obtain m where m: "r_MaxUsages r = Some m" "m - r_UsedCount r \<le> n" using Cons.prems(6) r(1) by auto
    have "r_UsedCount r < m" using r(2) m(1) by (auto simp: Expired_iff)
    then have "int (hits ops c ks ?s) \<le> n - 1"
      using m r(3) w d k by (intro tail) (auto simp: keeps_frame)
    with hit show ?thesis by simp
  qed
qed simp

end

section \<open>Creation\<close>

text \<open>The codes that up to \<open>k\<close> attempts draw.\<close>

fun drawn :: "nat \<Rightarrow> generator \<Rightarrow> entropy \<Rightarrow> string list" where
  "drawn 0 g src = []"
| "drawn (Suc k) g src =
     (case Generate g src of (Inl e, src') \<Rightarrow> [] | (Inr c, src') \<Rightarrow> c # drawn k g src')"

text \<open>A rule that the store can hold under any code.\<close>

definition storable_as :: "(rule \<Rightarrow> bool) \<Rightarrow> rule \<Rightarrow> bool" where
  "storable_as storable r \<longleftrightarrow> (\<forall>c. storable (r\<lparr>r_Code := c\<rparr>))"

lemma storable_as_code [simp]: "storable_as P (r\<lparr>r_Code := c\<rparr>) = storable_as P r"
  by (simp add: storable_as_def)

lemma storable_asD: "storable_as P r \<Longrightarrow> P (r\<lparr>r_Code := c\<rparr>)"
  by (simp add: storable_as_def)

lemma storable_as_self: "storable_as P r \<Longrightarrow> P r"
  using storable_asD [of P r "r_Code r"] by simp

context rule_store
begin

lemma create_grows:
  assumes "wf s" "storable r" "op_CreateRule ops r s = (res, s')"
  shows "look s \<subseteq>\<^sub>m look s'"
  by (cases res) (use assms create_Inl [OF assms(1,2)] create_Inr [OF assms(1,2)] in \<open>auto simp: map_le_def\<close>)

lemma create_generated_Inr:
  assumes "svc_store svc = ops" "wf s" "storable_as storable r"
    "create_generated k svc r (s, src) = (Inr r', (s', src'))"
  shows "wf s'" "\<exists>c. r' = r\<lparr>r_Code := c\<rparr> \<and> length c = nat (gen_length (svc_generator svc))
      \<and> list_all is_alnum c \<and> look s c = None \<and> look s' c = Some (keeps r')"
    "look s \<subseteq>\<^sub>m look s'"
proof -
  have "wf s' \<and> (\<exists>c. r' = r\<lparr>r_Code := c\<rparr> \<and> length c = nat (gen_length (svc_generator svc))
      \<and> list_all is_alnum c \<and> look s c = None \<and> look s' c = Some (keeps r')) \<and> look s \<subseteq>\<^sub>m look s'"
    using assms(2-4)
  proof (induction k arbitrary: r s src)
    case (Suc k)
    obtain c src1 where g: "Generate (svc_generator svc) src = (Inr c, src1)"
      using Suc.prems(3) by (auto split: prod.splits sum.splits)
    obtain res s1 where cr: "op_CreateRule ops (r\<lparr>r_Code := c\<rparr>) s = (res, s1)" by fastforce
    note st = storable_asD [OF Suc.prems(2), of c]
    show ?case
    proof (cases res)
      case (Inl e)
      then have "create_generated k svc (r\<lparr>r_Code := c\<rparr>) (s1, src1) = (Inr r', (s', src'))"
        using Suc.prems(3) g cr assms(1) by (auto split: if_splits)
      from Suc.IH [OF create_wf [OF Suc.prems(1) st cr] _ this] Suc.prems(2)
      have "wf s'" and le: "look s1 \<subseteq>\<^sub>m look s'" and "\<exists>d. r' = r\<lparr>r_Code := d\<rparr>
        \<and> length d = nat (gen_length (svc_generator svc)) \<and> list_all is_alnum d
        \<and> look s1 d = None \<and> look s' d = Some (keeps r')" by auto
      moreover have le1: "look s \<subseteq>\<^sub>m look s1" by (rule create_grows [OF Suc.prems(1) st cr])
      moreover have "look s d = None" if "look s1 d = None" for d
        using le1 that by (metis domIff map_le_def)
      ultimately show ?thesis using map_le_trans [OF le1 le] by blast
    next
      case (Inr r2)
      then have r': "r' = r2" "s' = s1" using Suc.prems(3) g cr assms(1) by auto
      have "r2 = r\<lparr>r_Code := c\<rparr> \<and> look s c = None \<and> look s1 c = Some (keeps r2)"
        using create_Inr [OF Suc.prems(1) st] cr Inr by auto
      then show ?thesis unfolding r'
        using create_wf [OF Suc.prems(1) st cr] create_grows [OF Suc.prems(1) st cr] Generate_Inr [OF g]
        by blast
    qed
  qed simp
  then show "wf s'" "\<exists>c. r' = r\<lparr>r_Code := c\<rparr> \<and> length c = nat (gen_length (svc_generator svc))
      \<and> list_all is_alnum c \<and> look s c = None \<and> look s' c = Some (keeps r')" "look s \<subseteq>\<^sub>m look s'"
    by blast+
qed

text \<open>On a store that does not fail, the first free code that is drawn is taken.\<close>

lemma create_generated_quiet:
  assumes "svc_store svc = ops" "wf s" "quiet s" "storable_as storable r" "0 < gen_length (svc_generator svc)"
    "\<forall>i. \<exists>n. src i = Draw n"
  shows "\<exists>s' src'. create_generated k svc r (s, src) =
    (case find (\<lambda>c. look s c = None) (drawn k (svc_generator svc) src) of
       None \<Rightarrow> Inl (OtherError ''could not generate a unique short code'')
     | Some c \<Rightarrow> Inr (r\<lparr>r_Code := c\<rparr>), (s', src'))
    \<and> look s' = (case find (\<lambda>c. look s c = None) (drawn k (svc_generator svc) src) of
       None \<Rightarrow> look s | Some c \<Rightarrow> (look s)(c \<mapsto> keeps (r\<lparr>r_Code := c\<rparr>)))"
  using assms(2-4,6)
proof (induction k arbitrary: r s src)
  case (Suc k)
  let ?g = "svc_generator svc"
  obtain c src1 where g: "Generate ?g src = (Inr c, src1)"
    using generate_loop_no_fail [OF Suc.prems(4)] assms(5) by (force simp: Generate_def)
  have src1: "\<forall>i. \<exists>n. src1 i = Draw n"
    using generate_loop_rest [of "nat (gen_length ?g)" src] g Suc.prems(4) assms(5)
    by (auto simp: Generate_def)
  obtain res s1 where cr: "op_CreateRule ops (r\<lparr>r_Code := c\<rparr>) s = (res, s1)" by fastforce
  note st = storable_asD [OF Suc.prems(3), of c]
  note q = create_quiet [OF Suc.prems(1,2) st cr]
  show ?case
  proof (cases "look s c = None")
    case True
    then have res: "res = Inr (r\<lparr>r_Code := c\<rparr>)" using q by simp
    then have "look s1 = (look s)(c \<mapsto> keeps (r\<lparr>r_Code := c\<rparr>))"
      using create_Inr [OF Suc.prems(1) st] cr by auto
    with True g cr res assms(1) show ?thesis by auto
  next
    case False
    then have res: "res = Inl ErrAlreadyExists" "look s1 = look s" "quiet s1" using q by auto
    have wf1: "wf s1" by (rule create_wf [OF Suc.prems(1) st cr])
    from Suc.IH [OF wf1 res(3) _ src1, of "r\<lparr>r_Code := c\<rparr>"] Suc.prems(3) False g cr res(1) assms(1)
    show ?thesis by (cases "find (\<lambda>c. look s c = None) (drawn k ?g src1)") (auto simp: res(2) fun_eq_iff)
  qed
qed simp

text \<open>
  \<open>CreateRule\<close> of the service: what a successful creation leaves, on any store, and the exact
  result on a store that does not fail.
\<close>

lemma service_create_Inr:
  assumes "svc_store svc = ops" "wf s"
    "\<And>r. ruleFromInput (svc_rejectPrivateTargets svc) input (svc_Now svc wall) = Inr r \<Longrightarrow> storable_as storable r"
    "svc_CreateRule svc wall input (s, src) = (Inr r', (s', src'))"
  obtains r where "ruleFromInput (svc_rejectPrivateTargets svc) input (svc_Now svc wall) = Inr r"
    "r' = r\<lparr>r_Code := r_Code r'\<rparr>" "look s (r_Code r') = None" "look s' (r_Code r') = Some (keeps r')"
    "look s \<subseteq>\<^sub>m look s'" "wf s'"
    "if r_Code r = [] then length (r_Code r') = nat (gen_length (svc_generator svc)) \<and> list_all is_alnum (r_Code r')
     else r' = r \<and> alias_pattern (r_Code r')"
proof -
  obtain r where r: "ruleFromInput (svc_rejectPrivateTargets svc) input (svc_Now svc wall) = Inr r"
    using assms(4) by (auto simp: svc_CreateRule_def split: sum.splits)
  note st = assms(3) [OF r]
  show thesis
  proof (cases "r_Code r = []")
    case True
    then have cg: "create_generated 10 svc r (s, src) = (Inr r', (s', src'))"
      using assms(4) r by (simp add: svc_CreateRule_def)
    note c = create_generated_Inr [OF assms(1,2) st cg]
    from c(2) obtain c where "r' = r\<lparr>r_Code := c\<rparr>" "length c = nat (gen_length (svc_generator svc))"
      "list_all is_alnum c" "look s c = None" "look s' c = Some (keeps r')" by blast
    with c(1,3) True r show thesis by (intro that [of r]) auto
  next
    case False
    then have cr: "op_CreateRule ops r s = (Inr r', s')"
      using assms(1,4) r by (auto simp: svc_CreateRule_def split: prod.splits sum.splits)
    note st' = storable_as_self [OF st]
    have "r' = r \<and> look s (r_Code r) = None \<and> look s' (r_Code r) = Some (keeps r)"
      using create_Inr [OF assms(2) st' cr] by simp
    with False show thesis
      using that [OF r] create_wf [OF assms(2) st' cr] create_grows [OF assms(2) st' cr] ruleFromInput_Inr(3) [OF r]
      by auto
  qed
qed

lemma service_create_alias_quiet:
  assumes "svc_store svc = ops" "wf s" "quiet s" "storable r"
    "ruleFromInput (svc_rejectPrivateTargets svc) input (svc_Now svc wall) = Inr r" "r_Code r \<noteq> []"
  shows "fst (svc_CreateRule svc wall input (s, src)) =
    (if look s (r_Code r) = None then Inr r else Inl ErrAlreadyExists)"
proof -
  obtain res s' where cr: "op_CreateRule ops r s = (res, s')" by fastforce
  then show ?thesis using create_quiet [OF assms(2-4) cr] assms(1,5,6)
    by (simp add: svc_CreateRule_def)
qed

text \<open>A created link is found again under its code, also with space around it.\<close>

lemma service_create_then_get:
  assumes "svc_store svc = ops" "wf s"
    "\<And>r. ruleFromInput (svc_rejectPrivateTargets svc) input (svc_Now svc wall) = Inr r \<Longrightarrow> storable_as storable r"
    "svc_CreateRule svc wall input (s, src) = (Inr r', (s', src'))"
    "svc_GetRule svc raw s' = (Inr r2, s2)" "trim_space raw = r_Code r'"
  shows "r2 = keeps r'"
proof -
  obtain "wf s'" "look s' (r_Code r') = Some (keeps r')"
    by (rule service_create_Inr [OF assms(1-4)]) auto
  moreover have "op_GetRule ops (r_Code r') s' = (Inr r2, s2)"
    using assms(1,5,6) by (auto simp: svc_GetRule_def validateCode_Inr split: sum.splits)
  ultimately show ?thesis using get_Inr by fastforce
qed

text \<open>The exact outcome of a resolution on a store that does not fail.\<close>

lemma service_resolve_quiet:
  assumes "svc_store svc = ops" "wf s" "quiet s" "timely (svc_Now svc wall)" "roomy 1 (look s)"
  shows "fst (svc_ResolveRule svc wall raw s) =
    (case validateCode raw of
       Inl e \<Rightarrow> Inl e
     | Inr c \<Rightarrow>
         (case look s c of
            None \<Rightarrow> Inl ErrNotFound
          | Some r \<Rightarrow>
              if fst (Expired r (svc_Now svc wall))
              then Inl (ExpiredError r (snd (Expired r (svc_Now svc wall))))
              else Inr (used r (svc_Now svc wall))))"
proof (cases "validateCode raw")
  case (Inr c)
  obtain res s' where d: "op_ResolveRule ops c (svc_Now svc wall) s = (res, s')" by fastforce
  from resolve_quiet [OF assms(2-5) d] Inr d assms(1) show ?thesis by (simp add: svc_ResolveRule_def)
qed (simp add: svc_ResolveRule_def)

end

end
