(* ===== verification/RowStore.thy ===== *)
theory RowStore
  imports RowTable Shortener
begin

text \<open>
  The part the two SQL stores share. \<open>sqlite/store.go\<close> and \<open>postgres/store.go\<close> are written
  alike: the same statements, the same checks and the same texts around the errors of their
  drivers. The operations here take what differs as arguments (the key and the scan of a row,
  the row of a rule, the text of a driver error, the test for a taken key, the condition of
  the bulk deletion, the update of a use). Each store defines its own operations from its own
  source and shows that they are these; the laws of the store contract are proved here once.
\<close>

definition rs_touchless :: "('e \<Rightarrow> string) \<Rightarrow> (('row, 'e) db, svc_error, unit) call" where
  "rs_touchless etext d =
     (case db_call (\<lambda>_. ()) d of (Inl e, d') \<Rightarrow> (Inl (OtherError (etext e)), d') | (Inr u, d') \<Rightarrow> (Inr u, d'))"

definition rs_CreateRule ::
  "('row \<Rightarrow> string) \<Rightarrow> (rule \<Rightarrow> 'row) \<Rightarrow> ('e \<Rightarrow> string) \<Rightarrow> ('e \<Rightarrow> bool)
    \<Rightarrow> rule \<Rightarrow> (('row, 'e) db, svc_error, rule) call" where
  "rs_CreateRule key mk etext uniq r d =
     (case db_exec (sql_insert key (db_conflict d) (mk r)) d of
        (Inl e, d') \<Rightarrow>
          if uniq e then (Inl ErrAlreadyExists, d')
          else (Inl (OtherError (''insert rule: '' @ etext e)), d')
      | (Inr _, d') \<Rightarrow> (Inr r, d'))"

definition rs_GetRule ::
  "('row \<Rightarrow> string) \<Rightarrow> ('row \<Rightarrow> string + rule) \<Rightarrow> ('e \<Rightarrow> string)
    \<Rightarrow> string \<Rightarrow> (('row, 'e) db, svc_error, rule) call" where
  "rs_GetRule key scanRule etext code d =
     (case db_call (find_row key code) d of
        (Inl e, d') \<Rightarrow> (Inl (OtherError (''get rule: '' @ etext e)), d')
      | (Inr None, d') \<Rightarrow> (Inl ErrNotFound, d')
      | (Inr (Some row), d') \<Rightarrow>
          (case scanRule row of
             Inl e \<Rightarrow> (Inl (OtherError (''get rule: '' @ e)), d')
           | Inr r \<Rightarrow> (Inr r, d')))"

definition rs_DeleteRule ::
  "('row \<Rightarrow> string) \<Rightarrow> ('e \<Rightarrow> string) \<Rightarrow> string \<Rightarrow> (('row, 'e) db, svc_error, unit) call" where
  "rs_DeleteRule key etext code d =
     (case db_exec (sql_delete (\<lambda>x. key x = code)) d of
        (Inl e, d1) \<Rightarrow> (Inl (OtherError (''delete rule: '' @ etext e)), d1)
      | (Inr n, d1) \<Rightarrow>
          (case db_call (\<lambda>_. n) d1 of
             (Inl e, d2) \<Rightarrow> (Inl (OtherError (''delete rule rows affected: '' @ etext e)), d2)
           | (Inr rows, d2) \<Rightarrow> if rows = 0 then (Inl ErrNotFound, d2) else (Inr (), d2)))"

definition rs_DeleteExpired ::
  "(instant \<Rightarrow> 'row \<Rightarrow> bool) \<Rightarrow> ('e \<Rightarrow> string) \<Rightarrow> instant \<Rightarrow> (('row, 'e) db, svc_error, int) call" where
  "rs_DeleteExpired cond etext now d =
     (case db_exec (sql_delete (cond now)) d of
        (Inl e, d1) \<Rightarrow> (Inl (OtherError (''delete expired rules: '' @ etext e)), d1)
      | (Inr n, d1) \<Rightarrow>
          (case db_call (\<lambda>_. n) d1 of
             (Inl e, d2) \<Rightarrow> (Inl (OtherError (''delete expired rules rows affected: '' @ etext e)), d2)
           | (Inr rows, d2) \<Rightarrow> (Inr rows, d2)))"

definition rs_ResolveRule ::
  "('row \<Rightarrow> string) \<Rightarrow> ('row \<Rightarrow> string + rule) \<Rightarrow> ('e \<Rightarrow> string)
    \<Rightarrow> (('row, 'e) db \<Rightarrow> instant \<Rightarrow> string \<Rightarrow> 'row list \<Rightarrow> 'e + int \<times> 'row list)
    \<Rightarrow> string \<Rightarrow> instant \<Rightarrow> (('row, 'e) db, svc_error, rule) call" where
  "rs_ResolveRule key scanRule etext upd code now d =
     (case db_call (\<lambda>rs. rs) d of
        (Inl e, d1) \<Rightarrow> (Inl (OtherError (''begin resolve transaction: '' @ etext e)), d1)
      | (Inr w, d1) \<Rightarrow>
          (case db_call (\<lambda>_. find_row key code w) d1 of
             (Inl e, d2) \<Rightarrow> (Inl (OtherError (''load rule for resolve: '' @ etext e)), d2)
           | (Inr None, d2) \<Rightarrow> (Inl ErrNotFound, d2)
           | (Inr (Some row), d2) \<Rightarrow>
               (case scanRule row of
                  Inl e \<Rightarrow> (Inl (OtherError (''load rule for resolve: '' @ e)), d2)
                | Inr r \<Rightarrow>
                    if fst (Expired r now) then (Inl (ExpiredError r (snd (Expired r now))), d2)
                    else
                      (case tx_exec (upd d now code) w d2 of
                         (Inl e, d3) \<Rightarrow> (Inl (OtherError (''update rule usage: '' @ etext e)), d3)
                       | (Inr w', d3) \<Rightarrow>
                           (case tx_commit w' d3 of
                              (Inl e, d4) \<Rightarrow> (Inl (OtherError (''commit resolve transaction: '' @ etext e)), d4)
                            | (Inr _, d4) \<Rightarrow> (Inr (used r now), d4))))))"

definition rs_ops ::
  "('row \<Rightarrow> string) \<Rightarrow> (rule \<Rightarrow> 'row) \<Rightarrow> ('row \<Rightarrow> string + rule) \<Rightarrow> ('e \<Rightarrow> string) \<Rightarrow> ('e \<Rightarrow> bool)
    \<Rightarrow> (instant \<Rightarrow> 'row \<Rightarrow> bool)
    \<Rightarrow> (('row, 'e) db \<Rightarrow> instant \<Rightarrow> string \<Rightarrow> 'row list \<Rightarrow> 'e + int \<times> 'row list)
    \<Rightarrow> ('row, 'e) db store_ops" where
  "rs_ops key mk scanRule etext uniq cond upd =
     \<lparr>op_Ping = rs_touchless etext, op_Close = rs_touchless etext,
      op_CreateRule = rs_CreateRule key mk etext uniq, op_GetRule = rs_GetRule key scanRule etext,
      op_DeleteRule = rs_DeleteRule key etext, op_DeleteExpired = rs_DeleteExpired cond etext,
      op_ResolveRule = rs_ResolveRule key scanRule etext upd\<rparr>"

text \<open>The rule of a row, its table well-formed, and a database whose calls will not fail.\<close>

definition rs_scan :: "('row \<Rightarrow> string + rule) \<Rightarrow> 'row \<Rightarrow> rule option" where
  "rs_scan scanRule row = (case scanRule row of Inl _ \<Rightarrow> None | Inr r \<Rightarrow> Some r)"

lemma rs_scan_Some [simp]: "rs_scan scanRule row = Some r \<longleftrightarrow> scanRule row = Inr r"
  by (simp add: rs_scan_def split: sum.split)

definition rs_quiet :: "('e \<Rightarrow> bool) \<Rightarrow> ('row, 'e) db \<Rightarrow> bool" where
  "rs_quiet uniq d \<longleftrightarrow> no_faults d \<and> uniq (db_conflict d)"

lemma rs_quiet_frame: "db_frame d d' \<Longrightarrow> rs_quiet uniq d \<Longrightarrow> rs_quiet uniq d'"
  by (auto simp: rs_quiet_def db_frame_def same_errors_def no_faults_def)

section \<open>What the operations do to the rows\<close>

lemma rs_touchless_rows: "rs_touchless etext d = (u, d') \<Longrightarrow> db_rows d' = db_rows d \<and> db_frame d d'"
  by (auto simp: rs_touchless_def dest: db_call_rows db_call_frame split: prod.splits sum.splits)

lemma rs_get_rows: "rs_GetRule key scanRule etext c d = (res, d') \<Longrightarrow> db_rows d' = db_rows d \<and> db_frame d d'"
  by (auto simp: rs_GetRule_def dest: db_call_rows db_call_frame split: prod.splits sum.splits option.splits)

lemma rs_delete_cases:
  assumes "rs_DeleteRule key etext c d = (v, d')"
  shows "v = Inr () \<Longrightarrow> db_rows d' = filter (\<lambda>x. key x \<noteq> c) (db_rows d)
      \<and> filter (\<lambda>x. key x = c) (db_rows d) \<noteq> []"
    "v = Inl ErrNotFound \<Longrightarrow> db_rows d' = filter (\<lambda>x. key x \<noteq> c) (db_rows d)
      \<and> filter (\<lambda>x. key x = c) (db_rows d) = []"
    "db_rows d' = db_rows d \<or> db_rows d' = filter (\<lambda>x. key x \<noteq> c) (db_rows d)"
  using assms
  by (auto simp: rs_DeleteRule_def sql_delete_Inr dest!: db_exec_Inr db_exec_Inl db_call_Inr
      dest: db_call_rows split: prod.splits sum.splits if_splits)

lemma rs_sweep_cases:
  assumes "rs_DeleteExpired cond etext now d = (n, d')"
  shows "n = Inr k \<Longrightarrow> k = int (length (filter (cond now) (db_rows d)))
      \<and> db_rows d' = filter (\<lambda>x. \<not> cond now x) (db_rows d)"
    "db_rows d' = db_rows d \<or> db_rows d' = filter (\<lambda>x. \<not> cond now x) (db_rows d)"
  using assms
  by (auto simp: rs_DeleteExpired_def sql_delete_Inr dest!: db_exec_Inr db_exec_Inl db_call_Inr
      dest: db_call_rows split: prod.splits sum.splits)

lemma rs_delete_frame: "rs_DeleteRule key etext c d = (v, d') \<Longrightarrow> db_frame d d'"
  unfolding rs_DeleteRule_def
  by (auto dest!: db_exec_frame db_call_frame intro: db_frame_trans split: prod.splits sum.splits if_splits)

lemma rs_sweep_frame: "rs_DeleteExpired cond etext now d = (v, d') \<Longrightarrow> db_frame d d'"
  unfolding rs_DeleteExpired_def
  by (auto dest!: db_exec_frame db_call_frame intro: db_frame_trans split: prod.splits sum.splits)

lemma rs_create_frame: "rs_CreateRule key mk etext uniq r d = (v, d') \<Longrightarrow> db_frame d d'"
  unfolding rs_CreateRule_def
  by (auto dest!: db_exec_frame split: prod.splits sum.splits if_splits)

lemma rs_sweep_quiet:
  assumes "no_faults d" "rs_DeleteExpired cond etext now d = (n, d')"
  shows "is_ok n"
proof -
  let ?d = "d\<lparr>db_rows := filter (\<lambda>x. \<not> cond now x) (db_rows d)\<rparr>"
  let ?n = "int (length (filter (cond now) (db_rows d)))"
  have "db_exec (sql_delete (cond now)) d = (Inr ?n, ?d)"
    by (simp add: no_faults_eqs [OF assms(1)] sql_delete_def)
  moreover have "db_call (\<lambda>_. ?n) ?d = (Inr ?n, ?d)"
    by (rule no_faults_eqs(1)) (simp add: assms(1))
  ultimately have "n = Inr ?n" using assms(2) by (simp add: rs_DeleteExpired_def)
  then show ?thesis by simp
qed

lemma frame_call: "(\<And>v d1. x = (v, d1) \<Longrightarrow> db_frame d d1 \<Longrightarrow> db_frame d (snd (f v d1))) \<Longrightarrow>
    db_frame d (snd x) \<Longrightarrow> db_frame d (snd (case x of (v, d1) \<Rightarrow> f v d1))"
  by (cases x) simp

lemma frame_snd: "db_frame d d1 \<Longrightarrow> db_frame d (snd (db_call f d1))"
    "db_frame d d1 \<Longrightarrow> db_frame d (snd (tx_exec st w d1))"
    "db_frame d d1 \<Longrightarrow> db_frame d (snd (tx_commit w d1))"
  by (metis db_frames db_frame_trans prod.collapse)+

lemma rs_resolve_frame:
  assumes "rs_ResolveRule key scanRule etext upd c now d = (res, d')"
  shows "db_frame d d'"
proof -
  have "db_frame d (snd (rs_ResolveRule key scanRule etext upd c now d))"
    unfolding rs_ResolveRule_def
    by (intro frame_call | simp add: frame_snd split: sum.split option.split | intro allI impI conjI)+
  then show ?thesis using assms by simp
qed

text \<open>
  A resolution either leaves the rows alone and returns an error, or reads an unexpired rule,
  updates the copy, and commits it; a failing commit may or may not have taken effect.
\<close>

lemma rs_resolve_cases:
  assumes "rs_ResolveRule key scanRule etext upd c now d = (res, d')"
  obtains (other) m where "res = Inl (OtherError m)" "db_rows d' = db_rows d"
  | (missing) "res = Inl ErrNotFound" "db_rows d' = db_rows d" "find_row key c (db_rows d) = None"
  | (expired) row r reason where "res = Inl (ExpiredError r reason)" "db_rows d' = db_rows d"
      "find_row key c (db_rows d) = Some row" "scanRule row = Inr r" "Expired r now = (True, reason)"
  | (updated) row r n rs where "find_row key c (db_rows d) = Some row" "scanRule row = Inr r"
      "\<not> fst (Expired r now)" "upd d now c (db_rows d) = Inr (n, rs)" "db_rows d' = rs"
      "res = Inr (used r now) \<or> (\<exists>m. res = Inl (OtherError m))"
proof -
  obtain v1 d1 where 1: "db_call (\<lambda>rs. rs) d = (v1, d1)" by fastforce
  show thesis
  proof (cases v1)
    case (Inl e)
    then show thesis using assms 1 other db_call_rows [OF 1] by (auto simp: rs_ResolveRule_def)
  next
    case w: (Inr w)
    then have w': "w = db_rows d" "db_rows d1 = db_rows d" using db_call_Inr [of "\<lambda>rs. rs" d w d1] 1 by auto
    obtain v2 d2 where 2: "db_call (\<lambda>_. find_row key c w) d1 = (v2, d2)" by fastforce
    note rows2 = db_call_rows [OF 2, unfolded w'(2)]
    show thesis
    proof (cases v2)
      case (Inl e)
      then show thesis using assms 1 2 w other rows2 by (auto simp: rs_ResolveRule_def)
    next
      case (Inr row')
      then have row': "row' = find_row key c (db_rows d)" using db_call_Inr [of _ d1 row' d2] 2 w'(1) by auto
      show thesis
      proof (cases row')
        case None
        then show thesis using assms 1 2 w Inr missing rows2 row' by (auto simp: rs_ResolveRule_def)
      next
        case row: (Some row)
        show thesis
        proof (cases "scanRule row")
          case (Inl e)
          then show thesis using assms 1 2 w \<open>v2 = Inr row'\<close> row other rows2 by (auto simp: rs_ResolveRule_def)
        next
          case r: (Inr r)
          note sofar = assms 1 2 w \<open>v2 = Inr row'\<close> row r
          show thesis
          proof (cases "fst (Expired r now)")
            case True
            then have "res = Inl (ExpiredError r (snd (Expired r now)))" "d' = d2"
              using sofar by (simp_all add: rs_ResolveRule_def)
            moreover have "Expired r now = (True, snd (Expired r now))" using True by (simp add: prod_eq_iff)
            ultimately show thesis
              using expired [OF _ _ row' [symmetric, unfolded row] r] rows2 by metis
          next
            case False
            obtain v3 d3 where 3: "tx_exec (upd d now c) w d2 = (v3, d3)" by fastforce
            note rows3 = tx_exec_rows [OF 3, unfolded rows2]
            show thesis
            proof (cases v3)
              case (Inl e)
              then show thesis using sofar False 3 other rows3 by (auto simp: rs_ResolveRule_def)
            next
              case rs: (Inr rs)
              then obtain n where n: "upd d now c (db_rows d) = Inr (n, rs)"
                using tx_exec_Inr [of "upd d now c" w d2 rs d3] 3 w'(1) by auto
              obtain v4 where 4: "tx_commit rs d3 = (v4, d')"
                and res: "v4 = Inr () \<and> res = Inr (used r now) \<or> (\<exists>e m. v4 = Inl e \<and> res = Inl (OtherError m))"
                using sofar False 3 rs by (auto simp: rs_ResolveRule_def split: prod.splits sum.splits)
              have "db_rows d' = db_rows d \<and> (\<exists>m. res = Inl (OtherError m)) \<or> db_rows d' = rs"
                using tx_commit_Inr [of rs d3 "()" d'] tx_commit_Inl [of rs d3 _ d'] 4 res rows3 by auto
              then show thesis
                using other updated [OF row' [symmetric, unfolded row] r False n] res by blast
            qed
          qed
        qed
      qed
    qed
  qed
qed

section \<open>The contract\<close>

definition rs_wf ::
  "('row \<Rightarrow> string) \<Rightarrow> (rule \<Rightarrow> 'row) \<Rightarrow> ('row \<Rightarrow> string + rule) \<Rightarrow> (rule \<Rightarrow> bool) \<Rightarrow> ('row, 'e) db \<Rightarrow> bool" where
  "rs_wf key mk scanRule good d = table_ok key (rs_scan scanRule) mk good (db_rows d)"

definition rs_look :: "('row \<Rightarrow> string) \<Rightarrow> ('row \<Rightarrow> string + rule) \<Rightarrow> ('row, 'e) db \<Rightarrow> table" where
  "rs_look key scanRule d = table_look key (rs_scan scanRule) (db_rows d)"

lemmas rs_state = rs_wf_def rs_look_def

locale row_store = row_table key "rs_scan scanRule" mk good
  for key :: "'row \<Rightarrow> string"
    and scanRule :: "'row \<Rightarrow> string + rule"
    and mk :: "rule \<Rightarrow> 'row"
    and good :: "rule \<Rightarrow> bool" +
  fixes etext :: "'e \<Rightarrow> string"
    and uniq :: "'e \<Rightarrow> bool"
    and cond :: "instant \<Rightarrow> 'row \<Rightarrow> bool"
    and upd :: "('row, 'e) db \<Rightarrow> instant \<Rightarrow> string \<Rightarrow> 'row list \<Rightarrow> 'e + int \<times> 'row list"
    and keeps :: "rule \<Rightarrow> rule"
    and storable :: "rule \<Rightarrow> bool"
    and timely :: "instant \<Rightarrow> bool"
  assumes keeps_same: "r_Code (keeps r) = r_Code r" "r_URL (keeps r) = r_URL r"
      "r_MaxUsages (keeps r) = r_MaxUsages r" "r_UsedCount (keeps r) = r_UsedCount r"
      "r_ExpiresAt (keeps r) = None \<longleftrightarrow> r_ExpiresAt r = None"
    and good_keeps: "storable r \<Longrightarrow> good (keeps r)"
    and mk_keeps: "mk (keeps r) = mk r"
    and upd_step: "table_ok key (rs_scan scanRule) mk good rows \<Longrightarrow>
      table_look key (rs_scan scanRule) rows c = Some r \<Longrightarrow> timely now \<Longrightarrow>
      wrap64 (r_UsedCount r + 1) = r_UsedCount r + 1 \<Longrightarrow>
      \<exists>n f. upd d now c rows = Inr (n, map f rows) \<and> f (mk r) = mk (keeps (used r now))
        \<and> (\<forall>row. key row \<noteq> c \<longrightarrow> f row = row) \<and> good (keeps (used r now))"
begin

lemma update_look:
  assumes "rs_wf key mk scanRule good d" "timely now" "roomy 1 (rs_look key scanRule d)"
    "find_row key c (db_rows d) = Some row" "scanRule row = Inr r"
  shows "rs_look key scanRule d c = Some r"
    "\<exists>n rs. upd d' now c (db_rows d) = Inr (n, rs)
      \<and> table_ok key (rs_scan scanRule) mk good rs
      \<and> table_look key (rs_scan scanRule) rs = (rs_look key scanRule d)(c \<mapsto> keeps (used r now))"
proof -
  note ok = assms(1) [unfolded rs_wf_def]
  show r: "rs_look key scanRule d c = Some r"
    using assms(4,5) by (simp add: rs_look_def table_look_def)
  note look = r [unfolded rs_look_def]
  obtain n f where f: "upd d' now c (db_rows d) = Inr (n, map f (db_rows d))"
      "f (mk r) = mk (keeps (used r now))" "\<And>row. key row \<noteq> c \<Longrightarrow> f row = row" "good (keeps (used r now))"
    using upd_step [OF ok look assms(2) roomy_room [OF assms(3) zero_less_one r]] by blast
  have "r_Code (keeps (used r now)) = c" using look_Some(3) [OF ok look] by (simp add: keeps_same)
  from look_update [OF ok look f(2,3,4) this] f(1)
  show "\<exists>n rs. upd d' now c (db_rows d) = Inr (n, rs)
      \<and> table_ok key (rs_scan scanRule) mk good rs
      \<and> table_look key (rs_scan scanRule) rs = (rs_look key scanRule d)(c \<mapsto> keeps (used r now))"
    by (auto simp: rs_look_def)
qed

lemma create_cases:
  assumes "rs_wf key mk scanRule good d" "storable r" "rs_CreateRule key mk etext uniq r d = (res, d')"
  shows "rs_wf key mk scanRule good d'"
    "res = Inr r' \<Longrightarrow> r' = r \<and> rs_look key scanRule d (r_Code r) = None
      \<and> rs_look key scanRule d' = (rs_look key scanRule d)(r_Code r \<mapsto> keeps r)"
    "res = Inl e \<Longrightarrow> rs_look key scanRule d' = rs_look key scanRule d
      \<or> (rs_look key scanRule d (r_Code r) = None
         \<and> rs_look key scanRule d' = (rs_look key scanRule d)(r_Code r \<mapsto> keeps r))"
proof -
  let ?ins = "sql_insert key (db_conflict d) (mk r)"
  obtain v where v: "db_exec ?ins d = (v, d')" and res: "res = Inr r \<and> is_ok v \<or> (\<exists>e. res = Inl e) \<and> \<not> is_ok v"
    using assms(3) by (auto simp: rs_CreateRule_def split: prod.splits sum.splits if_splits)
  have new: "rs_wf key mk scanRule good d' \<and> rs_look key scanRule d (r_Code r) = None
      \<and> rs_look key scanRule d' = (rs_look key scanRule d)(r_Code r \<mapsto> keeps r)"
    if "?ins (db_rows d) = Inr (n, db_rows d')" for n
    using insert_Inr [OF assms(1) [unfolded rs_wf_def] good_keeps [OF assms(2)], of "db_conflict d" n "db_rows d'"]
      that by (simp add: mk_keeps keeps_same rs_state)
  have "rs_wf key mk scanRule good d'
    \<and> (res = Inr r' \<longrightarrow> r' = r \<and> rs_look key scanRule d (r_Code r) = None
      \<and> rs_look key scanRule d' = (rs_look key scanRule d)(r_Code r \<mapsto> keeps r))
    \<and> (res = Inl e \<longrightarrow> rs_look key scanRule d' = rs_look key scanRule d
      \<or> (rs_look key scanRule d (r_Code r) = None
         \<and> rs_look key scanRule d' = (rs_look key scanRule d)(r_Code r \<mapsto> keeps r)))"
  proof (cases v)
    case (Inl e)
    then consider "db_rows d' = db_rows d" | n where "?ins (db_rows d) = Inr (n, db_rows d')"
      using db_exec_Inl v by fastforce
    then show ?thesis
      by cases (use Inl res assms(1) new in \<open>auto simp: rs_state\<close>)
  next
    case (Inr n)
    then have "?ins (db_rows d) = Inr (n, db_rows d')" using db_exec_Inr v by fastforce
    with new Inr res show ?thesis by auto
  qed
  then show "rs_wf key mk scanRule good d'"
    "res = Inr r' \<Longrightarrow> r' = r \<and> rs_look key scanRule d (r_Code r) = None
      \<and> rs_look key scanRule d' = (rs_look key scanRule d)(r_Code r \<mapsto> keeps r)"
    "res = Inl e \<Longrightarrow> rs_look key scanRule d' = rs_look key scanRule d
      \<or> (rs_look key scanRule d (r_Code r) = None
         \<and> rs_look key scanRule d' = (rs_look key scanRule d)(r_Code r \<mapsto> keeps r))"
    by blast+
qed

lemma create_when_quiet:
  assumes "rs_wf key mk scanRule good d" "rs_quiet uniq d" "rs_CreateRule key mk etext uniq r d = (res, d')"
  shows "res = (if rs_look key scanRule d (r_Code r) = None then Inr r else Inl ErrAlreadyExists)"
    "rs_look key scanRule d (r_Code r) \<noteq> None \<Longrightarrow> d' = d"
proof -
  have nf: "no_faults d" and uq: "uniq (db_conflict d)" using assms(2) by (auto simp: rs_quiet_def)
  note iff = insert_Inl [OF assms(1) [unfolded rs_wf_def], of "db_conflict d" r]
  have "res = (if rs_look key scanRule d (r_Code r) = None then Inr r else Inl ErrAlreadyExists)
    \<and> (rs_look key scanRule d (r_Code r) \<noteq> None \<longrightarrow> d' = d)"
  proof (cases "sql_insert key (db_conflict d) (mk r) (db_rows d)")
    case (Inl e)
    then have "e = db_conflict d" "rs_look key scanRule d (r_Code r) \<noteq> None" using iff by (auto simp: rs_look_def)
    then show ?thesis using assms(3) uq Inl
      by (auto simp: rs_CreateRule_def no_faults_eqs [OF nf])
  next
    case (Inr p)
    then have "rs_look key scanRule d (r_Code r) = None" using iff by (auto simp: rs_look_def)
    then show ?thesis using assms(3) Inr
      by (cases p) (simp add: rs_CreateRule_def no_faults_eqs [OF nf])
  qed
  then show "res = (if rs_look key scanRule d (r_Code r) = None then Inr r else Inl ErrAlreadyExists)"
    "rs_look key scanRule d (r_Code r) \<noteq> None \<Longrightarrow> d' = d" by auto
qed

lemma get_result:
  assumes "rs_wf key mk scanRule good d" "rs_GetRule key scanRule etext c d = (res, d')"
  shows "(\<exists>m. res = Inl (OtherError m) \<and> \<not> no_faults d) \<or>
    res = (case rs_look key scanRule d c of None \<Rightarrow> Inl ErrNotFound | Some r \<Rightarrow> Inr r)"
proof (cases "db_call (find_row key c) d")
  case (Pair v d1)
  show ?thesis
  proof (cases v)
    case (Inl e)
    then show ?thesis using assms(2) Pair no_faults_eqs(1) [of d "find_row key c"]
      by (auto simp: rs_GetRule_def)
  next
    case (Inr row)
    then have "row = find_row key c (db_rows d)" using Pair db_call_Inr by fastforce
    then show ?thesis
      using assms Inr Pair look_None [of "db_rows d" c] find_of [of "db_rows d" c]
      by (cases row) (fastforce simp: rs_GetRule_def rs_state)+
  qed
qed

lemma delete_look:
  assumes "rs_wf key mk scanRule good d" "rs_DeleteRule key etext c d = (v, d')"
  shows "rs_wf key mk scanRule good d'"
    "rs_look key scanRule d' = rs_look key scanRule d
      \<or> rs_look key scanRule d' = (rs_look key scanRule d)(c := None)"
    "v = Inr () \<Longrightarrow> rs_look key scanRule d c \<noteq> None
      \<and> rs_look key scanRule d' = (rs_look key scanRule d)(c := None)"
    "v = Inl ErrNotFound \<Longrightarrow> rs_look key scanRule d c = None"
proof -
  note ok = assms(1) [unfolded rs_wf_def]
  note rem = look_remove [OF ok, of c] look_filter(1) [OF ok, of "\<lambda>x. key x \<noteq> c"]
  note cnt = count_removed_key [OF ok, of c]
  note cs = rs_delete_cases [OF assms(2)]
  show "rs_wf key mk scanRule good d'" using cs(3) ok rem by (auto simp: rs_wf_def)
  show "rs_look key scanRule d' = rs_look key scanRule d
      \<or> rs_look key scanRule d' = (rs_look key scanRule d)(c := None)"
    using cs(3) rem by (auto simp: rs_look_def)
  show "v = Inr () \<Longrightarrow> rs_look key scanRule d c \<noteq> None
      \<and> rs_look key scanRule d' = (rs_look key scanRule d)(c := None)"
    using cs(1) rem(1) cnt unfolding rs_look_def by (metis length_0_conv)
  show "v = Inl ErrNotFound \<Longrightarrow> rs_look key scanRule d c = None"
    using cs(2) cnt unfolding rs_look_def by (metis list.size(3) zero_neq_one)
qed

lemma delete_when_quiet:
  assumes "rs_wf key mk scanRule good d" "no_faults d" "rs_DeleteRule key etext c d = (v, d')"
  shows "v = (if rs_look key scanRule d c = None then Inl ErrNotFound else Inr ())"
proof -
  let ?d = "d\<lparr>db_rows := filter (\<lambda>x. key x \<noteq> c) (db_rows d)\<rparr>"
  let ?n = "int (length (filter (\<lambda>x. key x = c) (db_rows d)))"
  have "db_exec (sql_delete (\<lambda>x. key x = c)) d = (Inr ?n, ?d)"
    by (simp add: no_faults_eqs [OF assms(2)] sql_delete_def)
  moreover have "db_call (\<lambda>_. ?n) ?d = (Inr ?n, ?d)"
    by (rule no_faults_eqs(1)) (simp add: assms(2))
  ultimately have "v = (if ?n = 0 then Inl ErrNotFound else Inr ())"
    using assms(3) by (simp add: rs_DeleteRule_def split: if_splits)
  moreover have "?n = (if rs_look key scanRule d c = None then 0 else 1)"
    using count_removed_key [OF assms(1) [unfolded rs_wf_def], of c] by (simp add: rs_look_def)
  ultimately show ?thesis by (simp split: if_splits)
qed

lemma sweep_look:
  assumes "rs_wf key mk scanRule good d" "rs_DeleteExpired cond etext now d = (n, d')"
  shows "rs_wf key mk scanRule good d'"
    "rs_look key scanRule d' = rs_look key scanRule d
      \<or> rs_look key scanRule d' = swept (\<lambda>r. cond now (mk r)) (rs_look key scanRule d)"
    "n = Inr k \<Longrightarrow> rs_look key scanRule d' = swept (\<lambda>r. cond now (mk r)) (rs_look key scanRule d)
      \<and> k = int (card {c. \<exists>r. rs_look key scanRule d c = Some r \<and> cond now (mk r)})"
proof -
  note ok = assms(1) [unfolded rs_wf_def]
  note flt = look_filter [OF ok, of "\<lambda>x. \<not> cond now x"]
  note cnt = count_removed [OF ok, of "cond now"]
  note cs = rs_sweep_cases [OF assms(2)]
  show "rs_wf key mk scanRule good d'" using cs(2) ok flt(1) by (auto simp: rs_wf_def)
  show "rs_look key scanRule d' = rs_look key scanRule d
      \<or> rs_look key scanRule d' = swept (\<lambda>r. cond now (mk r)) (rs_look key scanRule d)"
    using cs(2) flt(2) by (auto simp: rs_look_def)
  show "n = Inr k \<Longrightarrow> rs_look key scanRule d' = swept (\<lambda>r. cond now (mk r)) (rs_look key scanRule d)
      \<and> k = int (card {c. \<exists>r. rs_look key scanRule d c = Some r \<and> cond now (mk r)})"
    using cs(1) flt(2) cnt by (auto simp: rs_look_def)
qed

lemma resolve_untouched:
  assumes "rs_wf key mk scanRule good d" "rs_ResolveRule key scanRule etext upd c now d = (res, d')"
  shows "res = Inl ErrNotFound \<Longrightarrow> rs_look key scanRule d c = None \<and> db_rows d' = db_rows d"
    "res = Inl (ExpiredError r reason) \<Longrightarrow>
      rs_look key scanRule d c = Some r \<and> Expired r now = (True, reason) \<and> db_rows d' = db_rows d"
proof -
  note none = look_None [OF assms(1) [unfolded rs_wf_def], of c]
  show "rs_look key scanRule d c = None \<and> db_rows d' = db_rows d" if "res = Inl ErrNotFound"
    by (rule rs_resolve_cases [OF assms(2)]) (use that none in \<open>auto simp: rs_look_def\<close>)
  show "rs_look key scanRule d c = Some r \<and> Expired r now = (True, reason) \<and> db_rows d' = db_rows d"
    if "res = Inl (ExpiredError r reason)"
    by (rule rs_resolve_cases [OF assms(2)]) (use that in \<open>auto simp: rs_look_def table_look_def\<close>)
qed

lemma resolve_look:
  assumes wf: "rs_wf key mk scanRule good d" and t: "timely now" and room: "roomy 1 (rs_look key scanRule d)"
    and "rs_ResolveRule key scanRule etext upd c now d = (res, d')"
  obtains (same) e where "res = Inl e" "rs_wf key mk scanRule good d'"
      "rs_look key scanRule d' = rs_look key scanRule d"
  | (updated) r where "rs_look key scanRule d c = Some r" "\<not> fst (Expired r now)"
      "rs_wf key mk scanRule good d'" "rs_look key scanRule d' = (rs_look key scanRule d)(c \<mapsto> keeps (used r now))"
      "res = Inr (used r now) \<or> (\<exists>m. res = Inl (OtherError m))"
  using assms(4)
proof (cases rule: rs_resolve_cases)
  case (updated row r n rs)
  note u = update_look [OF wf t room updated(1,2)]
  from u(2) [of d] updated(4) have "table_ok key (rs_scan scanRule) mk good rs"
      "table_look key (rs_scan scanRule) rs = (rs_look key scanRule d)(c \<mapsto> keeps (used r now))" by auto
  with u(1) updated(3,5,6) show thesis
    using that(2) [of r] by (simp add: rs_wf_def rs_look_def)
qed (use same wf in \<open>force simp: rs_state\<close>)+

lemma resolve_when_quiet:
  assumes "rs_wf key mk scanRule good d" "no_faults d" "timely now" "roomy 1 (rs_look key scanRule d)"
    "rs_ResolveRule key scanRule etext upd c now d = (res, d')"
  shows "res = (case rs_look key scanRule d c of None \<Rightarrow> Inl ErrNotFound
     | Some r \<Rightarrow> if fst (Expired r now) then Inl (ExpiredError r (snd (Expired r now))) else Inr (used r now))"
proof (cases "find_row key c (db_rows d)")
  case None
  then show ?thesis using assms(5) look_None [OF assms(1) [unfolded rs_wf_def], of c]
    by (simp add: rs_ResolveRule_def no_faults_eqs [OF assms(2)] rs_look_def)
next
  case (Some row)
  obtain r where r: "scanRule row = Inr r"
    by (rule find_of [OF assms(1) [unfolded rs_wf_def] Some]) simp
  note u = update_look [OF assms(1,3,4) Some r]
  obtain n rs where "upd d now c (db_rows d) = Inr (n, rs)" using u(2) by blast
  then show ?thesis using assms(5) Some r u(1)
    by (auto simp: rs_ResolveRule_def no_faults_eqs [OF assms(2)])
qed

end

section \<open>The sublocale\<close>

lemma rs_ops_simps [simp]:
  "op_Ping (rs_ops key mk scanRule etext uniq cond upd) = rs_touchless etext"
  "op_Close (rs_ops key mk scanRule etext uniq cond upd) = rs_touchless etext"
  "op_CreateRule (rs_ops key mk scanRule etext uniq cond upd) = rs_CreateRule key mk etext uniq"
  "op_GetRule (rs_ops key mk scanRule etext uniq cond upd) = rs_GetRule key scanRule etext"
  "op_DeleteRule (rs_ops key mk scanRule etext uniq cond upd) = rs_DeleteRule key etext"
  "op_DeleteExpired (rs_ops key mk scanRule etext uniq cond upd) = rs_DeleteExpired cond etext"
  "op_ResolveRule (rs_ops key mk scanRule etext uniq cond upd) = rs_ResolveRule key scanRule etext upd"
  by (simp_all add: rs_ops_def)

lemma rs_touchless_quiet:
  "rs_quiet uniq d \<Longrightarrow> rs_touchless etext d = (u, d') \<Longrightarrow> rs_quiet uniq d' \<and> u = Inr ()"
  by (auto simp: rs_quiet_def rs_touchless_def no_faults_eqs)

lemma rs_same_rows: "db_rows d' = db_rows d \<Longrightarrow>
    rs_wf key mk scanRule good d' = rs_wf key mk scanRule good d \<and> rs_look key scanRule d' = rs_look key scanRule d"
  by (simp add: rs_state)

sublocale row_store \<subseteq> rule_store
  "rs_ops key mk scanRule etext uniq cond upd" "rs_wf key mk scanRule good" "rs_look key scanRule"
  keeps storable timely "\<lambda>r now. cond now (mk r)" "rs_quiet uniq"
proof (unfold_locales, unfold rs_ops_simps, goal_cases)
  case (7 s u s')
  then show ?case using rs_touchless_rows [OF 7(2)] rs_same_rows [of s' s] rs_touchless_quiet [of uniq s etext u s']
    by auto
next
  case (11 s r res s')
  then show ?case using create_when_quiet [OF 11(1,2,4)] rs_quiet_frame [OF rs_create_frame [OF 11(4)]] by auto
next
  case (12 s c res s')
  then show ?case using rs_get_rows [OF 12(2)] rs_same_rows [of s' s] by auto
next
  case (13 s c r s')
  then show ?case using get_result [OF 13] by (auto split: option.splits)
next
  case (14 s c s')
  then show ?case using get_result [OF 14] by (auto split: option.splits)
next
  case (15 s c res s')
  then have "no_faults s" by (simp add: rs_quiet_def)
  then have "res = (case rs_look key scanRule s c of None \<Rightarrow> Inl ErrNotFound | Some r \<Rightarrow> Inr r)"
    using get_result [OF 15(1,3)] by blast
  moreover have "rs_quiet uniq s'" using rs_quiet_frame [of s s' uniq] rs_get_rows [OF 15(3)] 15(2) by blast
  ultimately show ?case by blast
next
  case (20 s c v s')
  then have "no_faults s" by (simp add: rs_quiet_def)
  then show ?case
    using delete_when_quiet [OF 20(1) _ 20(3)] rs_quiet_frame [OF rs_delete_frame [OF 20(3)] 20(2)] by blast
next
  case (24 s now n s')
  then have "no_faults s" by (simp add: rs_quiet_def)
  then show ?case
    using rs_sweep_quiet [OF _ 24(3)] rs_quiet_frame [OF rs_sweep_frame [OF 24(3)] 24(2)] by blast
next
  case (25 s now c res s')
  show ?case by (rule resolve_look [OF 25(1-4)]) (use 25 in auto)
next
  case (26 s now c r' s')
  show ?case by (rule resolve_look [OF 26]) auto
next
  case (27 s now c e s')
  show ?case by (rule resolve_look [OF 27(1-4)]) (use 27 in auto)
next
  case (28 s c now s')
  then show ?case using resolve_untouched(1) [OF 28] rs_same_rows [of s' s] by auto
next
  case (29 s c now r reason s')
  then show ?case using resolve_untouched(2) [OF 29] rs_same_rows [of s' s] by auto
next
  case (30 s now c res s')
  then have "no_faults s" by (simp add: rs_quiet_def)
  then show ?case
    using resolve_when_quiet [OF 30(1) _ 30(3,4,5)] rs_quiet_frame [OF rs_resolve_frame [OF 30(5)] 30(2)] by blast
next
  case (6 s c r)
  then show ?case using look_Some(3) by (simp add: rs_state)
next
  case (8 s r res s')
  then show ?case by (rule create_cases(1))
next
  case (9 s r r' s')
  then show ?case using create_cases(2) [OF 9] by blast
next
  case (10 s r e s')
  then show ?case using create_cases(3) [OF 10] by blast
next
  case (16 s c v s')
  then show ?case by (rule delete_look(1))
next
  case (17 s c s')
  then show ?case using delete_look(3) [OF 17] by blast
next
  case (18 s c e s')
  then show ?case using delete_look(2) [OF 18] by blast
next
  case (19 s c s')
  then show ?case using delete_look(4) [OF 19] by blast
next
  case (21 s now n s')
  then show ?case by (rule sweep_look(1))
next
  case (22 s now k s')
  then show ?case using sweep_look(3) [OF 22(1,3)] by blast
next
  case (23 s now e s')
  then show ?case using sweep_look(2) [OF 23(1,3)] by blast
qed (simp_all add: keeps_same)

end
