(* ===== verification/Sqlite_Store.thy ===== *)
theory Sqlite_Store
  imports RowStore
begin

text \<open>
  \<open>internal/storage/sqlite/store.go\<close>: rules in a table whose times are RFC 3339 text. The
  connection pool holds one connection (\<open>SetMaxOpenConns(1)\<close>), so the calls of a store run
  one after the other and a resolution holds the connection from its begin to its end. The
  text of a driver error is \<open>err.Error()\<close>. SQLite compares text with its binary collation,
  byte by byte. A use count that passes the largest 64-bit integer becomes a real in SQLite,
  which the scan of the row then refuses: the column is an \<open>int\<close> here and the scan checks
  its range.
\<close>

record sqlite_row =
  s_code :: string
  s_target_url :: string
  s_created_at :: string
  s_expires_at :: "string option"
  s_max_usages :: "int option"
  s_used_count :: int
  s_last_used_at :: "string option"

type_synonym sqlite = "(sqlite_row, string) db"

section \<open>Columns\<close>

definition sq_formatTime :: "instant \<Rightarrow> string" where
  "sq_formatTime t = format_rfc3339nano t"

definition sq_parseTime :: "string \<Rightarrow> string + instant" where
  "sq_parseTime s = (case parse_rfc3339nano s of None \<Rightarrow> Inl s | Some t \<Rightarrow> Inr t)"

definition sq_nullableTime :: "instant option \<Rightarrow> string option" where
  "sq_nullableTime t = (case t of None \<Rightarrow> None | Some v \<Rightarrow> Some (sq_formatTime v))"

definition sq_nullableInt :: "int option \<Rightarrow> int option" where
  "sq_nullableInt n = (case n of None \<Rightarrow> None | Some v \<Rightarrow> Some v)"

text \<open>\<open>isUniqueError\<close>: decided on the text of the error.\<close>

definition sq_isUniqueError :: "string \<Rightarrow> bool" where
  "sq_isUniqueError err =
     (let message = to_lower err in
      contains message ''unique constraint failed'' \<or> contains message ''constraint failed'')"

text \<open>\<open>scanRule\<close> of a row that was found: its error is a text.\<close>

definition sq_scanTime :: "string \<Rightarrow> string option \<Rightarrow> string + instant option" where
  "sq_scanTime what v =
     (case v of
        None \<Rightarrow> Inr None
      | Some s \<Rightarrow> (case sq_parseTime s of
                     Inl e \<Rightarrow> Inl (''parse '' @ what @ '': '' @ e)
                   | Inr t \<Rightarrow> Inr (Some t)))"

definition sq_scanRule :: "sqlite_row \<Rightarrow> string + rule" where
  "sq_scanRule row =
     (if \<not> in_int64 (s_used_count row) \<or> (case s_max_usages row of Some m \<Rightarrow> \<not> in_int64 m | None \<Rightarrow> False)
      then Inl ''sql: Scan error''
      else
        (case sq_parseTime (s_created_at row) of
           Inl e \<Rightarrow> Inl (''parse created_at: '' @ e)
         | Inr createdAt \<Rightarrow>
             (case sq_scanTime ''expires_at'' (s_expires_at row) of
                Inl e \<Rightarrow> Inl e
              | Inr expiresAt \<Rightarrow>
                  (case sq_scanTime ''last_used_at'' (s_last_used_at row) of
                     Inl e \<Rightarrow> Inl e
                   | Inr lastUsedAt \<Rightarrow>
                       Inr \<lparr>r_Code = s_code row, r_URL = s_target_url row, r_CreatedAt = createdAt,
                            r_ExpiresAt = expiresAt, r_MaxUsages = s_max_usages row,
                            r_UsedCount = s_used_count row, r_LastUsedAt = lastUsedAt\<rparr>))))"

section \<open>Statements\<close>

text \<open>The parameters of the \<open>INSERT\<close>, as a row.\<close>

definition sq_row :: "rule \<Rightarrow> sqlite_row" where
  "sq_row r = \<lparr>s_code = r_Code r, s_target_url = r_URL r,
     s_created_at = sq_formatTime (r_CreatedAt r), s_expires_at = sq_nullableTime (r_ExpiresAt r),
     s_max_usages = sq_nullableInt (r_MaxUsages r), s_used_count = r_UsedCount r,
     s_last_used_at = sq_nullableTime (r_LastUsedAt r)\<rparr>"

text \<open>The \<open>WHERE\<close> clause of the bulk deletion.\<close>

definition sq_sweep_where :: "string \<Rightarrow> sqlite_row \<Rightarrow> bool" where
  "sq_sweep_where now row \<longleftrightarrow>
     (case s_expires_at row of Some e \<Rightarrow> bytes_le e now | None \<Rightarrow> False)
   \<or> (case s_max_usages row of Some m \<Rightarrow> m \<le> s_used_count row | None \<Rightarrow> False)"

definition sq_touch :: "string \<Rightarrow> string \<Rightarrow> sqlite_row \<Rightarrow> sqlite_row" where
  "sq_touch now code row =
     (if s_code row = code
      then row\<lparr>s_used_count := s_used_count row + 1, s_last_used_at := Some now\<rparr> else row)"

definition sq_update_usage ::
  "string \<Rightarrow> string \<Rightarrow> sqlite_row list \<Rightarrow> string + int \<times> sqlite_row list" where
  "sq_update_usage now code rs =
     Inr (int (length (filter (\<lambda>x. s_code x = code) rs)), map (sq_touch now code) rs)"

section \<open>Operations\<close>

text \<open>\<open>NewStore\<close>: open, configure, migrate; \<open>Close\<close> on a failure. The rows stay.\<close>

definition sq_migrate :: "sqlite \<Rightarrow> (string + unit) \<times> sqlite" where
  "sq_migrate d =
     (case db_exec (\<lambda>rs. Inr (0, rs)) d of
        (Inl e, d') \<Rightarrow> (Inl (''migrate sqlite schema: '' @ e), d')
      | (Inr _, d') \<Rightarrow> (Inr (), d'))"

definition sq_NewStore :: "sqlite \<Rightarrow> (string + unit) \<times> sqlite" where
  "sq_NewStore d =
     (case db_call (\<lambda>_. ()) d of
        (Inl e, d1) \<Rightarrow> (Inl (''open sqlite database: '' @ e), d1)
      | (Inr _, d1) \<Rightarrow>
          (case db_exec (\<lambda>rs. Inr (0, rs)) d1 of
             (Inl e, d2) \<Rightarrow>
               (Inl (''configure sqlite busy_timeout: '' @ e), snd (db_call (\<lambda>_. ()) d2))
           | (Inr _, d2) \<Rightarrow>
               (case sq_migrate d2 of
                  (Inl e, d3) \<Rightarrow> (Inl e, snd (db_call (\<lambda>_. ()) d3))
                | (Inr _, d3) \<Rightarrow> (Inr (), d3))))"

definition sq_Ping :: "(sqlite, svc_error, unit) call" where
  "sq_Ping d = (case db_call (\<lambda>_. ()) d of (Inl e, d') \<Rightarrow> (Inl (OtherError e), d') | (Inr u, d') \<Rightarrow> (Inr u, d'))"

definition sq_Close :: "(sqlite, svc_error, unit) call" where
  "sq_Close d = (case db_call (\<lambda>_. ()) d of (Inl e, d') \<Rightarrow> (Inl (OtherError e), d') | (Inr u, d') \<Rightarrow> (Inr u, d'))"

definition sq_CreateRule :: "rule \<Rightarrow> (sqlite, svc_error, rule) call" where
  "sq_CreateRule r d =
     (case db_exec (sql_insert s_code (db_conflict d) (sq_row r)) d of
        (Inl e, d') \<Rightarrow>
          if sq_isUniqueError e then (Inl ErrAlreadyExists, d')
          else (Inl (OtherError (''insert rule: '' @ e)), d')
      | (Inr _, d') \<Rightarrow> (Inr r, d'))"

definition sq_GetRule :: "string \<Rightarrow> (sqlite, svc_error, rule) call" where
  "sq_GetRule code d =
     (case db_call (find_row s_code code) d of
        (Inl e, d') \<Rightarrow> (Inl (OtherError (''get rule: '' @ e)), d')
      | (Inr None, d') \<Rightarrow> (Inl ErrNotFound, d')
      | (Inr (Some row), d') \<Rightarrow>
          (case sq_scanRule row of
             Inl e \<Rightarrow> (Inl (OtherError (''get rule: '' @ e)), d')
           | Inr r \<Rightarrow> (Inr r, d')))"

definition sq_DeleteRule :: "string \<Rightarrow> (sqlite, svc_error, unit) call" where
  "sq_DeleteRule code d =
     (case db_exec (sql_delete (\<lambda>x. s_code x = code)) d of
        (Inl e, d1) \<Rightarrow> (Inl (OtherError (''delete rule: '' @ e)), d1)
      | (Inr n, d1) \<Rightarrow>
          (case db_call (\<lambda>_. n) d1 of
             (Inl e, d2) \<Rightarrow> (Inl (OtherError (''delete rule rows affected: '' @ e)), d2)
           | (Inr rows, d2) \<Rightarrow> if rows = 0 then (Inl ErrNotFound, d2) else (Inr (), d2)))"

definition sq_DeleteExpired :: "instant \<Rightarrow> (sqlite, svc_error, int) call" where
  "sq_DeleteExpired now d =
     (case db_exec (sql_delete (sq_sweep_where (sq_formatTime now))) d of
        (Inl e, d1) \<Rightarrow> (Inl (OtherError (''delete expired rules: '' @ e)), d1)
      | (Inr n, d1) \<Rightarrow>
          (case db_call (\<lambda>_. n) d1 of
             (Inl e, d2) \<Rightarrow> (Inl (OtherError (''delete expired rules rows affected: '' @ e)), d2)
           | (Inr rows, d2) \<Rightarrow> (Inr rows, d2)))"

text \<open>
  \<open>ResolveRule\<close>: a transaction around a query, the check of expiry and an update. Every
  return before the commit runs the deferred rollback, whose own error is dropped.
\<close>

definition sq_ResolveRule :: "string \<Rightarrow> instant \<Rightarrow> (sqlite, svc_error, rule) call" where
  "sq_ResolveRule code now d =
     (case db_call (\<lambda>rs. rs) d of
        (Inl e, d1) \<Rightarrow> (Inl (OtherError (''begin resolve transaction: '' @ e)), d1)
      | (Inr w, d1) \<Rightarrow>
          (case db_call (\<lambda>_. find_row s_code code w) d1 of
             (Inl e, d2) \<Rightarrow> (Inl (OtherError (''load rule for resolve: '' @ e)), d2)
           | (Inr None, d2) \<Rightarrow> (Inl ErrNotFound, d2)
           | (Inr (Some row), d2) \<Rightarrow>
               (case sq_scanRule row of
                  Inl e \<Rightarrow> (Inl (OtherError (''load rule for resolve: '' @ e)), d2)
                | Inr r \<Rightarrow>
                    if fst (Expired r now) then (Inl (ExpiredError r (snd (Expired r now))), d2)
                    else
                      (case tx_exec (sq_update_usage (sq_formatTime now) code) w d2 of
                         (Inl e, d3) \<Rightarrow> (Inl (OtherError (''update rule usage: '' @ e)), d3)
                       | (Inr w', d3) \<Rightarrow>
                           (case tx_commit w' d3 of
                              (Inl e, d4) \<Rightarrow> (Inl (OtherError (''commit resolve transaction: '' @ e)), d4)
                            | (Inr _, d4) \<Rightarrow> (Inr (used r now), d4))))))"

definition sqlite_ops :: "sqlite store_ops" where
  "sqlite_ops = \<lparr>op_Ping = sq_Ping, op_Close = sq_Close, op_CreateRule = sq_CreateRule,
     op_GetRule = sq_GetRule, op_DeleteRule = sq_DeleteRule, op_DeleteExpired = sq_DeleteExpired,
     op_ResolveRule = sq_ResolveRule\<rparr>"

section \<open>Well-formed tables and what they stand for\<close>

text \<open>A rule the columns hold exactly: its times have years of four digits.\<close>

definition sq_storable :: "rule \<Rightarrow> bool" where
  "sq_storable r \<longleftrightarrow> rfc3339_ok (r_CreatedAt r)
     \<and> (case r_ExpiresAt r of Some t \<Rightarrow> rfc3339_ok t | None \<Rightarrow> True)
     \<and> (case r_LastUsedAt r of Some t \<Rightarrow> rfc3339_ok t | None \<Rightarrow> True)
     \<and> (case r_MaxUsages r of Some m \<Rightarrow> in_int64 m | None \<Rightarrow> True)
     \<and> in_int64 (r_UsedCount r)"

definition sq_wf :: "sqlite \<Rightarrow> bool" where
  "sq_wf d = rs_wf s_code sq_row sq_scanRule sq_storable d"

definition sq_look :: "sqlite \<Rightarrow> table" where
  "sq_look d = rs_look s_code sq_scanRule d"

text \<open>The test of the bulk deletion, on rules.\<close>

definition sq_sweeps :: "rule \<Rightarrow> instant \<Rightarrow> bool" where
  "sq_sweeps r now = sq_sweep_where (sq_formatTime now) (sq_row r)"

text \<open>No call fails, and the engine's own error for a taken key is one the store recognises.\<close>

definition sq_quiet :: "sqlite \<Rightarrow> bool" where
  "sq_quiet d = rs_quiet sq_isUniqueError d"

text \<open>Reading back a row that was written gives the rule.\<close>

lemma sq_scan_row: "sq_storable r \<Longrightarrow> sq_scanRule (sq_row r) = Inr r"
  by (auto simp: sq_scanRule_def sq_row_def sq_storable_def sq_parseTime_def sq_scanTime_def
      sq_formatTime_def sq_nullableTime_def sq_nullableInt_def parse_format_time
      split: option.splits)

lemma sq_row_code [simp]: "s_code (sq_row r) = r_Code r"
  by (simp add: sq_row_def)

interpretation sqt: row_table s_code "rs_scan sq_scanRule" sq_row sq_storable
  by unfold_locales (simp_all add: sq_scan_row)

lemma sq_used_storable: "sq_storable r \<Longrightarrow> rfc3339_ok now \<Longrightarrow> sq_storable (used r now)"
  by (simp add: sq_storable_def split: option.splits)

lemma sq_touch_row:
  "wrap64 (r_UsedCount r + 1) = r_UsedCount r + 1 \<Longrightarrow>
   sq_touch (sq_formatTime now) (r_Code r) (sq_row r) = sq_row (used r now)"
  by (simp add: sq_touch_def) (simp add: sq_row_def sq_nullableTime_def)

lemma sq_update_step:
  assumes "table_ok s_code (rs_scan sq_scanRule) sq_row sq_storable rows"
    "table_look s_code (rs_scan sq_scanRule) rows c = Some r" "rfc3339_ok now"
    "wrap64 (r_UsedCount r + 1) = r_UsedCount r + 1"
  shows "\<exists>n f. sq_update_usage (sq_formatTime now) c rows = Inr (n, map f rows)
    \<and> f (sq_row r) = sq_row (used r now) \<and> (\<forall>row. s_code row \<noteq> c \<longrightarrow> f row = row)
    \<and> sq_storable (used r now)"
proof (intro exI conjI)
  show "sq_update_usage (sq_formatTime now) c rows
    = Inr (int (length (filter (\<lambda>x. s_code x = c) rows)), map (sq_touch (sq_formatTime now) c) rows)"
    by (simp add: sq_update_usage_def)
  show "sq_touch (sq_formatTime now) c (sq_row r) = sq_row (used r now)"
    using sq_touch_row [OF assms(4)] sqt.look_Some(3) [OF assms(1,2)] by simp
  show "\<forall>row. s_code row \<noteq> c \<longrightarrow> sq_touch (sq_formatTime now) c row = row"
    by (simp add: sq_touch_def)
  show "sq_storable (used r now)"
    by (rule sq_used_storable [OF sqt.look_Some(2) [OF assms(1,2)] assms(3)])
qed

section \<open>The contract\<close>

interpretation sqr: row_store s_code sq_scanRule sq_row sq_storable "\<lambda>e. e" sq_isUniqueError
  "\<lambda>now. sq_sweep_where (sq_formatTime now)"
  "\<lambda>d now. sq_update_usage (sq_formatTime now)" "\<lambda>r. r" sq_storable rfc3339_ok
  by unfold_locales (simp_all add: sq_update_step)

text \<open>The operations of the file are the shared ones at SQLite's arguments.\<close>

lemma sqlite_ops_rs: "sqlite_ops = rs_ops s_code sq_row sq_scanRule (\<lambda>e. e) sq_isUniqueError
    (\<lambda>now. sq_sweep_where (sq_formatTime now)) (\<lambda>d now. sq_update_usage (sq_formatTime now))"
  by (simp add: sqlite_ops_def rs_ops_def sq_Ping_def sq_Close_def rs_touchless_def sq_CreateRule_def
      rs_CreateRule_def sq_GetRule_def rs_GetRule_def sq_DeleteRule_def rs_DeleteRule_def
      sq_DeleteExpired_def rs_DeleteExpired_def sq_ResolveRule_def rs_ResolveRule_def fun_eq_iff)

interpretation sq: rule_store sqlite_ops sq_wf sq_look "\<lambda>r. r" sq_storable rfc3339_ok sq_sweeps sq_quiet
proof -
  have eqs: "sq_wf = rs_wf s_code sq_row sq_scanRule sq_storable" "sq_look = rs_look s_code sq_scanRule"
    "sq_sweeps = (\<lambda>r now. sq_sweep_where (sq_formatTime now) (sq_row r))"
    "sq_quiet = rs_quiet sq_isUniqueError"
    by (simp_all add: fun_eq_iff sq_wf_def sq_look_def sq_sweeps_def sq_quiet_def)
  show "rule_store sqlite_ops sq_wf sq_look (\<lambda>r. r) sq_storable rfc3339_ok sq_sweeps sq_quiet"
    unfolding sqlite_ops_rs eqs by (rule sqr.rule_store_axioms)
qed

section \<open>The bulk deletion and expiry\<close>

text \<open>
  The times are compared as texts, whose order agrees with the order of the instants only down
  to the second (a fraction is printed without its trailing zeros, and \<open>.\<close> sorts before \<open>Z\<close>).
  A deletion is therefore up to a second early or late.
\<close>

lemma sq_sweeps_iff:
  "sq_sweeps r now \<longleftrightarrow>
     (\<exists>e. r_ExpiresAt r = Some e \<and> bytes_le (format_rfc3339nano e) (format_rfc3339nano now))
   \<or> (\<exists>m. r_MaxUsages r = Some m \<and> m \<le> r_UsedCount r)"
  by (simp add: sq_sweeps_def sq_sweep_where_def sq_row_def sq_nullableTime_def sq_nullableInt_def
      sq_formatTime_def split: option.split)

lemma sq_sweeps_early:
  assumes "sq_storable r" "rfc3339_ok now" "sq_sweeps r now"
  shows "fst (Expired r (now + second))"
proof -
  have "e \<le> now + second" if "r_ExpiresAt r = Some e" "bytes_le (format_rfc3339nano e) (format_rfc3339nano now)" for e
  proof -
    have "rfc3339_ok e" using assms(1) that(1) by (simp add: sq_storable_def)
    then have "e div second \<le> now div second" using format_le_seconds assms(2) that(2) by blast
    then have "e div second * second \<le> now div second * second" by (simp add: second_def)
    moreover have "e = e div second * second + e mod second" "e mod second < second"
      "now = now div second * second + now mod second" "0 \<le> now mod second"
      by (simp_all add: second_def)
    ultimately show ?thesis by linarith
  qed
  then show ?thesis using assms(3) by (auto simp: sq_sweeps_iff Expired_iff)
qed

lemma sq_sweeps_late:
  assumes "sq_storable r" "rfc3339_ok now" "fst (Expired r (now - second))"
  shows "sq_sweeps r now"
proof -
  have "bytes_le (format_rfc3339nano e) (format_rfc3339nano now)"
    if "r_ExpiresAt r = Some e" "e \<le> now - second" for e
  proof -
    have ok: "rfc3339_ok e" using assms(1) that(1) by (simp add: sq_storable_def)
    have "e div second \<le> (now - second) div second" using that(2) by (intro zdiv_mono1) (simp_all add: second_def)
    also have "(now - second) div second = now div second - 1"
      using div_diff [of second second now] by (simp add: second_def)
    finally have "e div second < now div second" by simp
    then show ?thesis using format_less_seconds [OF ok assms(2)] bytes_less_asym by (simp add: bytes_le_def)
  qed
  then show ?thesis using assms(3) by (auto simp: sq_sweeps_iff Expired_iff)
qed

end
