(* ===== verification/Postgres_Store.thy ===== *)
theory Postgres_Store
  imports RowStore
begin

text \<open>
  \<open>internal/storage/postgres/store.go\<close>: rules in a table with \<open>TIMESTAMPTZ\<close> and \<open>BIGINT\<close>
  columns. What the driver and the column keep of an instant is not code of the repository: it
  is the parameter \<open>ts\<close> of every definition, of which the locale \<open>driver_time\<close> asks that it is
  monotone, keeps what it has kept once, and never moves an instant into the future (a
  \<open>TIMESTAMPTZ\<close> has a resolution of one microsecond). PostgreSQL raises an error when a
  \<open>BIGINT\<close> overflows. The transactions here run one after the other; the locking that makes
  concurrent ones behave so is in the theory of row locks.
\<close>

text \<open>A \<open>*pgconn.PgError\<close> with its SQLSTATE and message, or any other error of the driver.\<close>

datatype pg_error = PgError (pg_code: string) string | DriverError string

fun pg_text :: "pg_error \<Rightarrow> string" where
  "pg_text (PgError code message) = message"
| "pg_text (DriverError message) = message"

record pg_row =
  p_code :: string
  p_target_url :: string
  p_created_at :: instant
  p_expires_at :: "instant option"
  p_max_usages :: "int option"
  p_used_count :: int
  p_last_used_at :: "instant option"

type_synonym postgres = "(pg_row, pg_error) db"

definition pg_isUniqueError :: "pg_error \<Rightarrow> bool" where
  "pg_isUniqueError err = (case err of PgError code _ \<Rightarrow> code = ''23505'' | DriverError _ \<Rightarrow> False)"

definition pg_nullableTime :: "(instant \<Rightarrow> instant) \<Rightarrow> instant option \<Rightarrow> instant option" where
  "pg_nullableTime ts v = (case v of None \<Rightarrow> None | Some t \<Rightarrow> Some (ts t))"

definition pg_nullableInt :: "int option \<Rightarrow> int option" where
  "pg_nullableInt v = (case v of None \<Rightarrow> None | Some n \<Rightarrow> Some n)"

text \<open>\<open>scanRule\<close> of a row that was found: every column scans into its variable.\<close>

definition pg_scanRule :: "pg_row \<Rightarrow> string + rule" where
  "pg_scanRule row =
     Inr \<lparr>r_Code = p_code row, r_URL = p_target_url row, r_CreatedAt = p_created_at row,
          r_ExpiresAt = p_expires_at row, r_MaxUsages = p_max_usages row,
          r_UsedCount = p_used_count row, r_LastUsedAt = p_last_used_at row\<rparr>"

definition pg_insert_row :: "(instant \<Rightarrow> instant) \<Rightarrow> rule \<Rightarrow> pg_row" where
  "pg_insert_row ts r = \<lparr>p_code = r_Code r, p_target_url = r_URL r, p_created_at = ts (r_CreatedAt r),
     p_expires_at = pg_nullableTime ts (r_ExpiresAt r), p_max_usages = pg_nullableInt (r_MaxUsages r),
     p_used_count = r_UsedCount r, p_last_used_at = pg_nullableTime ts (r_LastUsedAt r)\<rparr>"

definition pg_sweep_where :: "instant \<Rightarrow> pg_row \<Rightarrow> bool" where
  "pg_sweep_where now row \<longleftrightarrow>
     (case p_expires_at row of Some e \<Rightarrow> e \<le> now | None \<Rightarrow> False)
   \<or> (case p_max_usages row of Some m \<Rightarrow> m \<le> p_used_count row | None \<Rightarrow> False)"

definition pg_touch :: "instant \<Rightarrow> string \<Rightarrow> pg_row \<Rightarrow> pg_row" where
  "pg_touch now code row =
     (if p_code row = code
      then row\<lparr>p_used_count := p_used_count row + 1, p_last_used_at := Some now\<rparr> else row)"

definition pg_update_usage ::
  "pg_error \<Rightarrow> instant \<Rightarrow> string \<Rightarrow> pg_row list \<Rightarrow> pg_error + int \<times> pg_row list" where
  "pg_update_usage overflow now code rs =
     (if list_ex (\<lambda>x. p_code x = code \<and> \<not> in_int64 (p_used_count x + 1)) rs then Inl overflow
      else Inr (int (length (filter (\<lambda>x. p_code x = code) rs)), map (pg_touch now code) rs))"

section \<open>Operations\<close>

definition pg_migrate :: "postgres \<Rightarrow> (string + unit) \<times> postgres" where
  "pg_migrate d =
     (case db_exec (\<lambda>rs. Inr (0, rs)) d of
        (Inl e, d') \<Rightarrow> (Inl (''migrate postgres schema: '' @ pg_text e), d')
      | (Inr _, d') \<Rightarrow> (Inr (), d'))"

definition pg_Ping :: "(postgres, svc_error, unit) call" where
  "pg_Ping d =
     (case db_call (\<lambda>_. ()) d of (Inl e, d') \<Rightarrow> (Inl (OtherError (pg_text e)), d') | (Inr u, d') \<Rightarrow> (Inr u, d'))"

definition pg_Close :: "(postgres, svc_error, unit) call" where
  "pg_Close d =
     (case db_call (\<lambda>_. ()) d of (Inl e, d') \<Rightarrow> (Inl (OtherError (pg_text e)), d') | (Inr u, d') \<Rightarrow> (Inr u, d'))"

definition pg_NewStore :: "postgres \<Rightarrow> (string + unit) \<times> postgres" where
  "pg_NewStore d =
     (case db_call (\<lambda>_. ()) d of
        (Inl e, d1) \<Rightarrow> (Inl (''open postgres database: '' @ pg_text e), d1)
      | (Inr _, d1) \<Rightarrow>
          (case pg_Ping d1 of
             (Inl e, d2) \<Rightarrow> (Inl (''ping postgres database: '' @ error_text e), snd (pg_Close d2))
           | (Inr _, d2) \<Rightarrow>
               (case pg_migrate d2 of
                  (Inl e, d3) \<Rightarrow> (Inl e, snd (pg_Close d3))
                | (Inr _, d3) \<Rightarrow> (Inr (), d3))))"

definition pg_CreateRule :: "(instant \<Rightarrow> instant) \<Rightarrow> rule \<Rightarrow> (postgres, svc_error, rule) call" where
  "pg_CreateRule ts r d =
     (case db_exec (sql_insert p_code (db_conflict d) (pg_insert_row ts r)) d of
        (Inl e, d') \<Rightarrow>
          if pg_isUniqueError e then (Inl ErrAlreadyExists, d')
          else (Inl (OtherError (''insert rule: '' @ pg_text e)), d')
      | (Inr _, d') \<Rightarrow> (Inr r, d'))"

definition pg_GetRule :: "string \<Rightarrow> (postgres, svc_error, rule) call" where
  "pg_GetRule code d =
     (case db_call (find_row p_code code) d of
        (Inl e, d') \<Rightarrow> (Inl (OtherError (''get rule: '' @ pg_text e)), d')
      | (Inr None, d') \<Rightarrow> (Inl ErrNotFound, d')
      | (Inr (Some row), d') \<Rightarrow>
          (case pg_scanRule row of
             Inl e \<Rightarrow> (Inl (OtherError (''get rule: '' @ e)), d')
           | Inr r \<Rightarrow> (Inr r, d')))"

definition pg_DeleteRule :: "string \<Rightarrow> (postgres, svc_error, unit) call" where
  "pg_DeleteRule code d =
     (case db_exec (sql_delete (\<lambda>x. p_code x = code)) d of
        (Inl e, d1) \<Rightarrow> (Inl (OtherError (''delete rule: '' @ pg_text e)), d1)
      | (Inr n, d1) \<Rightarrow>
          (case db_call (\<lambda>_. n) d1 of
             (Inl e, d2) \<Rightarrow> (Inl (OtherError (''delete rule rows affected: '' @ pg_text e)), d2)
           | (Inr rows, d2) \<Rightarrow> if rows = 0 then (Inl ErrNotFound, d2) else (Inr (), d2)))"

definition pg_DeleteExpired :: "(instant \<Rightarrow> instant) \<Rightarrow> instant \<Rightarrow> (postgres, svc_error, int) call" where
  "pg_DeleteExpired ts now d =
     (case db_exec (sql_delete (pg_sweep_where (ts now))) d of
        (Inl e, d1) \<Rightarrow> (Inl (OtherError (''delete expired rules: '' @ pg_text e)), d1)
      | (Inr n, d1) \<Rightarrow>
          (case db_call (\<lambda>_. n) d1 of
             (Inl e, d2) \<Rightarrow> (Inl (OtherError (''delete expired rules rows affected: '' @ pg_text e)), d2)
           | (Inr rows, d2) \<Rightarrow> (Inr rows, d2)))"

definition pg_ResolveRule ::
  "(instant \<Rightarrow> instant) \<Rightarrow> string \<Rightarrow> instant \<Rightarrow> (postgres, svc_error, rule) call" where
  "pg_ResolveRule ts code now d =
     (case db_call (\<lambda>rs. rs) d of
        (Inl e, d1) \<Rightarrow> (Inl (OtherError (''begin resolve transaction: '' @ pg_text e)), d1)
      | (Inr w, d1) \<Rightarrow>
          (case db_call (\<lambda>_. find_row p_code code w) d1 of
             (Inl e, d2) \<Rightarrow> (Inl (OtherError (''load rule for resolve: '' @ pg_text e)), d2)
           | (Inr None, d2) \<Rightarrow> (Inl ErrNotFound, d2)
           | (Inr (Some row), d2) \<Rightarrow>
               (case pg_scanRule row of
                  Inl e \<Rightarrow> (Inl (OtherError (''load rule for resolve: '' @ e)), d2)
                | Inr r \<Rightarrow>
                    if fst (Expired r now) then (Inl (ExpiredError r (snd (Expired r now))), d2)
                    else
                      (case tx_exec (pg_update_usage (db_overflow d) (ts now) code) w d2 of
                         (Inl e, d3) \<Rightarrow> (Inl (OtherError (''update rule usage: '' @ pg_text e)), d3)
                       | (Inr w', d3) \<Rightarrow>
                           (case tx_commit w' d3 of
                              (Inl e, d4) \<Rightarrow> (Inl (OtherError (''commit resolve transaction: '' @ pg_text e)), d4)
                            | (Inr _, d4) \<Rightarrow> (Inr (used r now), d4))))))"

definition postgres_ops :: "(instant \<Rightarrow> instant) \<Rightarrow> postgres store_ops" where
  "postgres_ops ts = \<lparr>op_Ping = pg_Ping, op_Close = pg_Close, op_CreateRule = pg_CreateRule ts,
     op_GetRule = pg_GetRule, op_DeleteRule = pg_DeleteRule, op_DeleteExpired = pg_DeleteExpired ts,
     op_ResolveRule = pg_ResolveRule ts\<rparr>"

section \<open>Well-formed tables and what they stand for\<close>

text \<open>What the columns keep of a rule, and the rules they keep whole.\<close>

definition pg_keeps :: "(instant \<Rightarrow> instant) \<Rightarrow> rule \<Rightarrow> rule" where
  "pg_keeps ts r = r\<lparr>r_CreatedAt := ts (r_CreatedAt r), r_ExpiresAt := map_option ts (r_ExpiresAt r),
     r_LastUsedAt := map_option ts (r_LastUsedAt r)\<rparr>"

definition pg_kept :: "(instant \<Rightarrow> instant) \<Rightarrow> rule \<Rightarrow> bool" where
  "pg_kept ts r \<longleftrightarrow> pg_keeps ts r = r"

definition pg_wf :: "(instant \<Rightarrow> instant) \<Rightarrow> postgres \<Rightarrow> bool" where
  "pg_wf ts d = rs_wf p_code (pg_insert_row ts) pg_scanRule (pg_kept ts) d"

definition pg_look :: "postgres \<Rightarrow> table" where
  "pg_look d = rs_look p_code pg_scanRule d"

definition pg_sweeps :: "(instant \<Rightarrow> instant) \<Rightarrow> rule \<Rightarrow> instant \<Rightarrow> bool" where
  "pg_sweeps ts r now = pg_sweep_where (ts now) (pg_insert_row ts r)"

definition pg_quiet :: "postgres \<Rightarrow> bool" where
  "pg_quiet d = rs_quiet pg_isUniqueError d"

lemma pg_keeps_simps [simp]:
  "r_Code (pg_keeps ts r) = r_Code r" "r_URL (pg_keeps ts r) = r_URL r"
  "r_CreatedAt (pg_keeps ts r) = ts (r_CreatedAt r)"
  "r_ExpiresAt (pg_keeps ts r) = map_option ts (r_ExpiresAt r)"
  "r_MaxUsages (pg_keeps ts r) = r_MaxUsages r" "r_UsedCount (pg_keeps ts r) = r_UsedCount r"
  "r_LastUsedAt (pg_keeps ts r) = map_option ts (r_LastUsedAt r)"
  by (simp_all add: pg_keeps_def)

lemma pg_row_code [simp]: "p_code (pg_insert_row ts r) = r_Code r"
  by (simp add: pg_insert_row_def)

lemma pg_row_count [simp]: "p_used_count (pg_insert_row ts r) = r_UsedCount r"
  by (simp add: pg_insert_row_def)

lemma pg_scan_insert_row: "pg_scanRule (pg_insert_row ts r) = Inr (pg_keeps ts r)"
  by (cases r)
    (simp add: pg_scanRule_def pg_insert_row_def pg_keeps_def pg_nullableTime_def
      pg_nullableInt_def map_option_case split: option.split)

section \<open>The driver's time and the contract\<close>

locale driver_time =
  fixes ts :: "instant \<Rightarrow> instant"
  assumes ts_mono: "t \<le> t' \<Longrightarrow> ts t \<le> ts t'"
    and ts_idem: "ts (ts t) = ts t"
    and ts_le: "ts t \<le> t"
begin

lemma keeps_keeps [simp]: "pg_keeps ts (pg_keeps ts r) = pg_keeps ts r"
  by (cases r) (simp add: pg_keeps_def ts_idem option.map_comp comp_def)

lemma row_keeps: "pg_insert_row ts (pg_keeps ts r) = pg_insert_row ts r"
  by (cases r) (simp add: pg_insert_row_def pg_keeps_def pg_nullableTime_def ts_idem map_option_case
      split: option.split)

lemma is_row_table: "row_table p_code (rs_scan pg_scanRule) (pg_insert_row ts) (pg_kept ts)"
  by unfold_locales (simp_all add: pg_scan_insert_row pg_kept_def)

lemma touch_row:
  assumes "pg_kept ts r" "wrap64 (r_UsedCount r + 1) = r_UsedCount r + 1"
  shows "pg_touch (ts now) (r_Code r) (pg_insert_row ts r) = pg_insert_row ts (pg_keeps ts (used r now))"
  unfolding row_keeps using assms(2)
  by (simp add: pg_touch_def) (simp add: pg_insert_row_def pg_nullableTime_def)

lemma update_step:
  assumes ok: "table_ok p_code (rs_scan pg_scanRule) (pg_insert_row ts) (pg_kept ts) rows"
    and r: "table_look p_code (rs_scan pg_scanRule) rows c = Some r"
    and room: "wrap64 (r_UsedCount r + 1) = r_UsedCount r + 1"
  shows "\<exists>n f. pg_update_usage (db_overflow d) (ts now) c rows = Inr (n, map f rows)
    \<and> f (pg_insert_row ts r) = pg_insert_row ts (pg_keeps ts (used r now))
    \<and> (\<forall>row. p_code row \<noteq> c \<longrightarrow> f row = row) \<and> pg_kept ts (pg_keeps ts (used r now))"
proof -
  note look = row_table.look_Some [OF is_row_table ok r]
  have "in_int64 (r_UsedCount r + 1)" using room in_int64_wrap64 by metis
  moreover have "row = pg_insert_row ts r" if "row \<in> set rows" "p_code row = c" for row
    using look(1) ok that by (metis find_row_Some_iff option.inject table_ok_def)
  ultimately have "in_int64 (p_used_count x + 1)" if "x \<in> set rows" "p_code x = c" for x
    using that by (metis pg_row_count)
  then have "\<not> list_ex (\<lambda>x. p_code x = c \<and> \<not> in_int64 (p_used_count x + 1)) rows"
    unfolding list_ex_iff by blast
  then have "pg_update_usage (db_overflow d) (ts now) c rows
      = Inr (int (length (filter (\<lambda>x. p_code x = c) rows)), map (pg_touch (ts now) c) rows)"
    by (simp add: pg_update_usage_def)
  moreover have "pg_touch (ts now) c (pg_insert_row ts r) = pg_insert_row ts (pg_keeps ts (used r now))"
    using touch_row [OF look(2) room] look(3) by simp
  moreover have "\<forall>row. p_code row \<noteq> c \<longrightarrow> pg_touch (ts now) c row = row"
    by (simp add: pg_touch_def)
  moreover have "pg_kept ts (pg_keeps ts (used r now))" by (simp add: pg_kept_def)
  ultimately show ?thesis by blast
qed

text \<open>The bulk deletion removes exactly the rules that resolution would refuse.\<close>

lemma sweeps_iff_Expired:
  assumes "pg_kept ts r"
  shows "pg_sweeps ts r now \<longleftrightarrow> fst (Expired r now)"
proof -
  have fixed: "ts e = e" if "r_ExpiresAt r = Some e" for e
    using assms that by (metis option.inject option.simps(9) pg_kept_def pg_keeps_simps(4))
  have "ts e \<le> ts now \<longleftrightarrow> e \<le> now" if "r_ExpiresAt r = Some e" for e
    using fixed [OF that] ts_mono [of e now] ts_le [of now] by linarith
  then show ?thesis
    by (auto simp: pg_sweeps_def pg_sweep_where_def pg_insert_row_def pg_nullableTime_def
        pg_nullableInt_def Expired_iff split: option.split)
qed

end

lemma postgres_ops_rs: "postgres_ops ts = rs_ops p_code (pg_insert_row ts) pg_scanRule pg_text
    pg_isUniqueError (\<lambda>now. pg_sweep_where (ts now)) (\<lambda>d now. pg_update_usage (db_overflow d) (ts now))"
  by (simp add: postgres_ops_def rs_ops_def pg_Ping_def pg_Close_def rs_touchless_def pg_CreateRule_def
      rs_CreateRule_def pg_GetRule_def rs_GetRule_def pg_DeleteRule_def rs_DeleteRule_def
      pg_DeleteExpired_def rs_DeleteExpired_def pg_ResolveRule_def rs_ResolveRule_def fun_eq_iff)

sublocale driver_time \<subseteq> pgr: row_store p_code pg_scanRule "pg_insert_row ts" "pg_kept ts" pg_text
  pg_isUniqueError "\<lambda>now. pg_sweep_where (ts now)" "\<lambda>d now. pg_update_usage (db_overflow d) (ts now)"
  "pg_keeps ts" "\<lambda>r. True" "\<lambda>now. True"
  by (unfold_locales; simp add: pg_scan_insert_row pg_kept_def row_keeps)
    (use update_step in \<open>simp add: pg_kept_def row_keeps\<close>)

sublocale driver_time \<subseteq> pg: rule_store "postgres_ops ts" "pg_wf ts" pg_look "pg_keeps ts"
  "\<lambda>r. True" "\<lambda>now. True" "pg_sweeps ts" pg_quiet
proof -
  have eqs: "pg_wf ts = rs_wf p_code (pg_insert_row ts) pg_scanRule (pg_kept ts)"
    "pg_look = rs_look p_code pg_scanRule"
    "pg_sweeps ts = (\<lambda>r now. pg_sweep_where (ts now) (pg_insert_row ts r))"
    "pg_quiet = rs_quiet pg_isUniqueError"
    by (simp_all add: fun_eq_iff pg_wf_def pg_look_def pg_sweeps_def pg_quiet_def)
  show "rule_store (postgres_ops ts) (pg_wf ts) pg_look (pg_keeps ts) (\<lambda>r. True) (\<lambda>now. True)
    (pg_sweeps ts) pg_quiet"
    unfolding postgres_ops_rs eqs by (rule pgr.rule_store_axioms)
qed

context driver_time
begin

lemma is_store: "rule_store (postgres_ops ts) (pg_wf ts) pg_look (pg_keeps ts) (\<lambda>r. True) (\<lambda>now. True)
    (pg_sweeps ts) pg_quiet"
  by (rule pg.rule_store_axioms)

lemma look_kept: "pg_wf ts d \<Longrightarrow> pg_look d c = Some r \<Longrightarrow> pg_kept ts r"
  using row_table.look_Some(2) [OF is_row_table] by (auto simp: pg_wf_def pg_look_def rs_state)

end

text \<open>The resolution PostgreSQL documents for its time stamps: microseconds.\<close>

definition pg_micro :: "instant \<Rightarrow> instant" where
  "pg_micro t = (t div 1000) * 1000"

lemma pg_micro_laws: "t \<le> t' \<Longrightarrow> pg_micro t \<le> pg_micro t'" "pg_micro (pg_micro t) = pg_micro t"
    "pg_micro t \<le> t"
  by (simp_all add: pg_micro_def zdiv_mono1 div_times_less_eq_dividend)

interpretation pgm: driver_time pg_micro
  by unfold_locales (simp_all add: pg_micro_laws)

end
