(* ===== verification/Demo.thy ===== *)
theory Demo
  imports Sqlite_Store Postgres_Store
begin

text \<open>
  Concrete databases, rules and services at which the properties are applied: a link with a
  limit of three uses and an expiry, in a table of each store, and the facts about them that
  the applications need.
\<close>

definition demo_now :: instant where "demo_now = 1700000000 * second"

definition demo_rule :: rule where
  "demo_rule = \<lparr>r_Code = ''abcd'', r_URL = ''https://example.com'', r_CreatedAt = demo_now,
     r_ExpiresAt = Some (demo_now + 60 * second), r_MaxUsages = Some 3, r_UsedCount = 1,
     r_LastUsedAt = None\<rparr>"

definition demo_sqlite :: sqlite where
  "demo_sqlite = \<lparr>db_rows = [sq_row demo_rule], db_faults = [],
     db_conflict = ''constraint failed: UNIQUE constraint failed: rules.code (1555)'',
     db_overflow = ''integer overflow''\<rparr>"

definition demo_postgres :: postgres where
  "demo_postgres = \<lparr>db_rows = [pg_insert_row pg_micro demo_rule], db_faults = [],
     db_conflict = PgError ''23505'' ''duplicate key value'',
     db_overflow = PgError ''22003'' ''bigint out of range''\<rparr>"

definition demo_input :: create_input where
  "demo_input = \<lparr>in_URL = ''https://example.com/a'', in_Alias = ''link1'', in_TTLSeconds = 60, in_MaxUsages = 2\<rparr>"

definition demo_bare :: create_input where
  "demo_bare = \<lparr>in_URL = ''https://example.com/a'', in_Alias = [], in_TTLSeconds = 0, in_MaxUsages = 0\<rparr>"

definition demo_service :: "'s store_ops \<Rightarrow> 's service" where
  "demo_service ops = NewService ops (NewGenerator 7) ''https://i8.sl/'' []"

definition demo_entropy :: entropy where
  "demo_entropy i = Draw (int i)"

lemma demo_service_simps [simp]:
  "svc_store (demo_service ops) = ops" "svc_generator (demo_service ops) = NewGenerator 7"
  "svc_Now (demo_service ops) wall = wall" "svc_rejectPrivateTargets (demo_service ops) = False"
  "gen_length (NewGenerator 7) = 7"
  by (simp_all add: demo_service_def NewService_def svc_Now_def NewGenerator_def)

lemma demo_storable: "sq_storable demo_rule"
  by code_simp

lemma demo_now_ok: "rfc3339_ok demo_now"
  by code_simp

lemma demo_sqlite_look: "sq_look demo_sqlite = [''abcd'' \<mapsto> demo_rule]"
  using demo_storable
  by (auto simp: fun_eq_iff sq_look_def rs_look_def table_look_def demo_sqlite_def sq_scan_row)
    (simp_all add: demo_rule_def)

lemma demo_sqlite_wf: "sq_wf demo_sqlite"
  using demo_storable
  by (simp add: sq_wf_def rs_wf_def table_ok_def demo_sqlite_def sq_scan_row rs_scan_def)

lemma demo_sqlite_quiet: "sq_quiet demo_sqlite"
  by code_simp

lemma demo_kept: "pg_keeps pg_micro demo_rule = demo_rule"
  by code_simp

lemma demo_postgres_look: "pg_look demo_postgres = [''abcd'' \<mapsto> demo_rule]"
  using demo_kept
  by (auto simp: fun_eq_iff pg_look_def rs_look_def table_look_def demo_postgres_def pg_scan_insert_row)
    (simp_all add: demo_rule_def)

lemma demo_postgres_wf: "pg_wf pg_micro demo_postgres"
  using demo_kept
  by (simp add: pg_wf_def rs_wf_def table_ok_def demo_postgres_def pg_scan_insert_row rs_scan_def pg_kept_def)

lemma demo_postgres_quiet: "pg_quiet demo_postgres"
  by code_simp

lemma demo_roomy: "k \<le> 1000 \<Longrightarrow> roomy k [''abcd'' \<mapsto> demo_rule]"
  by (auto simp: roomy_def demo_rule_def)

lemma demo_ruleFromInput:
  "ruleFromInput False demo_input demo_now = Inr \<lparr>r_Code = ''link1'', r_URL = ''https://example.com/a'',
     r_CreatedAt = demo_now, r_ExpiresAt = Some (demo_now + 60 * second), r_MaxUsages = Some 2,
     r_UsedCount = 0, r_LastUsedAt = None\<rparr>"
  "ruleFromInput False demo_bare demo_now = Inr \<lparr>r_Code = [], r_URL = ''https://example.com/a'',
     r_CreatedAt = demo_now, r_ExpiresAt = None, r_MaxUsages = None, r_UsedCount = 0, r_LastUsedAt = None\<rparr>"
  by code_simp+

end
