(* ===== verification/Link_Props.thy ===== *)
theory Link_Props
  imports Demo
begin

text \<open>
  The properties of links: what creation accepts and stores, the generated codes, the columns of
  the stores, and the bulk deletions.
\<close>

section \<open>Targets\<close>

text \<open>
  C16. The target of every rule that creation accepts is an \<open>http\<close> or \<open>https\<close> URL without a
  control byte (below 32, or 127), so that it cannot end the \<open>Location\<close> header it is sent in; the use
  count starts at zero, the limit, if any, is positive, and the alias, if any, is of its pattern.
\<close>

theorem created_target_safe:
  assumes "ruleFromInput rej input now = Inr r"
  shows "(has_prefix (r_URL r) ''http://'' \<or> has_prefix (r_URL r) ''https://'') \<and> clean (r_URL r)
    \<and> r_UsedCount r = 0 \<and> (\<forall>m. r_MaxUsages r = Some m \<longrightarrow> 0 < m)
    \<and> (r_Code r = [] \<or> alias_pattern (r_Code r))"
proof -
  obtain u where u: "validateTargetURL (in_URL input) rej = Inr u" "r_URL r = url_string u"
    using ruleFromInput_Inr(1) [OF assms] by blast
  have "0 < m" if "r_MaxUsages r = Some m" for m
    using ruleFromInput_Inr(8,10) [OF assms] that by (auto split: if_splits)
  then show ?thesis
    using validateTargetURL_string [OF u(1)] u(2) ruleFromInput_Inr(3,5) [OF assms] by auto
qed

lemma created_target_safe_witness:
  "clean ''https://example.com/a'' \<and> alias_pattern ''link1''"
  using created_target_safe [OF demo_ruleFromInput(1)] by simp

text \<open>A space is no control byte: one in the query is kept as it is.\<close>

lemma target_space_kept:
  "map_sum id url_string (validateTargetURL ''http://x.com/?a b'' True) = Inr ''http://x.com/?a b''"
  by code_simp

text \<open>
  The addresses that are not public, by their bytes: of IPv4 (also written in IPv6) those of this
  network, \<open>0.0.0.0\<close>, the loopback \<open>127/8\<close>, the private \<open>10/8\<close>, \<open>172.16/12\<close> and \<open>192.168/16\<close>, the
  link-local \<open>169.254/16\<close> and the multicast \<open>224/4\<close>; of IPv6 \<open>::\<close>, \<open>::1\<close>, \<open>fc00::/7\<close>, \<open>fe80::/10\<close> and \<open>ff00::/8\<close>.
\<close>

definition not_public :: "int list \<Rightarrow> bool" where
  "not_public ip \<longleftrightarrow>
     (case to4 ip of
        Some b \<Rightarrow> b = [0, 0, 0, 0] \<or> b ! 0 \<in> {10, 127} \<or> b ! 0 = 172 \<and> 16 \<le> b ! 1 \<and> b ! 1 \<le> 31
          \<or> b ! 0 = 192 \<and> b ! 1 = 168 \<or> b ! 0 = 169 \<and> b ! 1 = 254 \<or> 224 \<le> b ! 0 \<and> b ! 0 \<le> 239
      | None \<Rightarrow> ip = replicate 16 0 \<or> ip = replicate 15 0 @ [1] \<or> ip ! 0 \<in> {252, 253, 255}
          \<or> ip ! 0 = 254 \<and> 128 \<le> ip ! 1 \<and> ip ! 1 \<le> 191)"

lemma not_public_iff:
  "not_public ip \<longleftrightarrow> is_loopback ip \<or> is_private ip \<or> is_link_local_multicast ip
     \<or> is_link_local_unicast ip \<or> is_multicast ip \<or> is_unspecified ip"
proof -
  have "n div 16 = 1 \<longleftrightarrow> 16 \<le> n \<and> n \<le> 31" "n div 16 = 14 \<longleftrightarrow> 224 \<le> n \<and> n \<le> 239"
    "n div 2 = 126 \<longleftrightarrow> n = 252 \<or> n = 253" "n div 64 = 2 \<longleftrightarrow> 128 \<le> n \<and> n \<le> 191" for n :: int
    by presburger+
  note divs = this
  have "to4 (replicate 16 0) = None" by code_simp
  then show ?thesis
    by (cases "to4 ip")
      (auto simp: not_public_def is_loopback_def is_private_def is_link_local_multicast_def
        is_link_local_unicast_def is_multicast_def is_unspecified_def divs)
qed

text \<open>
  C17. What the option to reject private targets rejects, exactly: of the URLs that are accepted without
  it, those whose host as it is written, trimmed and in lower case, is empty, \<open>localhost\<close>, a name that ends
  in \<open>.localhost\<close> or \<open>.local\<close>, or an IP address that is not public. No name is resolved, and other
  spellings of the same hosts pass (below).
\<close>

theorem private_targets_refused:
  "validateTargetURL raw True = Inr u \<longleftrightarrow>
     validateTargetURL raw False = Inr u
     \<and> (let h = trim_space (to_lower (hostname u)) in
          h \<noteq> [] \<and> h \<noteq> ''localhost'' \<and> \<not> has_suffix h ''.localhost'' \<and> \<not> has_suffix h ''.local''
          \<and> (case parse_ip h of None \<Rightarrow> True | Some ip \<Rightarrow> \<not> not_public ip))"
  by (auto simp: validateTargetURL_def validatePublicTarget_def Let_def not_public_iff split: if_splits option.splits sum.splits)

text \<open>
  The check works on the text of the host: a name with a final dot and an address with a zone
  pass it.
\<close>

lemma private_target_missed:
  "is_ok (validateTargetURL ''http://localhost./'' True)"
  "is_ok (validateTargetURL ''http://[fe80::1%25eth0]/'' True)"
  by code_simp+

section \<open>Generated codes\<close>

text \<open>
  C18. Every code that is generated for the length of a loaded configuration is a code that the
  service itself accepts, of exactly that length.
\<close>

theorem generated_codes_usable:
  assumes "4 \<le> gen_length g" "gen_length g \<le> 16" "Generate g src = (Inr s, src')"
  shows "int (length s) = gen_length g \<and> validateCode s = Inr s"
proof -
  have "4 \<le> nat (gen_length g)" "nat (gen_length g) \<le> 32" using assms(1,2) by arith+
  then have "alias_pattern s" using Generate_Inr [OF assms(3)] by (simp add: alias_pattern_def)
  then show ?thesis using Generate_Inr(1) [OF assms(3)] assms(1) validateCode_alias by simp
qed

lemma generated_codes_usable_witness: "validateCode ''abcd'' = Inr ''abcd''"
proof -
  have "Generate (NewGenerator 4) demo_entropy = (Inr ''abcd'', snd (Generate (NewGenerator 4) demo_entropy))"
    by (rule prod_eqI) (simp_all, code_simp)
  from generated_codes_usable [OF _ _ this] show ?thesis by (simp add: NewGenerator_def)
qed

text \<open>C19. No code is out of reach: every text of the length over letters and digits is drawn
  from some random source.\<close>

theorem every_code_drawn:
  assumes "list_all is_alnum s" "0 < gen_length g" "int (length s) = gen_length g"
  shows "\<exists>src. fst (Generate g src) = Inr s"
proof -
  have codes: "alphabet = map char_of ([97..<123] @ [65..<91] @ [48..<58 :: nat])" by code_simp
  have "c \<in> set alphabet" if "is_alnum c" for c
  proof -
    have "(of_char c :: nat) \<in> set ([97..<123] @ [65..<91] @ [48..<58])"
      unfolding set_append set_upt Un_iff atLeastLessThan_iff
      using that unfolding is_alnum_def is_alpha_def is_digit_def Let_def by auto
    then have "char_of (of_char c :: nat) \<in> set alphabet" unfolding codes set_map by (rule imageI)
    then show ?thesis by simp
  qed
  then have "set s \<subseteq> set alphabet" using assms(1) by (auto simp: list_all_iff)
  from generate_loop_onto [OF this] show ?thesis
    using assms(2,3) by (simp add: Generate_def) (metis nat_int)
qed

lemma every_code_drawn_witness: "\<exists>src. fst (Generate (NewGenerator 7) src) = Inr ''Zz09aB3''"
  by (rule every_code_drawn) (simp_all add: NewGenerator_def, code_simp)

section \<open>Creating and finding links\<close>

text \<open>
  C20. On SQLite, when neither the database nor the random source fails, creation without an alias draws
  at most ten codes and takes the first that is free, leaving every other link as it is; only when all
  ten are taken does it give up, and then nothing is stored.
\<close>

theorem creation_retries:
  assumes "svc_store svc = sqlite_ops" "sq_wf d" "sq_quiet d" "0 < gen_length (svc_generator svc)" "\<forall>i. \<exists>n. src i = Draw n"
    "ruleFromInput (svc_rejectPrivateTargets svc) input (svc_Now svc wall) = Inr r" "trim_space (in_Alias input) = []"
    "storable_as sq_storable r"
  shows "\<exists>d' src'. svc_CreateRule svc wall input (d, src) =
      (case find (\<lambda>c. sq_look d c = None) (drawn 10 (svc_generator svc) src) of
         None \<Rightarrow> Inl (OtherError ''could not generate a unique short code'')
       | Some c \<Rightarrow> Inr (r\<lparr>r_Code := c\<rparr>), (d', src'))
    \<and> sq_look d' = (case find (\<lambda>c. sq_look d c = None) (drawn 10 (svc_generator svc) src) of
         None \<Rightarrow> sq_look d | Some c \<Rightarrow> (sq_look d)(c \<mapsto> r\<lparr>r_Code := c\<rparr>))"
proof -
  have "r_Code r = []" using ruleFromInput_Inr(2) [OF assms(6)] assms(7) by simp
  then have "svc_CreateRule svc wall input (d, src) = create_generated 10 svc r (d, src)"
    by (simp add: svc_CreateRule_def assms(6))
  then show ?thesis using sq.create_generated_quiet [OF assms(1-3,8,4,5), of 10] by simp
qed

lemma creation_retries_witness:
  "\<exists>d' src' r. svc_CreateRule (demo_service sqlite_ops) demo_now demo_bare (demo_sqlite, demo_entropy) = (Inr r, (d', src'))
     \<and> r_Code r = ''abcdefg'' \<and> sq_look d' ''abcdefg'' = Some r"
proof -
  let ?svc = "demo_service sqlite_ops"
  let ?r = "\<lparr>r_Code = [], r_URL = ''https://example.com/a'', r_CreatedAt = demo_now, r_ExpiresAt = None, r_MaxUsages = None,
    r_UsedCount = 0, r_LastUsedAt = None\<rparr>"
  have f: "find (\<lambda>c. sq_look demo_sqlite c = None) (drawn 10 (svc_generator ?svc) demo_entropy) = Some ''abcdefg''"
    unfolding demo_sqlite_look by code_simp
  have r: "ruleFromInput (svc_rejectPrivateTargets ?svc) demo_bare (svc_Now ?svc demo_now) = Inr ?r"
    using demo_ruleFromInput(2) by simp
  have a: "trim_space (in_Alias demo_bare) = []" by code_simp
  have s: "storable_as sq_storable ?r" using demo_now_ok by (auto simp: storable_as_def sq_storable_def in_int64_def)
  from creation_retries [OF _ demo_sqlite_wf demo_sqlite_quiet _ _ r a s, of demo_entropy, unfolded f option.case]
  obtain d' src' where "svc_CreateRule ?svc demo_now demo_bare (demo_sqlite, demo_entropy)
      = (Inr (?r\<lparr>r_Code := ''abcdefg''\<rparr>), (d', src'))" "sq_look d' = (sq_look demo_sqlite)(''abcdefg'' \<mapsto> ?r\<lparr>r_Code := ''abcdefg''\<rparr>)"
    by (auto simp: demo_entropy_def)
  then show ?thesis by (intro exI [of _ d'] exI [of _ src'] exI [of _ "?r\<lparr>r_Code := ''abcdefg''\<rparr>"]) simp
qed

text \<open>
  C21. A request that validation refuses never reaches the store: an invalid code in a lookup, a
  deletion or a resolution, and an invalid input of a creation, are answered with the validation
  error and leave the store and the random source as they are.
\<close>

theorem invalid_input_untouched:
  assumes "\<not> alias_pattern (trim_space raw)"
    "ruleFromInput (svc_rejectPrivateTargets svc) input (svc_Now svc wall) = Inl e"
  shows "\<exists>m f m'. svc_GetRule svc raw s = (Inl (ValidationError ''code'' m), s)
      \<and> svc_DeleteRule svc raw s = (Inl (ValidationError ''code'' m), s)
      \<and> svc_ResolveRule svc wall raw s = (Inl (ValidationError ''code'' m), s)
      \<and> e = ValidationError f m' \<and> svc_CreateRule svc wall input w = (Inl e, w)"
  using svc_invalid_code [OF assms(1), of svc s wall] svc_invalid_input [OF assms(2), of w] ruleFromInput_Inl [OF assms(2)]
  by blast

definition demo_bad_input :: create_input where
  "demo_bad_input = demo_input\<lparr>in_URL := ''ftp://example.com''\<rparr>"

lemma invalid_input_untouched_witness:
  "\<exists>e. svc_CreateRule (demo_service sqlite_ops) demo_now demo_bad_input (demo_sqlite, demo_entropy)
     = (Inl e, (demo_sqlite, demo_entropy))"
proof -
  have v: "\<not> alias_pattern (trim_space ''a b'')" by code_simp
  have "ruleFromInput False demo_bad_input demo_now
      = Inl (ValidationError ''url'' ''only http and https URLs are supported'')" by code_simp
  with invalid_input_untouched [OF v, of "demo_service sqlite_ops" demo_bad_input demo_now _ demo_sqlite "(demo_sqlite, demo_entropy)"]
  show ?thesis by auto
qed

section \<open>Columns\<close>

text \<open>
  C22. What SQLite's columns keep of a rule is the rule: writing its row and scanning it gives the
  rule back, times to the nanosecond included, for the years 0 to 9999 that RFC 3339 can write.
\<close>

theorem sqlite_row_roundtrip:
  assumes "sq_storable r"
  shows "sq_scanRule (sq_row r) = Inr r \<and> s_code (sq_row r) = r_Code r"
  using sq_scan_row [OF assms] by simp

lemma sqlite_row_roundtrip_witness: "sq_scanRule (sq_row demo_rule) = Inr demo_rule"
  using sqlite_row_roundtrip [OF demo_storable] by simp

text \<open>\<open>parseTime\<close> reads back every time that \<open>formatTime\<close> writes.\<close>

theorem time_roundtrip:
  assumes "rfc3339_ok t"
  shows "sq_parseTime (sq_formatTime t) = Inr t"
  using parse_format_time [OF assms] by (simp add: sq_parseTime_def sq_formatTime_def)

lemma time_roundtrip_witness: "sq_parseTime (sq_formatTime demo_now) = Inr demo_now"
  by (rule time_roundtrip [OF demo_now_ok])

text \<open>C27. A time to live of up to 9223372036 seconds (292 years) gives exactly that expiry, and the
  rule is refused from that instant on and not before, as long as it has uses left.\<close>

theorem ttl_exact:
  assumes "ruleFromInput rej input now = Inr r" "0 < in_TTLSeconds input" "in_TTLSeconds input \<le> 9223372036"
  shows "r_ExpiresAt r = Some (now + in_TTLSeconds input * second)
    \<and> (fst (Expired r t) \<longleftrightarrow> now + in_TTLSeconds input * second \<le> t)"
proof -
  have e: "r_ExpiresAt r = Some (now + in_TTLSeconds input * second)"
    using ruleFromInput_Inr(9) [OF assms(1)] assms(2,3) by (simp add: ttl_expiry_exact)
  moreover have "r_UsedCount r = 0" "\<forall>m. r_MaxUsages r = Some m \<longrightarrow> 0 < m"
    using ruleFromInput_Inr(5,8,10) [OF assms(1)] by (auto split: if_splits)
  ultimately show ?thesis by (auto simp: Expired_iff)
qed

lemma ttl_exact_witness: "demo_now + 60 * second \<le> demo_now + 61 * second"
  using ttl_exact [OF demo_ruleFromInput(1), of "demo_now + 60 * second"] by (simp add: demo_input_def second_def)

text \<open>
  Beyond that the product with a second wraps around: a link for 9223372037 seconds is born
  expired, and one for 18446744074 seconds (585 years) lives less than half a second.
\<close>

theorem ttl_overflows:
  "ttl_expiry 9223372037 now < now \<and> now < ttl_expiry 18446744074 now \<and> ttl_expiry 18446744074 now < now + second div 2"
  by (simp add: ttl_expiry_def wrap64_def second_def)

section \<open>The bulk deletions\<close>

text \<open>
  C24. SQLite's bulk deletion at an instant deletes no link that has more than a second to live, and
  every link that expired more than a second ago or has no uses left.
\<close>

theorem sqlite_sweep_within_second:
  assumes "sq_storable r" "rfc3339_ok now"
  shows "(sq_sweeps r now \<longrightarrow> fst (Expired r (now + second)))
    \<and> (fst (Expired r (now - second)) \<longrightarrow> sq_sweeps r now)"
  using sq_sweeps_early [OF assms] sq_sweeps_late [OF assms] by blast

lemma sqlite_sweep_within_second_witness:
  "sq_sweeps demo_rule (demo_now + 61 * second)"
proof -
  have "rfc3339_ok (demo_now + 61 * second)" by code_simp
  from sqlite_sweep_within_second [OF demo_storable this]
  show ?thesis by (simp add: Expired_iff demo_rule_def second_def)
qed

text \<open>
  It can delete a link that would still be resolved: the texts of the times compare \<open>.\<close> before
  \<open>Z\<close>, so a link that expires half a second after a full second is deleted at that full second.
\<close>

theorem sqlite_sweeps_early_example:
  "sq_sweeps (demo_rule\<lparr>r_ExpiresAt := Some (demo_now + second div 2)\<rparr>) demo_now
   \<and> \<not> fst (Expired (demo_rule\<lparr>r_ExpiresAt := Some (demo_now + second div 2)\<rparr>) demo_now)"
  by code_simp

text \<open>
  C26. PostgreSQL's bulk deletion deletes exactly the links that a resolution at that instant would
  refuse, however the driver rounds its times.
\<close>

theorem postgres_sweep_exact:
  assumes "driver_time ts" "pg_wf ts d" "pg_look d c = Some r"
  shows "pg_sweeps ts r now \<longleftrightarrow> fst (Expired r now)"
  by (rule driver_time.sweeps_iff_Expired [OF assms(1) driver_time.look_kept [OF assms]])

lemma postgres_sweep_exact_witness: "pg_sweeps pg_micro demo_rule (demo_now + 60 * second)"
  using postgres_sweep_exact [OF pgm.driver_time_axioms demo_postgres_wf, of "''abcd''" demo_rule "demo_now + 60 * second"]
  by (simp add: demo_postgres_look) (simp add: Expired_iff demo_rule_def)

end
