(* ===== verification/GoFloat.thy ===== *)
theory GoFloat
  imports GoStrings Complex_Main
begin

text \<open>
  Go's \<open>float64\<close>: IEEE 754 binary64 with rounding to nearest, ties to even. A finite value is
  the rational it denotes (the sign of zero is dropped; no code of the repository can tell the
  two zeros apart). Every operation rounds the exact result.
\<close>

datatype f64 = NaN | PosInf | NegInf | Fin rat

section \<open>Rounding\<close>

text \<open>The number of binary digits, and the exponent of a positive rational.\<close>

function bits :: "int \<Rightarrow> int" where
  "bits n = (if n \<le> 0 then 0 else 1 + bits (n div 2))"
  by pat_completeness auto
termination by (relation "measure nat") auto

declare bits.simps [simp del]

definition exponent :: "rat \<Rightarrow> int" where
  "exponent x =
     (let (p, q) = quotient_of x; k = bits p - bits q in if 2 powi k \<le> x then k else k - 1)"

definition half_even :: "rat \<Rightarrow> int" where
  "half_even x =
     (let n = \<lfloor>x\<rfloor>; d = x - of_int n in
      if d < 1 / 2 then n else if 1 / 2 < d then n + 1 else if even n then n else n + 1)"

definition round_pos :: "rat \<Rightarrow> rat" where
  "round_pos x =
     (if x \<le> 0 then 0
      else let e = max (- 1074) (exponent x - 52) in of_int (half_even (x / 2 powi e)) * 2 powi e)"

text \<open>A result of \<open>2^1024\<close> or more overflows.\<close>

definition round_f64 :: "rat \<Rightarrow> f64" where
  "round_f64 x =
     (let r = round_pos \<bar>x\<bar> in
      if 0 < r \<and> 1024 \<le> exponent r then (if 0 \<le> x then PosInf else NegInf)
      else Fin (if 0 \<le> x then r else - r))"

section \<open>Operations\<close>

definition f64_of_int :: "int \<Rightarrow> f64" where
  "f64_of_int n = round_f64 (of_int n)"

fun f64_neg :: "f64 \<Rightarrow> f64" where
  "f64_neg NaN = NaN" | "f64_neg PosInf = NegInf" | "f64_neg NegInf = PosInf" | "f64_neg (Fin x) = Fin (- x)"

fun f64_add :: "f64 \<Rightarrow> f64 \<Rightarrow> f64" where
  "f64_add (Fin x) (Fin y) = round_f64 (x + y)"
| "f64_add (Fin x) y = y"
| "f64_add x (Fin y) = x"
| "f64_add PosInf PosInf = PosInf"
| "f64_add NegInf NegInf = NegInf"
| "f64_add _ _ = NaN"

definition f64_sub :: "f64 \<Rightarrow> f64 \<Rightarrow> f64" where
  "f64_sub x y = f64_add x (f64_neg y)"

definition f64_inf :: "rat \<Rightarrow> f64" where
  "f64_inf s = (if 0 < s then PosInf else if s < 0 then NegInf else NaN)"

fun f64_mul :: "f64 \<Rightarrow> f64 \<Rightarrow> f64" where
  "f64_mul (Fin x) (Fin y) = round_f64 (x * y)"
| "f64_mul (Fin x) PosInf = f64_inf x"
| "f64_mul (Fin x) NegInf = f64_inf (- x)"
| "f64_mul PosInf (Fin x) = f64_inf x"
| "f64_mul NegInf (Fin x) = f64_inf (- x)"
| "f64_mul PosInf PosInf = PosInf"
| "f64_mul NegInf NegInf = PosInf"
| "f64_mul PosInf NegInf = NegInf"
| "f64_mul NegInf PosInf = NegInf"
| "f64_mul _ _ = NaN"

text \<open>Division; by zero it gives an infinity or \<open>NaN\<close> (the divisor zero is taken as \<open>+0\<close>).\<close>

fun f64_div :: "f64 \<Rightarrow> f64 \<Rightarrow> f64" where
  "f64_div (Fin x) (Fin y) = (if y = 0 then f64_inf x else round_f64 (x / y))"
| "f64_div (Fin x) PosInf = Fin 0"
| "f64_div (Fin x) NegInf = Fin 0"
| "f64_div PosInf (Fin y) = (if y < 0 then NegInf else PosInf)"
| "f64_div NegInf (Fin y) = (if y < 0 then PosInf else NegInf)"
| "f64_div _ _ = NaN"

fun f64_less :: "f64 \<Rightarrow> f64 \<Rightarrow> bool" where
  "f64_less (Fin x) (Fin y) \<longleftrightarrow> x < y"
| "f64_less NegInf (Fin y) \<longleftrightarrow> True"
| "f64_less NegInf PosInf \<longleftrightarrow> True"
| "f64_less (Fin x) PosInf \<longleftrightarrow> True"
| "f64_less _ _ \<longleftrightarrow> False"

definition f64_le :: "f64 \<Rightarrow> f64 \<Rightarrow> bool" where
  "f64_le x y \<longleftrightarrow> f64_less x y \<or> (x = y \<and> x \<noteq> NaN)"

text \<open>
  Conversion to a 64-bit integer drops the fraction. Out of range Go leaves the result to the
  implementation: the argument \<open>wild\<close>.
\<close>

definition f64_trunc :: "rat \<Rightarrow> int" where
  "f64_trunc x = (if 0 \<le> x then \<lfloor>x\<rfloor> else \<lceil>x\<rceil>)"

definition int64_of_f64 :: "(f64 \<Rightarrow> int) \<Rightarrow> f64 \<Rightarrow> int" where
  "int64_of_f64 wild f =
     (case f of Fin x \<Rightarrow> if in_int64 (f64_trunc x) then f64_trunc x else wild f | _ \<Rightarrow> wild f)"

section \<open>Facts about rounding\<close>

lemma bits_bounds: "0 < n \<Longrightarrow> 2 ^ nat (bits n - 1) \<le> n \<and> n < 2 ^ nat (bits n) \<and> 1 \<le> bits n"
proof (induction n rule: bits.induct)
  case (1 n)
  show ?case
  proof (cases "n = 1")
    case True
    then show ?thesis by (simp add: bits.simps [of 1] bits.simps [of 0])
  next
    case False
    then have pos: "0 < n div 2" using 1(2) by linarith
    have b: "bits n = 1 + bits (n div 2)" using 1(2) by (subst bits.simps) simp
    note IH = 1(1) [OF _ pos]
    obtain k where k: "bits (n div 2) = 1 + int k" using IH 1(2) by (metis add.commute diff_add_cancel not_le zero_le_imp_eq_int diff_ge_0_iff_ge)
    have "(2::int) ^ k \<le> n div 2" "n div 2 < 2 ^ Suc k" using IH 1(2) k by (auto simp: nat_add_distrib)
    moreover have "2 * m \<le> n \<and> n < 4 * m" if "m \<le> n div 2" "n div 2 < 2 * m" for m :: int
      using that by linarith
    ultimately have "2 * 2 ^ k \<le> n \<and> n < 4 * 2 ^ k" by simp
    then show ?thesis using k b by (simp add: nat_add_distrib)
  qed
qed

lemma powi_diff_nat: "(2::rat) powi (int a - int b) = 2 ^ a / 2 ^ b"
  by (simp add: power_int_diff)

lemma exponent_bounds:
  assumes "0 < x"
  shows "2 powi exponent x \<le> x" "x < 2 powi (exponent x + 1)"
proof -
  obtain p q where pq: "quotient_of x = (p, q)" by fastforce
  have q: "0 < q" and x: "x = of_int p / of_int q"
    using quotient_of_denom_pos [OF pq] quotient_of_div [OF pq] by simp_all
  have p: "0 < p" using assms q unfolding x by (simp add: zero_less_divide_iff)
  define a b where "a = nat (bits p - 1)" and "b = nat (bits q - 1)"
  have a: "2 ^ a \<le> p" "p < 2 ^ Suc a" "bits p = int (Suc a)"
    using bits_bounds [OF p] by (auto simp: a_def Suc_nat_eq_nat_zadd1)
  have b: "2 ^ b \<le> q" "q < 2 ^ Suc b" "bits q = int (Suc b)"
    using bits_bounds [OF q] by (auto simp: b_def Suc_nat_eq_nat_zadd1)
  have pa: "2 ^ a \<le> (of_int p :: rat)" "(of_int p :: rat) < 2 ^ Suc a"
    using a by (metis of_int_le_iff of_int_power of_int_numeral) (metis a(2) of_int_less_iff of_int_power of_int_numeral)
  have qb: "2 ^ b \<le> (of_int q :: rat)" "(of_int q :: rat) < 2 ^ Suc b"
    using b by (metis of_int_le_iff of_int_power of_int_numeral) (metis b(2) of_int_less_iff of_int_power of_int_numeral)
  have q0: "(0::rat) < of_int q" using q by simp
  have hi: "x < 2 powi (int a - int b + 1)"
  proof -
    have "x < 2 ^ Suc a / 2 ^ b"
      unfolding x by (rule frac_less) (use pa qb p q0 in auto)
    also have "\<dots> = 2 powi (int a - int b + 1)"
      using powi_diff_nat [of "Suc a" b] by (simp add: algebra_simps)
    finally show ?thesis .
  qed
  have lo: "2 powi (int a - int b - 1) \<le> x"
  proof -
    have "2 powi (int a - int b - 1) = (2 ^ a / 2 ^ Suc b :: rat)"
      using powi_diff_nat [of a "Suc b"] by (simp add: algebra_simps)
    also have "\<dots> \<le> x" unfolding x by (rule frac_le) (use pa qb p q0 in auto)
    finally show ?thesis .
  qed
  have e: "exponent x = (if 2 powi (int a - int b) \<le> x then int a - int b else int a - int b - 1)"
    by (simp add: exponent_def pq a(3) b(3))
  show "2 powi exponent x \<le> x" "x < 2 powi (exponent x + 1)"
    unfolding e using lo hi by (auto simp: not_le)
qed

lemma half_even_near: "\<lfloor>x\<rfloor> \<le> half_even x" "half_even x \<le> \<lfloor>x\<rfloor> + 1"
  by (simp_all add: half_even_def Let_def)

lemma half_even_mono:
  assumes "x \<le> y"
  shows "half_even x \<le> half_even y"
proof (cases "\<lfloor>x\<rfloor> = \<lfloor>y\<rfloor>")
  case True
  with assms show ?thesis by (auto simp: half_even_def Let_def)
next
  case False
  then have "\<lfloor>x\<rfloor> + 1 \<le> \<lfloor>y\<rfloor>" using floor_mono [OF assms] by linarith
  then show ?thesis using half_even_near [of x] half_even_near [of y] by linarith
qed

lemma half_even_int [simp]: "half_even (of_int n) = n"
  by (simp add: half_even_def Let_def)

lemma round_pos_nonneg: "0 \<le> round_pos x"
proof (cases "x \<le> 0")
  case False
  have "0 \<le> half_even (x / 2 powi e)" for e
    using half_even_mono [of 0 "x / 2 powi e"] half_even_int [of 0] False by simp
  then show ?thesis by (simp add: round_pos_def Let_def)
qed (simp add: round_pos_def)

text \<open>A multiple of the unit in the last place is kept.\<close>

lemma round_pos_exact:
  assumes "0 < x" "x = of_int k * 2 powi e" "max (- 1074) (exponent x - 52) \<le> e"
  shows "round_pos x = x"
proof -
  define e' where "e' = max (- 1074) (exponent x - 52)"
  obtain n where n: "e = e' + int n" using assms(3) unfolding e'_def by (metis zle_iff_zadd)
  have "x / 2 powi e' = of_int k * (2 powi e / 2 powi e')"
    by (subst assms(2)) simp
  also have "(2::rat) powi e / 2 powi e' = 2 ^ n"
    using power_int_diff [of "2::rat" e e'] n by simp
  finally have "x / 2 powi e' = of_int (k * 2 ^ n)" by simp
  then have "half_even (x / 2 powi e') = k * 2 ^ n" by (metis half_even_int)
  moreover have "of_int (k * 2 ^ n) * 2 powi e' = x"
    using \<open>x / 2 powi e' = of_int (k * 2 ^ n)\<close> by (simp add: field_simps)
  ultimately show ?thesis using assms(1) by (simp add: round_pos_def Let_def flip: e'_def)
qed

lemma powi_mono: "a \<le> b \<Longrightarrow> (2::rat) powi a \<le> 2 powi b"
  by (simp add: power_int_increasing)

lemma exponent_le: "0 < x \<Longrightarrow> x < 2 powi (e + 1) \<Longrightarrow> exponent x \<le> e"
  using exponent_bounds(1) [of x] powi_mono [of "e + 1" "exponent x"] by linarith

lemma exponent_ge: "0 < x \<Longrightarrow> 2 powi e \<le> x \<Longrightarrow> e \<le> exponent x"
  using exponent_bounds(2) [of x] powi_mono [of "exponent x + 1" e] by linarith

lemma exponent_mono: "0 < x \<Longrightarrow> x \<le> y \<Longrightarrow> exponent x \<le> exponent y"
  using exponent_bounds(1) [of x] by (intro exponent_ge) auto

lemma round_pos_mono:
  assumes "x \<le> y"
  shows "round_pos x \<le> round_pos y"
proof (cases "0 < x")
  case False
  then show ?thesis using round_pos_nonneg [of y] by (simp add: round_pos_def)
next
  case True
  define ex ey where "ex = max (- 1074) (exponent x - 52)" and "ey = max (- 1074) (exponent y - 52)"
  have le: "ex \<le> ey" using exponent_mono [OF True assms] by (simp add: ex_def ey_def)
  have rx: "round_pos x = of_int (half_even (x / 2 powi ex)) * 2 powi ex"
    and ry: "round_pos y = of_int (half_even (y / 2 powi ey)) * 2 powi ey"
    using True assms by (simp_all add: round_pos_def Let_def ex_def ey_def)
  show ?thesis
  proof (cases "ex = ey")
    case same: True
    have "half_even (x / 2 powi ex) \<le> half_even (y / 2 powi ex)"
      using assms by (intro half_even_mono divide_right_mono) auto
    then show ?thesis unfolding rx ry same [symmetric] by (intro mult_right_mono) simp_all
  next
    case False
    then have less: "ex + 1 \<le> ey" "ey = exponent y - 52" using le by (auto simp: ex_def ey_def)
    have y: "2 powi (ey + 52) \<le> y" using exponent_bounds(1) [of y] True assms less(2) by simp
    have x: "x \<le> 2 powi (ex + 53)"
    proof -
      have "x < 2 powi (exponent x + 1)" by (rule exponent_bounds [OF True])
      also have "\<dots> \<le> 2 powi (ex + 53)" by (rule powi_mono) (simp add: ex_def)
      finally show ?thesis by simp
    qed
    have "x / 2 powi ex \<le> 2 powi 53"
      using x by (simp add: divide_le_eq power_int_add mult.commute)
    then have "half_even (x / 2 powi ex) \<le> half_even (of_int (2 ^ 53))"
      by (intro half_even_mono) simp
    then have "of_int (half_even (x / 2 powi ex)) \<le> (2 ^ 53 :: rat)"
      by (simp only: half_even_int) (metis of_int_le_iff of_int_numeral of_int_power)
    then have 1: "round_pos x \<le> 2 powi (ex + 53)"
      unfolding rx by (simp add: power_int_add mult.commute)
    have "2 powi 52 \<le> y / 2 powi ey"
      using y by (simp add: le_divide_eq power_int_add mult.commute)
    then have "half_even (of_int (2 ^ 52)) \<le> half_even (y / 2 powi ey)"
      by (intro half_even_mono) simp
    then have "(2 ^ 52 :: rat) \<le> of_int (half_even (y / 2 powi ey))"
      by (simp only: half_even_int) (metis of_int_le_iff of_int_numeral of_int_power)
    then have 2: "2 powi (ey + 52) \<le> round_pos y"
      unfolding ry by (simp add: power_int_add mult.commute)
    have "(2::rat) powi (ex + 53) \<le> 2 powi (ey + 52)" by (rule powi_mono) (use less in simp)
    with 1 2 show ?thesis by linarith
  qed
qed

lemma round_pos_int:
  assumes "0 \<le> n" "n \<le> 9007199254740992"
  shows "round_pos (of_int n) = of_int n"
proof (cases "n = 0")
  case False
  then have pos: "(0::rat) < of_int n" using assms by simp
  show ?thesis
  proof (cases "n = 9007199254740992")
    case True
    have "exponent (of_int n) \<le> 53" using True by (intro exponent_le [OF pos]) simp
    then show ?thesis
      using True by (intro round_pos_exact [OF pos, of 4503599627370496 1]) simp_all
  next
    case False
    then have "n < 9007199254740992" using assms by simp
    then have "(of_int n :: rat) < 9007199254740992" by (metis of_int_less_iff of_int_numeral)
    then have "exponent (of_int n) \<le> 52" by (intro exponent_le [OF pos]) simp
    then show ?thesis by (intro round_pos_exact [OF pos, of n 0]) simp_all
  qed
qed (simp add: round_pos_def)

text \<open>Rounding of a number of either sign, where it does not overflow.\<close>

definition rnd :: "rat \<Rightarrow> rat" where
  "rnd x = (if 0 \<le> x then round_pos x else - round_pos (- x))"

lemma rnd_mono: "x \<le> y \<Longrightarrow> rnd x \<le> rnd y"
  using round_pos_mono [of x y] round_pos_mono [of "- y" "- x"] round_pos_nonneg [of "- x"] round_pos_nonneg [of y]
  by (simp add: rnd_def)

lemma rnd_int [simp]: "\<bar>n\<bar> \<le> 9007199254740992 \<Longrightarrow> rnd (of_int n) = of_int n"
  using round_pos_int [of n] round_pos_int [of "- n"] by (auto simp: rnd_def)

lemma rnd_0 [simp]: "rnd 0 = 0"
  using rnd_int [of 0] by simp

lemma rnd_nonneg: "0 \<le> x \<Longrightarrow> 0 \<le> rnd x"
  using rnd_mono [of 0 x] by simp

lemma round_f64_Fin:
  assumes "round_pos \<bar>x\<bar> < 2 ^ 1024"
  shows "round_f64 x = Fin (rnd x)"
proof -
  have "exponent (round_pos \<bar>x\<bar>) < 1024" if "0 < round_pos \<bar>x\<bar>"
  proof (rule ccontr)
    assume "\<not> exponent (round_pos \<bar>x\<bar>) < 1024"
    then have "2 powi 1024 \<le> round_pos \<bar>x\<bar>"
      using exponent_bounds(1) [OF that] powi_mono [of 1024 "exponent (round_pos \<bar>x\<bar>)"] by simp
    moreover have "(2::rat) powi 1024 = 2 ^ 1024" using power_int_of_nat [of "2::rat" 1024] by simp
    ultimately show False using assms by simp
  qed
  then show ?thesis by (auto simp: round_f64_def rnd_def Let_def)
qed

lemma round_f64_small:
  assumes "\<bar>x\<bar> \<le> 9007199254740992"
  shows "round_f64 x = Fin (rnd x)"
proof (rule round_f64_Fin)
  have "round_pos \<bar>x\<bar> \<le> 9007199254740992"
    using round_pos_mono [OF assms] round_pos_int [of 9007199254740992] by simp
  also have "\<dots> < (2::rat) ^ 1024"
    using power_strict_increasing [of 53 1024 "2::rat"] by simp
  finally show "round_pos \<bar>x\<bar> < 2 ^ 1024" .
qed

lemma f64_of_int_small [simp]: "\<bar>n\<bar> \<le> 9007199254740992 \<Longrightarrow> f64_of_int n = Fin (of_int n)"
  using round_f64_small [of "of_int n"] rnd_int [of n]
  by (simp add: f64_of_int_def)

section \<open>Representable numbers\<close>

definition representable :: "rat \<Rightarrow> bool" where
  "representable x \<longleftrightarrow> rnd x = x"

lemma representable_int [simp]: "\<bar>n\<bar> \<le> 9007199254740992 \<Longrightarrow> representable (of_int n)"
  by (simp add: representable_def)

lemma round_pos_form:
  assumes "0 < x"
  shows "\<exists>k. round_pos x = of_int k * 2 powi (max (- 1074) (exponent x - 52)) \<and> k \<le> 2 ^ 53"
proof -
  define e where "e = max (- 1074) (exponent x - 52)"
  have "x < 2 powi (exponent x + 1)" by (rule exponent_bounds [OF assms])
  also have "\<dots> \<le> 2 powi (e + 53)" by (rule powi_mono) (simp add: e_def)
  finally have "x / 2 powi e \<le> of_int (2 ^ 53)" by (simp add: divide_le_eq power_int_add mult.commute)
  then have "half_even (x / 2 powi e) \<le> 2 ^ 53" using half_even_mono half_even_int by metis
  moreover have "round_pos x = of_int (half_even (x / 2 powi e)) * 2 powi e"
    using assms by (simp add: round_pos_def Let_def e_def)
  ultimately show ?thesis unfolding e_def by blast
qed

lemma round_pos_idem [simp]: "round_pos (round_pos x) = round_pos x"
proof (cases "0 < x \<and> 0 < round_pos x")
  case True
  define e where "e = max (- 1074) (exponent x - 52)"
  obtain k where r: "round_pos x = of_int k * 2 powi e" and k: "k \<le> 2 ^ 53"
    using round_pos_form [of x] True by (auto simp: e_def)
  show ?thesis
  proof (cases "k = 2 ^ 53")
    case top: True
    have "round_pos x = of_int (2 ^ 52) * 2 powi (e + 1)"
      by (simp add: r top power_int_add)
    moreover have "round_pos x < 2 powi (e + 53 + 1)"
      using r top by (simp add: power_int_add)
    then have "exponent (round_pos x) \<le> e + 53" using True by (intro exponent_le) auto
    ultimately show ?thesis using True by (intro round_pos_exact [of _ "2 ^ 52" "e + 1"]) (auto simp: e_def)
  next
    case False
    then have "(of_int k :: rat) < 2 ^ 53" using k by (metis of_int_less_iff of_int_numeral of_int_power order_le_less)
    then have "round_pos x < 2 powi (e + 52 + 1)"
      unfolding r by (simp add: power_int_add mult.commute)
    then have "exponent (round_pos x) \<le> e + 52" using True by (intro exponent_le) auto
    then show ?thesis using True r by (intro round_pos_exact [of _ k e]) (auto simp: e_def)
  qed
next
  case False
  then have "round_pos x = 0" using round_pos_nonneg [of x] by (auto simp: round_pos_def)
  then show ?thesis by (simp add: round_pos_def)
qed

lemma representable_rnd [simp]: "representable (rnd x)"
proof (cases "0 \<le> x")
  case True
  then show ?thesis using round_pos_nonneg [of x] by (simp add: representable_def rnd_def)
next
  case False
  show ?thesis
  proof (cases "round_pos (- x) = 0")
    case True
    with False have "rnd x = 0" by (simp add: rnd_def)
    then show ?thesis by (simp add: representable_def)
  next
    case nz: False
    with False round_pos_nonneg [of "- x"] show ?thesis by (simp add: representable_def rnd_def)
  qed
qed

text \<open>Taking one away from a representable number of at least one is exact.\<close>

lemma representable_minus_one:
  assumes "representable x" "1 \<le> x" "x \<le> 9007199254740992"
  shows "rnd (x - 1) = x - 1"
proof (cases "x = 9007199254740992 \<or> x = 1")
  case True
  then show ?thesis using rnd_int [of 9007199254740991] by auto
next
  case False
  then have x: "0 < x" "1 < x" "x < 9007199254740992" using assms by auto
  define e where "e = max (- 1074) (exponent x - 52)"
  have "exponent x \<le> 52" by (rule exponent_le) (use x in auto)
  then have e: "e \<le> 0" by (simp add: e_def)
  obtain k where k: "x = of_int k * 2 powi e"
    using round_pos_form [OF x(1)] assms(1) x(1) by (auto simp: representable_def rnd_def e_def)
  have "(2::rat) powi (- e) = of_int (2 ^ nat (- e))" using e by (simp add: power_int_def)
  then have "(1::rat) = of_int (2 ^ nat (- e)) * 2 powi e"
    using power_int_minus [of "2::rat" e] by (metis left_inverse power_int_not_zero zero_neq_numeral)
  then have "x - 1 = of_int (k - 2 ^ nat (- e)) * 2 powi e"
    using k by (simp add: left_diff_distrib)
  moreover have "exponent (x - 1) \<le> exponent x" using x(2) by (intro exponent_mono) auto
  then have "max (- 1074) (exponent (x - 1) - 52) \<le> e" unfolding e_def by linarith
  ultimately have "round_pos (x - 1) = x - 1"
    using round_pos_exact [of "x - 1" "k - 2 ^ nat (- e)" e] x(2) unfolding e_def by linarith
  then show ?thesis using x(2) by (simp add: rnd_def)
qed

section \<open>The rounding error\<close>

text \<open>Half a unit in the last place; relative to the number \<open>2^-53\<close>, and at the bottom \<open>2^-1075\<close>.\<close>

definition ulp_rel :: rat where
  "ulp_rel = 1 / 9007199254740992"

definition ulp_abs :: rat where
  "ulp_abs = 2 powi (- 1075)"

lemma half_even_error: "\<bar>of_int (half_even x) - x\<bar> \<le> 1 / 2"
proof -
  have "of_int \<lfloor>x\<rfloor> \<le> x" "x < of_int \<lfloor>x\<rfloor> + 1" by linarith+
  then show ?thesis by (auto simp: half_even_def Let_def)
qed

lemma round_pos_ulp:
  assumes "0 < x"
  shows "\<bar>round_pos x - x\<bar> \<le> 2 powi (max (- 1074) (exponent x - 52) - 1)"
proof -
  define e where "e = max (- 1074) (exponent x - 52)"
  have "round_pos x - x = (of_int (half_even (x / 2 powi e)) - x / 2 powi e) * 2 powi e"
    using assms by (simp add: round_pos_def Let_def algebra_simps flip: e_def)
  then have "\<bar>round_pos x - x\<bar> \<le> 1 / 2 * 2 powi e"
    using half_even_error [of "x / 2 powi e"] by (simp add: abs_mult mult_right_mono)
  also have "\<dots> = 2 powi (e - 1)" using power_int_diff [of "2::rat" e 1] by simp
  finally show ?thesis by (simp add: e_def)
qed

lemma ulp_of_exponent:
  assumes "0 < x"
  shows "2 powi (exponent x - 53) \<le> x * ulp_rel"
proof -
  have "2 powi (exponent x - 53) = 2 powi exponent x * ulp_rel"
    using power_int_diff [of "2::rat" "exponent x" 53] by (simp add: ulp_rel_def)
  also have "\<dots> \<le> x * ulp_rel"
    using exponent_bounds(1) [OF assms] by (intro mult_right_mono) (simp_all add: ulp_rel_def)
  finally show ?thesis .
qed

lemma rnd_error_normal:
  assumes "2 powi (- 1022) \<le> x"
  shows "\<bar>rnd x - x\<bar> \<le> x * ulp_rel"
proof -
  have pos: "0 < x" by (rule less_le_trans [OF _ assms]) simp
  have "max (- 1074) (exponent x - 52) - 1 = exponent x - 53" using exponent_ge [OF pos assms] by simp
  then have "\<bar>round_pos x - x\<bar> \<le> 2 powi (exponent x - 53)" using round_pos_ulp [OF pos] by metis
  then show ?thesis using ulp_of_exponent [OF pos] pos by (simp add: rnd_def)
qed

lemma rnd_error:
  assumes "0 \<le> x"
  shows "\<bar>rnd x - x\<bar> \<le> x * ulp_rel + ulp_abs"
proof (cases "2 powi (- 1022) \<le> x")
  case True
  from rnd_error_normal [OF this] show ?thesis by (simp add: ulp_abs_def add_increasing2)
next
  case False
  show ?thesis
  proof (cases "x = 0")
    case pos: False
    then have "exponent x \<le> - 1023" using assms False by (intro exponent_le) simp_all
    then have "max (- 1074) (exponent x - 52) - 1 = - 1075" by simp
    then have "\<bar>round_pos x - x\<bar> \<le> ulp_abs" using round_pos_ulp [of x] pos assms by (simp add: ulp_abs_def)
    moreover have "0 \<le> x * ulp_rel" using assms by (simp add: ulp_rel_def)
    ultimately show ?thesis using assms by (simp add: rnd_def)
  qed (simp add: ulp_abs_def)
qed

lemma rnd_upper: "0 \<le> x \<Longrightarrow> rnd x \<le> x * (1 + ulp_rel) + ulp_abs"
  using rnd_error [of x] by (simp add: algebra_simps)

lemma rnd_upper_normal: "2 powi (- 1022) \<le> x \<Longrightarrow> rnd x \<le> x * (1 + ulp_rel)"
  using rnd_error_normal [of x] by (simp add: distrib_left)

lemma rnd_lower_normal: "2 powi (- 1022) \<le> x \<Longrightarrow> x * (1 - ulp_rel) \<le> rnd x"
  using rnd_error_normal [of x] by (simp add: right_diff_distrib)

text \<open>A number of at least \<open>2^-60\<close> is far from the smallest ones.\<close>

lemma rnd_near:
  assumes "1 / 1152921504606846976 \<le> x"
  shows "x * (1 - ulp_rel) \<le> rnd x" "rnd x \<le> x * (1 + ulp_rel)"
proof -
  have "(2::rat) powi (- 1022) \<le> 2 powi (- 60)" by (rule powi_mono) simp
  also have "(2::rat) powi (- 60) = 1 / 1152921504606846976" by (simp add: power_int_minus)
  finally have "2 powi (- 1022) \<le> x" using assms by simp
  then show "x * (1 - ulp_rel) \<le> rnd x" "rnd x \<le> x * (1 + ulp_rel)"
    by (simp_all add: rnd_lower_normal rnd_upper_normal)
qed

lemma ulp_rel_bounds: "0 < ulp_rel" "ulp_rel \<le> 1 / 9007199254740992"
  by (simp_all add: ulp_rel_def)

lemma ulp_abs_bounds: "0 < ulp_abs" "ulp_abs \<le> ulp_rel / 8"
proof -
  show "0 < ulp_abs" by (simp add: ulp_abs_def)
  have "(2::rat) powi (- 1075) \<le> 2 powi (- 56)" by (rule powi_mono) simp
  also have "(2::rat) powi (- 56) = ulp_rel / 8" by (simp add: ulp_rel_def power_int_minus)
  finally show "ulp_abs \<le> ulp_rel / 8" by (simp add: ulp_abs_def)
qed

text \<open>Far from the largest number nothing overflows.\<close>

lemma round_f64_moderate:
  assumes "0 \<le> x" "x \<le> 1152921504606846976"
  shows "round_f64 x = Fin (rnd x)"
proof (rule round_f64_Fin)
  have "rnd x \<le> x * (1 + ulp_rel) + ulp_abs" by (rule rnd_upper [OF assms(1)])
  also have "\<dots> \<le> 1152921504606846976 * 2 + 1"
    using assms ulp_rel_bounds ulp_abs_bounds by (intro add_mono mult_mono) auto
  also have "\<dots> < (2::rat) ^ 1024"
    using power_strict_increasing [of 62 1024 "2::rat"] by simp
  finally show "round_pos \<bar>x\<bar> < 2 ^ 1024" using assms(1) by (simp add: rnd_def)
qed

end
