(* ===== verification/RateLimit.thy ===== *)
theory RateLimit
  imports GoFloat GoTime SqlDb
begin

text \<open>
  \<open>internal/ratelimit\<close>: the interface \<open>Limiter\<close> with a contract, the limiter in memory and the
  limiter in Redis. The first keeps one \<open>rate.Limiter\<close> of \<open>golang.org/x/time\<close> per client,
  whose two operations are a parameter; the second runs a Lua script of the repository, which
  is modelled with the arithmetic of binary64. Reading the clock twice in one call gives the
  same instant, and Redis expires keys by the same clock.
\<close>

record 'l limiter_ops =
  lim_Allow :: "instant \<Rightarrow> string \<Rightarrow> ('l, string, bool) call"
  lim_Ping :: "('l, string, unit) call"
  lim_Close :: "('l, string, unit) call"

text \<open>The key a request without an address is counted under.\<close>

definition limit_key :: "string \<Rightarrow> string" where
  "limit_key key = (if key = [] then ''unknown'' else key)"

section \<open>In memory\<close>

record 'b bucket_ops =
  bk_New :: "f64 \<Rightarrow> int \<Rightarrow> 'b"
  bk_Allow :: "instant \<Rightarrow> 'b \<Rightarrow> bool \<times> 'b"

record 'b client =
  cl_limiter :: 'b
  cl_lastSeen :: instant

record 'b memory =
  mem_limit :: f64
  mem_burst :: int
  mem_ttl :: duration
  mem_clients :: "string \<rightharpoonup> 'b client"

definition NewMemory :: "f64 \<Rightarrow> int \<Rightarrow> duration \<Rightarrow> 'b memory" where
  "NewMemory perMinute burst ttl =
     \<lparr>mem_limit = f64_div perMinute (f64_of_int 60), mem_burst = burst, mem_ttl = ttl,
      mem_clients = (\<lambda>_. None)\<rparr>"

text \<open>\<open>time.Sub\<close> saturates at the ends of \<open>int64\<close>.\<close>

definition time_sub :: "instant \<Rightarrow> instant \<Rightarrow> duration" where
  "time_sub t u = max (- 9223372036854775808) (min 9223372036854775807 (t - u))"

definition mem_cleanup :: "instant \<Rightarrow> 'b memory \<Rightarrow> 'b memory" where
  "mem_cleanup now l =
     l\<lparr>mem_clients := (\<lambda>k. case mem_clients l k of
         None \<Rightarrow> None
       | Some entry \<Rightarrow> if mem_ttl l < time_sub now (cl_lastSeen entry) then None else Some entry)\<rparr>"

definition mem_Allow :: "'b bucket_ops \<Rightarrow> instant \<Rightarrow> string \<Rightarrow> ('b memory, string, bool) call" where
  "mem_Allow bk now key0 l0 =
     (let key = limit_key key0;
          l = mem_cleanup now l0;
          entry = (case mem_clients l key of
              None \<Rightarrow> \<lparr>cl_limiter = bk_New bk (mem_limit l) (mem_burst l), cl_lastSeen = now\<rparr>
            | Some e \<Rightarrow> e\<lparr>cl_lastSeen := now\<rparr>);
          (ok, b) = bk_Allow bk now (cl_limiter entry)
      in (Inr ok, l\<lparr>mem_clients := (mem_clients l)(key \<mapsto> entry\<lparr>cl_limiter := b\<rparr>)\<rparr>))"

definition mem_Ping :: "('b memory, string, unit) call" where
  "mem_Ping l = (Inr (), l)"

definition mem_Close :: "('b memory, string, unit) call" where
  "mem_Close l = (Inr (), l)"

definition memory_ops :: "'b bucket_ops \<Rightarrow> 'b memory limiter_ops" where
  "memory_ops bk = \<lparr>lim_Allow = mem_Allow bk, lim_Ping = mem_Ping, lim_Close = mem_Close\<rparr>"

section \<open>In Redis\<close>

text \<open>A hash of the script, with the time it expires at (in milliseconds).\<close>

record redis_hash =
  h_tokens :: f64
  h_last :: f64
  h_expires :: int

record redis =
  rd_keys :: "string \<rightharpoonup> redis_hash"
  rd_faults :: "string fault list"

record redis_limiter =
  rl_ratePerSec :: f64
  rl_burst :: int
  rl_stateTTL :: duration
  rl_keyPrefix :: string

definition NewRedis ::
  "(f64 \<Rightarrow> int) \<Rightarrow> string \<Rightarrow> f64 \<Rightarrow> int \<Rightarrow> duration \<Rightarrow> string \<Rightarrow> string + redis_limiter" where
  "NewRedis wild addr perMinute burst ttl keyPrefix =
     (if trim_space addr = [] then Inl ''redis addr is required''
      else
        (let prefix = (if trim_space keyPrefix = [] then ''i8sl:rate_limit'' else keyPrefix);
             refill = int64_of_f64 wild
               (f64_mul (f64_mul (f64_div (f64_of_int burst) perMinute) (f64_of_int 60)) (f64_of_int second));
             ttl1 = (if f64_less (Fin 0) perMinute \<and> 0 < burst \<and> ttl < refill then refill else ttl);
             stateTTL = (if ttl1 < minute then minute else ttl1)
         in Inr \<lparr>rl_ratePerSec = f64_div perMinute (f64_of_int 60), rl_burst = burst,
              rl_stateTTL = stateTTL, rl_keyPrefix = prefix\<rparr>))"

text \<open>Lua's \<open>math.max\<close> and \<open>math.min\<close> of two numbers.\<close>

definition lua_max :: "f64 \<Rightarrow> f64 \<Rightarrow> f64" where
  "lua_max a b = (if f64_less a b then b else a)"

definition lua_min :: "f64 \<Rightarrow> f64 \<Rightarrow> f64" where
  "lua_min a b = (if f64_less b a then b else a)"

text \<open>
  The script: from the fields of the hash (\<open>None\<close> is \<open>nil\<close>) to whether the request is
  allowed and the tokens that are left.
\<close>

definition script_tokens :: "f64 \<Rightarrow> f64 \<Rightarrow> f64 \<Rightarrow> f64 option \<Rightarrow> f64 option \<Rightarrow> f64" where
  "script_tokens now rate burst tokens last0 =
     (case tokens of
        None \<Rightarrow> burst
      | Some t \<Rightarrow>
          (let last = (case last0 of None \<Rightarrow> now | Some l \<Rightarrow> l);
               elapsed = f64_div (lua_max (Fin 0) (f64_sub now last)) (Fin 1000)
           in lua_min burst (f64_add t (f64_mul elapsed rate))))"

definition token_script :: "f64 \<Rightarrow> f64 \<Rightarrow> f64 \<Rightarrow> f64 option \<Rightarrow> f64 option \<Rightarrow> int \<times> f64" where
  "token_script now rate burst tokens0 last0 =
     (let tokens = script_tokens now rate burst tokens0 last0 in
      if f64_le (Fin 1) tokens then (1, f64_sub tokens (Fin 1)) else (0, tokens))"

definition unix_milli :: "instant \<Rightarrow> int" where
  "unix_milli t = t div 1000000"

text \<open>The hash under a key that has not expired: Redis drops a key after the millisecond of its expiry.\<close>

definition redis_get :: "redis \<Rightarrow> int \<Rightarrow> string \<Rightarrow> redis_hash option" where
  "redis_get s ms key =
     (case rd_keys s key of None \<Rightarrow> None | Some h \<Rightarrow> if ms \<le> h_expires h then Some h else None)"

text \<open>One run of the script at the server; its replies and the keys it leaves.\<close>

definition redis_run :: "redis_limiter \<Rightarrow> instant \<Rightarrow> string \<Rightarrow> redis \<Rightarrow> int \<times> redis" where
  "redis_run l now key s =
     (let ms = unix_milli now;
          h = redis_get s ms key;
          (allowed, tokens) = token_script (f64_of_int ms) (rl_ratePerSec l) (f64_of_int (rl_burst l))
            (map_option h_tokens h) (map_option h_last h)
      in (allowed, s\<lparr>rd_keys := (rd_keys s)(key \<mapsto>
            \<lparr>h_tokens = tokens, h_last = f64_of_int ms,
             h_expires = ms + rl_stateTTL l div 1000000\<rparr>)\<rparr>))"

definition redis_fault :: "redis \<Rightarrow> string fault \<times> redis" where
  "redis_fault s = (case rd_faults s of [] \<Rightarrow> (Works, s) | f # fs \<Rightarrow> (f, s\<lparr>rd_faults := fs\<rparr>))"

definition redis_Allow :: "redis_limiter \<Rightarrow> instant \<Rightarrow> string \<Rightarrow> (redis, string, bool) call" where
  "redis_Allow l now key0 s0 =
     (let key = limit_key key0;
          full = rl_keyPrefix l @ '':'' @ key
      in case redis_fault s0 of
           (Fails e, s) \<Rightarrow> (Inl (''redis rate limit: '' @ e), s)
         | (AckLost e, s) \<Rightarrow> (Inl (''redis rate limit: '' @ e), snd (redis_run l now full s))
         | (Works, s) \<Rightarrow> (case redis_run l now full s of (result, s') \<Rightarrow> (Inr (result = 1), s')))"

definition redis_Ping :: "(redis, string, unit) call" where
  "redis_Ping s =
     (case redis_fault s of (Works, s') \<Rightarrow> (Inr (), s') | (Fails e, s') \<Rightarrow> (Inl e, s') | (AckLost e, s') \<Rightarrow> (Inl e, s'))"

definition redis_Close :: "(redis, string, unit) call" where
  "redis_Close s =
     (case redis_fault s of (Works, s') \<Rightarrow> (Inr (), s') | (Fails e, s') \<Rightarrow> (Inl e, s') | (AckLost e, s') \<Rightarrow> (Inl e, s'))"

definition redis_ops :: "redis_limiter \<Rightarrow> redis limiter_ops" where
  "redis_ops l = \<lparr>lim_Allow = redis_Allow l, lim_Ping = redis_Ping, lim_Close = redis_Close\<rparr>"

section \<open>The interface value\<close>

text \<open>A value of the interface \<open>Limiter\<close>: one of the two, whose methods a call dispatches to.\<close>

datatype 'b any_limiter = MemoryLimiter "'b memory" | RedisLimiter redis_limiter redis

definition any_Allow :: "'b bucket_ops \<Rightarrow> instant \<Rightarrow> string \<Rightarrow> ('b any_limiter, string, bool) call" where
  "any_Allow bk now key s =
     (case s of
        MemoryLimiter m \<Rightarrow> (case mem_Allow bk now key m of (res, m') \<Rightarrow> (res, MemoryLimiter m'))
      | RedisLimiter l r \<Rightarrow> (case redis_Allow l now key r of (res, r') \<Rightarrow> (res, RedisLimiter l r')))"

definition any_lim_Ping :: "('b any_limiter, string, unit) call" where
  "any_lim_Ping s =
     (case s of
        MemoryLimiter m \<Rightarrow> (case mem_Ping m of (res, m') \<Rightarrow> (res, MemoryLimiter m'))
      | RedisLimiter l r \<Rightarrow> (case redis_Ping r of (res, r') \<Rightarrow> (res, RedisLimiter l r')))"

definition any_lim_Close :: "('b any_limiter, string, unit) call" where
  "any_lim_Close s =
     (case s of
        MemoryLimiter m \<Rightarrow> (case mem_Close m of (res, m') \<Rightarrow> (res, MemoryLimiter m'))
      | RedisLimiter l r \<Rightarrow> (case redis_Close r of (res, r') \<Rightarrow> (res, RedisLimiter l r')))"

definition any_limiter_ops :: "'b bucket_ops \<Rightarrow> 'b any_limiter limiter_ops" where
  "any_limiter_ops bk = \<lparr>lim_Allow = any_Allow bk, lim_Ping = any_lim_Ping, lim_Close = any_lim_Close\<rparr>"

section \<open>The contract of a limiter\<close>

text \<open>
  \<open>budget l now key\<close> is how many requests under the key the limiter can still allow at one
  instant. A client of the contract is the count of allowed requests in a sequence.
\<close>

fun allowed_at :: "'l limiter_ops \<Rightarrow> instant \<Rightarrow> string \<Rightarrow> string list \<Rightarrow> 'l \<Rightarrow> nat" where
  "allowed_at ops now key [] l = 0"
| "allowed_at ops now key (k # ks) l =
     (if limit_key k = limit_key key \<and> fst (lim_Allow ops now k l) = Inr True then 1 else 0)
     + allowed_at ops now key ks (snd (lim_Allow ops now k l))"

text \<open>The state after calls at any times by any clients.\<close>

fun calls_after :: "'l limiter_ops \<Rightarrow> (instant \<times> string) list \<Rightarrow> 'l \<Rightarrow> 'l" where
  "calls_after ops [] l = l"
| "calls_after ops ((now, key) # cs) l = calls_after ops cs (snd (lim_Allow ops now key l))"

locale limiter =
  fixes ops :: "'l limiter_ops"
    and wf :: "'l \<Rightarrow> bool"
    and timely :: "instant \<Rightarrow> bool"
    and budget :: "'l \<Rightarrow> instant \<Rightarrow> string \<Rightarrow> int"
    and burst :: int
  assumes allow_wf: "wf l \<Longrightarrow> timely now \<Longrightarrow> lim_Allow ops now key l = (res, l') \<Longrightarrow> wf l'"
    and ping_wf: "wf l \<Longrightarrow> lim_Ping ops l = (u, l') \<Longrightarrow> wf l'"
    and budget_nonneg: "wf l \<Longrightarrow> timely now \<Longrightarrow> 0 \<le> budget l now key"
    and budget_burst: "wf l \<Longrightarrow> timely now \<Longrightarrow> budget l now key \<le> burst"
    and budget_allowed: "wf l \<Longrightarrow> timely now \<Longrightarrow> lim_Allow ops now key l = (Inr True, l') \<Longrightarrow>
      limit_key key = limit_key key' \<Longrightarrow> budget l' now key' \<le> budget l now key' - 1"
    and budget_step: "wf l \<Longrightarrow> timely now \<Longrightarrow> lim_Allow ops now key l = (res, l') \<Longrightarrow>
      budget l' now key' \<le> budget l now key'"
begin

text \<open>At one instant a client gets through at most \<open>burst\<close> times, whoever else asks.\<close>

lemma allowed_le_budget:
  assumes "timely now"
  shows "wf l \<Longrightarrow> int (allowed_at ops now key ks l) \<le> budget l now key"
proof (induction ks arbitrary: l)
  case (Cons k ks)
  obtain res l' where a: "lim_Allow ops now k l = (res, l')" by fastforce
  note IH = Cons.IH [OF allow_wf [OF Cons.prems assms a]]
  show ?case
  proof (cases "limit_key k = limit_key key \<and> res = Inr True")
    case True
    then have "budget l' now key \<le> budget l now key - 1"
      using budget_allowed [OF Cons.prems assms, of k l' key] a by simp
    with IH a True show ?thesis by simp
  next
    case False
    with IH budget_step [OF Cons.prems assms a, of key] a show ?thesis by auto
  qed
qed (simp add: budget_nonneg assms)

lemma calls_after_wf: "wf l \<Longrightarrow> list_all (\<lambda>c. timely (fst c)) cs \<Longrightarrow> wf (calls_after ops cs l)"
proof (induction cs arbitrary: l)
  case (Cons c cs)
  obtain now key where c: "c = (now, key)" by fastforce
  obtain res l' where a: "lim_Allow ops now key l = (res, l')" by fastforce
  have "wf l'" using allow_wf [OF Cons.prems(1) _ a] Cons.prems(2) c by simp
  then show ?case using Cons.IH [of l'] Cons.prems(2) c a by simp
qed simp

lemma allowed_le_burst: "wf l \<Longrightarrow> timely now \<Longrightarrow> int (allowed_at ops now key ks l) \<le> burst"
  using allowed_le_budget budget_burst order_trans by blast

end

section \<open>The limiter in memory keeps the contract\<close>

text \<open>
  What \<open>golang.org/x/time/rate\<close> documents of one limiter: a new one has a burst to spend, and
  what it allows at one instant it spends.
\<close>

locale bucket =
  fixes bk :: "'b bucket_ops"
    and limit :: f64
    and burst :: int
    and ttl :: duration
    and bwf :: "'b \<Rightarrow> bool"
    and left :: "'b \<Rightarrow> instant \<Rightarrow> int"
  assumes burst_nonneg: "0 \<le> burst"
    and ttl_nonneg: "0 \<le> ttl"
    and new: "bwf (bk_New bk limit burst)" "left (bk_New bk limit burst) now \<le> burst"
    and allow: "bwf b \<Longrightarrow> bk_Allow bk now b = (ok, b') \<Longrightarrow>
      bwf b' \<and> left b' now \<le> left b now - (if ok then 1 else 0)"
    and left: "bwf b \<Longrightarrow> 0 \<le> left b now \<and> left b now \<le> burst"
begin

definition mwf :: "'b memory \<Rightarrow> bool" where
  "mwf l \<longleftrightarrow> mem_limit l = limit \<and> mem_burst l = burst \<and> mem_ttl l = ttl
     \<and> (\<forall>k e. mem_clients l k = Some e \<longrightarrow> bwf (cl_limiter e))"

definition mbudget :: "'b memory \<Rightarrow> instant \<Rightarrow> string \<Rightarrow> int" where
  "mbudget l now key =
     (case mem_clients (mem_cleanup now l) (limit_key key) of None \<Rightarrow> burst | Some e \<Rightarrow> left (cl_limiter e) now)"

lemma cleanup_Some: "mem_clients (mem_cleanup now l) k = Some e \<longleftrightarrow>
    mem_clients l k = Some e \<and> \<not> mem_ttl l < time_sub now (cl_lastSeen e)"
  by (auto simp: mem_cleanup_def split: option.splits)

text \<open>The entry of a client that calls, before its bucket is asked.\<close>

definition entry_of :: "instant \<Rightarrow> 'b memory \<Rightarrow> string \<Rightarrow> 'b client" where
  "entry_of now l key =
     (case mem_clients (mem_cleanup now l) (limit_key key) of
        None \<Rightarrow> \<lparr>cl_limiter = bk_New bk limit burst, cl_lastSeen = now\<rparr> | Some e \<Rightarrow> e\<lparr>cl_lastSeen := now\<rparr>)"

lemma entry_ok:
  assumes "mwf l"
  shows "bwf (cl_limiter (entry_of now l key))" "left (cl_limiter (entry_of now l key)) now \<le> mbudget l now key"
    "cl_lastSeen (entry_of now l key) = now"
proof -
  show "cl_lastSeen (entry_of now l key) = now" by (simp add: entry_of_def split: option.split)
  have "bwf (cl_limiter (entry_of now l key)) \<and> left (cl_limiter (entry_of now l key)) now \<le> mbudget l now key"
  proof (cases "mem_clients (mem_cleanup now l) (limit_key key)")
    case None
    then show ?thesis using new by (simp add: entry_of_def mbudget_def)
  next
    case (Some e')
    then have "bwf (cl_limiter e')" using assms cleanup_Some unfolding mwf_def by blast
    with Some show ?thesis by (simp add: entry_of_def mbudget_def)
  qed
  then show "bwf (cl_limiter (entry_of now l key))" "left (cl_limiter (entry_of now l key)) now \<le> mbudget l now key"
    by simp_all
qed

lemma allow_entry:
  assumes "mwf l" "mem_Allow bk now key l = (res, l')"
  obtains b ok where "bk_Allow bk now (cl_limiter (entry_of now l key)) = (ok, b)" "res = Inr ok"
    "l' = (mem_cleanup now l)\<lparr>mem_clients := (mem_clients (mem_cleanup now l))
       (limit_key key \<mapsto> \<lparr>cl_limiter = b, cl_lastSeen = now\<rparr>)\<rparr>"
proof -
  define l1 where "l1 = mem_cleanup now l"
  have l1: "mem_limit l1 = limit" "mem_burst l1 = burst"
    using assms(1) by (simp_all add: l1_def mem_cleanup_def mwf_def)
  define e where "e = entry_of now l key"
  have e: "e = (case mem_clients l1 (limit_key key) of
      None \<Rightarrow> \<lparr>cl_limiter = bk_New bk limit burst, cl_lastSeen = now\<rparr> | Some e \<Rightarrow> e\<lparr>cl_lastSeen := now\<rparr>)"
    by (simp add: e_def entry_of_def l1_def)
  obtain ok b where b: "bk_Allow bk now (cl_limiter e) = (ok, b)" by fastforce
  have "(Inr ok, l1\<lparr>mem_clients := (mem_clients l1)(limit_key key \<mapsto> e\<lparr>cl_limiter := b\<rparr>)\<rparr>) = (res, l')"
    using assms(2) unfolding mem_Allow_def Let_def l1_def [symmetric] l1 e [symmetric] b by simp
  moreover have "e\<lparr>cl_limiter := b\<rparr> = \<lparr>cl_limiter = b, cl_lastSeen = now\<rparr>"
    using entry_ok(3) [OF assms(1), of now key] by (cases e) (simp add: e_def)
  ultimately show thesis using b by (intro that [of ok b]) (auto simp: l1_def e_def)
qed

lemma allow_result:
  assumes "mwf l" "mem_Allow bk now key l = (res, l')"
  obtains e b ok where "res = Inr ok" "bwf b" "left b now \<le> mbudget l now key - (if ok then 1 else 0)"
    "cl_lastSeen e = now" "cl_limiter e = b"
    "l' = (mem_cleanup now l)\<lparr>mem_clients := (mem_clients (mem_cleanup now l))(limit_key key \<mapsto> e)\<rparr>"
proof -
  obtain b ok where b: "bk_Allow bk now (cl_limiter (entry_of now l key)) = (ok, b)" and r: "res = Inr ok"
    "l' = (mem_cleanup now l)\<lparr>mem_clients := (mem_clients (mem_cleanup now l))
       (limit_key key \<mapsto> \<lparr>cl_limiter = b, cl_lastSeen = now\<rparr>)\<rparr>"
    by (rule allow_entry [OF assms])
  note e = entry_ok [OF assms(1), of now key]
  from allow [OF e(1) b] e(2) have "bwf b" "left b now \<le> mbudget l now key - (if ok then 1 else 0)"
    by (auto dest: spec [of _ now])
  with r show thesis by (intro that) (auto intro: that)
qed

text \<open>What was just used is not cleaned up at the same instant.\<close>

lemma clients_after:
  assumes "mwf l" "cl_lastSeen e = now"
    "l' = (mem_cleanup now l)\<lparr>mem_clients := (mem_clients (mem_cleanup now l))(k \<mapsto> e)\<rparr>"
  shows "mem_clients (mem_cleanup now l') k' = (if k' = k then Some e else mem_clients (mem_cleanup now l) k')"
proof (cases "k' = k")
  case True
  then have "mem_clients l' k' = Some e" by (simp add: assms(3))
  moreover have "\<not> mem_ttl l' < time_sub now (cl_lastSeen e)"
    using assms(1,2) ttl_nonneg by (simp add: time_sub_def mwf_def assms(3) mem_cleanup_def)
  ultimately show ?thesis using True cleanup_Some [of now l' k' e] by simp
next
  case False
  then have same: "mem_clients l' k' = mem_clients (mem_cleanup now l) k'" by (simp add: assms(3))
  show ?thesis
  proof (cases "mem_clients (mem_cleanup now l) k'")
    case None
    with same False show ?thesis by (simp add: mem_cleanup_def [of now l'])
  next
    case (Some e')
    then have "\<not> mem_ttl l' < time_sub now (cl_lastSeen e')"
      using cleanup_Some [of now l k' e'] by (simp add: assms(3) mem_cleanup_def)
    with Some same False cleanup_Some [of now l' k' e'] show ?thesis by simp
  qed
qed

lemma budget_after:
  assumes "mwf l" "cl_lastSeen e = now"
    "l' = (mem_cleanup now l)\<lparr>mem_clients := (mem_clients (mem_cleanup now l))(k \<mapsto> e)\<rparr>"
  shows "mbudget l' now key = (if limit_key key = k then left (cl_limiter e) now else mbudget l now key)"
  by (simp add: mbudget_def clients_after [OF assms])

lemma after_wf:
  assumes "mwf l" "bwf (cl_limiter e)"
    "l' = (mem_cleanup now l)\<lparr>mem_clients := (mem_clients (mem_cleanup now l))(k \<mapsto> e)\<rparr>"
  shows "mwf l'"
proof -
  have "bwf (cl_limiter e')" if "mem_clients l' k' = Some e'" for k' e'
  proof (cases "k' = k")
    case True
    with that assms(2,3) show ?thesis by simp
  next
    case False
    with that have "mem_clients l k' = Some e'" by (simp add: assms(3) cleanup_Some)
    with assms(1) show ?thesis by (simp add: mwf_def)
  qed
  then show ?thesis using assms(1) by (simp add: mwf_def assms(3) mem_cleanup_def)
qed

lemma mbudget_range: "mwf l \<Longrightarrow> 0 \<le> mbudget l now key \<and> mbudget l now key \<le> burst"
  using left burst_nonneg by (auto simp: mbudget_def mwf_def cleanup_Some split: option.split)

lemma memory_ops_simps [simp]: "lim_Allow (memory_ops bk) = mem_Allow bk" "lim_Ping (memory_ops bk) = mem_Ping"
  "lim_Close (memory_ops bk) = mem_Close"
  by (simp_all add: memory_ops_def)

end

sublocale bucket \<subseteq> limiter "memory_ops bk" mwf "\<lambda>now. True" mbudget burst
proof (unfold_locales, unfold memory_ops_simps, goal_cases)
  case (1 l now key res l')
  then show ?case by (metis allow_result after_wf)
next
  case (2 l u l')
  then show ?case by (simp add: mem_Ping_def)
next
  case (3 l now key)
  then show ?case using mbudget_range by blast
next
  case (4 l now key)
  then show ?case using mbudget_range by blast
next
  case (5 l now key l' key')
  obtain e b where "left b now \<le> mbudget l now key - 1" "cl_lastSeen e = now" "cl_limiter e = b"
    "l' = (mem_cleanup now l)\<lparr>mem_clients := (mem_clients (mem_cleanup now l))(limit_key key \<mapsto> e)\<rparr>"
    by (rule allow_result [OF 5(1,3)]) auto
  then show ?case using budget_after [OF 5(1)] 5(4) by (simp add: mbudget_def)
next
  case (6 l now key res l' key')
  obtain e b ok where "left b now \<le> mbudget l now key - (if ok then 1 else 0)" "cl_lastSeen e = now" "cl_limiter e = b"
    "l' = (mem_cleanup now l)\<lparr>mem_clients := (mem_clients (mem_cleanup now l))(limit_key key \<mapsto> e)\<rparr>"
    by (rule allow_result [OF 6(1,3)]) blast
  moreover have "mbudget l now key = mbudget l now key'" if "limit_key key = limit_key key'"
    using that by (simp add: mbudget_def)
  ultimately show ?case using budget_after [OF 6(1)] by (auto split: if_splits)
qed

text \<open>
  The contract can be kept: the token bucket that the package documents, with exact arithmetic.
\<close>

record token_bucket =
  tb_rate :: rat
  tb_burst :: int
  tb_tokens :: rat
  tb_last :: instant

definition tb_refilled :: "instant \<Rightarrow> token_bucket \<Rightarrow> rat" where
  "tb_refilled now b =
     min (of_int (tb_burst b)) (tb_tokens b + of_int (max 0 (now - tb_last b)) / of_int second * tb_rate b)"

definition tb_ops :: "token_bucket bucket_ops" where
  "tb_ops =
     \<lparr>bk_New = (\<lambda>limit burst. \<lparr>tb_rate = (case limit of Fin r \<Rightarrow> max 0 r | _ \<Rightarrow> 0), tb_burst = burst,
        tb_tokens = of_int burst, tb_last = 0\<rparr>),
      bk_Allow = (\<lambda>now b. let t = tb_refilled now b in
        if 1 \<le> t then (True, b\<lparr>tb_tokens := t - 1, tb_last := now\<rparr>)
        else (False, b\<lparr>tb_tokens := t, tb_last := now\<rparr>))\<rparr>"

definition tb_wf :: "int \<Rightarrow> token_bucket \<Rightarrow> bool" where
  "tb_wf burst b \<longleftrightarrow> tb_burst b = burst \<and> 0 \<le> tb_tokens b \<and> tb_tokens b \<le> of_int burst \<and> 0 \<le> tb_rate b"

lemma tb_refilled_range: "tb_wf burst b \<Longrightarrow> 0 \<le> burst \<Longrightarrow>
    0 \<le> tb_refilled now b \<and> tb_refilled now b \<le> of_int burst"
  by (simp add: tb_wf_def tb_refilled_def second_def)

lemma tb_refilled_same [simp]:
  "t \<le> of_int (tb_burst b) \<Longrightarrow> tb_refilled now (b\<lparr>tb_tokens := t, tb_last := now\<rparr>) = t"
  by (simp add: tb_refilled_def)

lemma tb_allow:
  assumes "tb_wf burst b" "0 \<le> burst" "bk_Allow tb_ops now b = (ok, b')"
  shows "tb_wf burst b'" "tb_rate b' = tb_rate b" "tb_last b' = now"
    "tb_refilled now b' = tb_refilled now b - (if ok then 1 else 0)"
proof -
  note r = tb_refilled_range [OF assms(1,2), of now]
  define d :: rat where "d = (if ok then 1 else 0)"
  have b': "b' = b\<lparr>tb_tokens := tb_refilled now b - d, tb_last := now\<rparr>" "ok \<longleftrightarrow> 1 \<le> tb_refilled now b"
    using assms(3) by (auto simp: tb_ops_def Let_def d_def split: if_splits)
  then have d: "0 \<le> d" "d \<le> tb_refilled now b" using r by (auto simp: d_def)
  then have t: "tb_refilled now b - d \<le> of_int (tb_burst b)" using r assms(1) by (simp add: tb_wf_def)
  show "tb_wf burst b'" "tb_rate b' = tb_rate b" "tb_last b' = now"
    using assms(1) d t by (simp_all add: b'(1) tb_wf_def)
  show "tb_refilled now b' = tb_refilled now b - (if ok then 1 else 0)"
    unfolding b'(1) tb_refilled_same [OF t] by (simp add: d_def)
qed

lemma tb_new: "0 \<le> burst \<Longrightarrow> tb_wf burst (bk_New tb_ops limit burst)"
  by (auto simp: tb_ops_def tb_wf_def split: f64.split)

lemma tb_bucket:
  assumes "0 \<le> burst" "0 \<le> ttl"
  shows "bucket tb_ops limit burst ttl (tb_wf burst) (\<lambda>b now. \<lfloor>tb_refilled now b\<rfloor>)"
proof (unfold_locales, goal_cases)
  case 3
  then show ?case by (rule tb_new [OF assms(1)])
next
  case (4 now)
  then show ?case using tb_refilled_range [OF tb_new [OF assms(1)] assms(1)] by (metis floor_mono floor_of_int)
next
  case (5 b now ok b')
  then show ?case using tb_allow [OF 5(1) assms(1) 5(2)] by (auto simp: floor_diff_of_int [of _ 1, simplified])
next
  case (6 b now)
  then show ?case using tb_refilled_range [OF 6 assms(1), of now] by (metis floor_mono floor_of_int floor_zero)
qed (use assms in auto)

interpretation tb: bucket tb_ops "Fin (1 / 2)" 10 "10 * minute" "tb_wf 10" "\<lambda>b now. \<lfloor>tb_refilled now b\<rfloor>"
  by (rule tb_bucket) (simp_all add: minute_def)

section \<open>The limiter in Redis keeps the contract\<close>

lemma redis_ops_simps [simp]: "lim_Allow (redis_ops l) = redis_Allow l" "lim_Ping (redis_ops l) = redis_Ping"
  "lim_Close (redis_ops l) = redis_Close"
  by (simp_all add: redis_ops_def)

text \<open>Tokens as the script keeps them: a representable number between none and the burst.\<close>

definition tokens_ok :: "int \<Rightarrow> f64 \<Rightarrow> bool" where
  "tokens_ok burst f \<longleftrightarrow> (\<exists>x. f = Fin x \<and> representable x \<and> 0 \<le> x \<and> x \<le> of_int burst)"

definition ms_ok :: "instant \<Rightarrow> bool" where
  "ms_ok now \<longleftrightarrow> \<bar>unix_milli now\<bar> \<le> 4503599627370496"

definition hash_ok :: "int \<Rightarrow> redis_hash \<Rightarrow> bool" where
  "hash_ok burst h \<longleftrightarrow> tokens_ok burst (h_tokens h) \<and> (\<exists>n. h_last h = Fin (of_int n) \<and> \<bar>n\<bar> \<le> 4503599627370496)"

lemma lua_min_ok:
  assumes "0 \<le> burst" "burst \<le> 9007199254740992" "f = PosInf \<or> (\<exists>x. f = Fin (rnd x) \<and> 0 \<le> x)"
  shows "tokens_ok burst (lua_min (Fin (of_int burst)) f)"
  using assms rnd_nonneg by (auto simp: lua_min_def tokens_ok_def)

lemma round_cases: "0 \<le> x \<Longrightarrow> round_f64 x = PosInf \<or> round_f64 x = Fin (rnd x)"
  by (auto simp: round_f64_def rnd_def Let_def)

locale redis_config =
  fixes l :: redis_limiter
    and rate :: rat
  assumes rate: "rl_ratePerSec l = Fin rate" "0 \<le> rate"
    and burst: "0 \<le> rl_burst l" "rl_burst l \<le> 9007199254740992"
    and ttl: "minute \<le> rl_stateTTL l"
begin

definition refilled :: "instant \<Rightarrow> redis_hash option \<Rightarrow> f64" where
  "refilled now h = script_tokens (f64_of_int (unix_milli now)) (Fin rate) (f64_of_int (rl_burst l))
     (map_option h_tokens h) (map_option h_last h)"

lemma burst_Fin [simp]: "f64_of_int (rl_burst l) = Fin (of_int (rl_burst l))"
  using burst by simp

text \<open>The tokens of a known client, before they are cut to the burst.\<close>

lemma refilled_form:
  assumes "ms_ok now" "h_tokens h = Fin x" "h_last h = Fin (of_int n)" "\<bar>n\<bar> \<le> 4503599627370496"
  shows "refilled now (Some h) = lua_min (Fin (of_int (rl_burst l)))
    (f64_add (Fin x) (f64_mul (Fin (rnd (of_int (max 0 (unix_milli now - n)) / 1000))) (Fin rate)))"
proof -
  let ?ms = "unix_milli now"
  have ms: "\<bar>?ms\<bar> \<le> 4503599627370496" using assms(1) by (simp add: ms_ok_def)
  have "f64_sub (Fin (of_int ?ms)) (Fin (of_int n)) = f64_of_int (?ms - n)"
    by (simp add: f64_sub_def f64_of_int_def)
  also have "\<dots> = Fin (of_int (?ms - n))" using ms assms(4) by (intro f64_of_int_small) linarith
  finally have sub: "f64_sub (Fin (of_int ?ms)) (Fin (of_int n)) = Fin (of_int (?ms - n))" .
  define e :: rat where "e = of_int (max 0 (?ms - n))"
  have "lua_max (Fin 0) (Fin (of_int (?ms - n))) = Fin e" by (auto simp: lua_max_def e_def max_def)
  moreover have "f64_div (Fin e) (Fin 1000) = Fin (rnd (e / 1000))"
  proof -
    have "max 0 (?ms - n) \<le> 9007199254740992" using ms assms(4) by linarith
    then have "e \<le> 9007199254740992" unfolding e_def by (metis of_int_le_iff of_int_numeral)
    then show ?thesis by (simp add: round_f64_small e_def)
  qed
  moreover have "f64_of_int ?ms = Fin (of_int ?ms)" using ms by (intro f64_of_int_small) linarith
  ultimately show ?thesis
    using assms(2,3) sub by (simp add: refilled_def script_tokens_def e_def)
qed

lemma refilled_ok:
  assumes "ms_ok now" "\<And>h. ho = Some h \<Longrightarrow> hash_ok (rl_burst l) h"
  shows "tokens_ok (rl_burst l) (refilled now ho)"
proof (cases ho)
  case None
  then show ?thesis using burst by (simp add: refilled_def script_tokens_def tokens_ok_def)
next
  case (Some h)
  obtain x n where x: "h_tokens h = Fin x" "0 \<le> x" and n: "h_last h = Fin (of_int n)" "\<bar>n\<bar> \<le> 4503599627370496"
    using assms(2) [OF Some] by (auto simp: hash_ok_def tokens_ok_def)
  define a where "a = rnd (of_int (max 0 (unix_milli now - n)) / 1000)"
  have "0 \<le> a * rate" using rate(2) by (simp add: a_def rnd_nonneg)
  then have "f64_mul (Fin a) (Fin rate) = PosInf \<or> (\<exists>y. f64_mul (Fin a) (Fin rate) = Fin y \<and> 0 \<le> y)"
    using round_cases [of "a * rate"] rnd_nonneg by auto
  then have "f64_add (Fin x) (f64_mul (Fin a) (Fin rate)) = PosInf
      \<or> (\<exists>z. f64_add (Fin x) (f64_mul (Fin a) (Fin rate)) = Fin (rnd z) \<and> 0 \<le> z)"
  proof (elim disjE exE conjE)
    fix y assume "f64_mul (Fin a) (Fin rate) = Fin y" "0 \<le> y"
    with x(2) round_cases [of "x + y"] show ?thesis by auto
  qed simp
  from lua_min_ok [OF burst this] show ?thesis
    using refilled_form [OF assms(1) x(1) n] Some by (simp add: a_def)
qed

text \<open>Tokens that are read again at the same instant are unchanged.\<close>

lemma refilled_same:
  assumes "ms_ok now" "tokens_ok (rl_burst l) t" "h_tokens h = t" "h_last h = f64_of_int (unix_milli now)"
  shows "refilled now (Some h) = t"
proof -
  obtain x where x: "t = Fin x" "representable x" "0 \<le> x" "x \<le> of_int (rl_burst l)"
    using assms(2) by (auto simp: tokens_ok_def)
  have zero: "round_f64 0 = Fin 0" by (simp add: round_f64_small)
  have "x \<le> 9007199254740992" using x(4) burst(2) by (metis of_int_le_iff of_int_numeral order_trans)
  then have "round_f64 x = Fin x" using x(2,3) by (simp add: round_f64_small representable_def)
  with assms x(1,4) zero show ?thesis
    by (auto simp: refilled_def script_tokens_def ms_ok_def f64_sub_def lua_max_def lua_min_def)
qed

definition rwf :: "redis \<Rightarrow> bool" where
  "rwf s \<longleftrightarrow> (\<forall>k h. rd_keys s k = Some h \<longrightarrow> hash_ok (rl_burst l) h)"

definition full_key :: "string \<Rightarrow> string" where
  "full_key key = rl_keyPrefix l @ '':'' @ limit_key key"

lemma full_key_inj: "full_key k = full_key k' \<longleftrightarrow> limit_key k = limit_key k'"
  by (simp add: full_key_def)

definition rbudget :: "redis \<Rightarrow> instant \<Rightarrow> string \<Rightarrow> int" where
  "rbudget s now key = (case refilled now (redis_get s (unix_milli now) (full_key key)) of Fin x \<Rightarrow> \<lfloor>x\<rfloor> | _ \<Rightarrow> 0)"

lemma get_ok: "rwf s \<Longrightarrow> redis_get s ms k = Some h \<Longrightarrow> hash_ok (rl_burst l) h"
  by (auto simp: rwf_def redis_get_def split: option.splits if_splits)

lemma refilled_get: "rwf s \<Longrightarrow> ms_ok now \<Longrightarrow> tokens_ok (rl_burst l) (refilled now (redis_get s ms k))"
  using refilled_ok get_ok by blast

text \<open>One run of the script: what it reads, replies and writes.\<close>

lemma run_form:
  assumes "rwf s" "ms_ok now" "redis_run l now key s = (n, s')"
  obtains y t where "refilled now (redis_get s (unix_milli now) key) = Fin y" "0 \<le> y"
    "y \<le> of_int (rl_burst l)" "n = (if 1 \<le> y then 1 else 0)" "t = y - of_int n" "tokens_ok (rl_burst l) (Fin t)"
    "s' = s\<lparr>rd_keys := (rd_keys s)(key \<mapsto> \<lparr>h_tokens = Fin t, h_last = f64_of_int (unix_milli now),
       h_expires = unix_milli now + rl_stateTTL l div 1000000\<rparr>)\<rparr>"
proof -
  let ?ms = "unix_milli now"
  obtain y where y: "refilled now (redis_get s ?ms key) = Fin y" "representable y" "0 \<le> y" "y \<le> of_int (rl_burst l)"
    using refilled_get [OF assms(1,2)] by (auto simp: tokens_ok_def)
  have y53: "y \<le> 9007199254740992" using y(4) burst(2) by (metis of_int_le_iff of_int_numeral order_trans)
  have one: "y - 1 = rnd (y - 1)" "f64_sub (Fin y) (Fin 1) = Fin (y - 1)" if "1 \<le> y"
    using representable_minus_one [OF y(2) that y53] that y53
    by (simp_all add: f64_sub_def round_f64_small)
  define t where "t = (if 1 \<le> y then y - 1 else y)"
  have r: "redis_run l now key s = (if 1 \<le> y then 1 else 0, s\<lparr>rd_keys := (rd_keys s)(key \<mapsto>
      \<lparr>h_tokens = Fin t, h_last = f64_of_int ?ms, h_expires = ?ms + rl_stateTTL l div 1000000\<rparr>)\<rparr>)"
    using y(1) one(2) rate(1)
    by (simp add: redis_run_def token_script_def refilled_def f64_le_def t_def Let_def order_le_less)
  have "tokens_ok (rl_burst l) (Fin t)"
    using y one(1) by (auto simp: tokens_ok_def t_def representable_def)
  with y r assms(3) show thesis by (intro that [of y t]) (auto simp: t_def)
qed

text \<open>One run against the budget.\<close>

lemma run_result:
  assumes "rwf s" "ms_ok now" "redis_run l now (full_key key) s = (n, s')"
  shows "rwf s'" "rbudget s' now key' \<le> rbudget s now key' - (if n = 1 \<and> limit_key key = limit_key key' then 1 else 0)"
proof -
  let ?ms = "unix_milli now"
  obtain y t where y: "refilled now (redis_get s ?ms (full_key key)) = Fin y" "n = (if 1 \<le> y then 1 else 0)"
    "t = y - of_int n" and tok: "tokens_ok (rl_burst l) (Fin t)" and s': "s' = s\<lparr>rd_keys := (rd_keys s)(full_key key \<mapsto>
       \<lparr>h_tokens = Fin t, h_last = f64_of_int ?ms, h_expires = ?ms + rl_stateTTL l div 1000000\<rparr>)\<rparr>"
    by (rule run_form [OF assms])
  define h where "h = \<lparr>h_tokens = Fin t, h_last = f64_of_int ?ms, h_expires = ?ms + rl_stateTTL l div 1000000\<rparr>"
  have "hash_ok (rl_burst l) h"
    using assms(2) tok by (auto simp: hash_ok_def h_def ms_ok_def)
  then show "rwf s'" using assms(1) by (simp add: rwf_def s' h_def)
  have "0 < rl_stateTTL l div 1000000" using ttl by (simp add: minute_def pos_imp_zdiv_pos_iff)
  then have get: "redis_get s' ?ms k = (if k = full_key key then Some h else redis_get s ?ms k)" for k
    by (simp add: redis_get_def s' h_def)
  have "refilled now (Some h) = Fin t" by (rule refilled_same [OF assms(2) tok]) (simp_all add: h_def)
  moreover have "\<lfloor>t\<rfloor> \<le> \<lfloor>y\<rfloor> - (if n = 1 then 1 else 0)" using y(2,3) by simp
  ultimately show "rbudget s' now key' \<le> rbudget s now key' - (if n = 1 \<and> limit_key key = limit_key key' then 1 else 0)"
    using y(1) full_key_inj [of key key'] by (cases "limit_key key = limit_key key'") (simp_all add: rbudget_def get)
qed

lemma fault_keys: "redis_fault s = (f, s') \<Longrightarrow> rd_keys s' = rd_keys s"
  by (auto simp: redis_fault_def split: list.splits)

lemma same_keys: "rd_keys s' = rd_keys s \<Longrightarrow> rwf s' = rwf s \<and> rbudget s' now key = rbudget s now key"
  by (simp add: rwf_def rbudget_def redis_get_def)

lemma allow_cases:
  assumes "redis_Allow l now key s = (res, s')"
  obtains (failed) e where "res = Inl e" "rd_keys s' = rd_keys s"
  | (ran) s1 n where "rd_keys s1 = rd_keys s" "redis_run l now (full_key key) s1 = (n, s')" "res = Inr True \<Longrightarrow> n = 1"
proof -
  obtain f s1 where f: "redis_fault s = (f, s1)" by fastforce
  note keys = fault_keys [OF f]
  show thesis
  proof (cases f)
    case Works
    obtain n s2 where "redis_run l now (full_key key) s1 = (n, s2)" by fastforce
    with assms f Works keys show thesis by (intro ran [of s1 n]) (auto simp: redis_Allow_def full_key_def)
  next
    case (Fails e)
    with assms f keys show thesis by (intro failed) (auto simp: redis_Allow_def)
  next
    case (AckLost e)
    obtain n s2 where "redis_run l now (full_key key) s1 = (n, s2)" by fastforce
    with assms f AckLost keys show thesis by (intro ran [of s1 n]) (auto simp: redis_Allow_def full_key_def)
  qed
qed

end

sublocale redis_config \<subseteq> limiter "redis_ops l" rwf ms_ok rbudget "rl_burst l"
proof (unfold_locales, unfold redis_ops_simps, goal_cases)
  case (1 s now key res s')
  from 1(3) show ?case
    by (cases rule: allow_cases) (use 1 same_keys run_result(1) in blast)+
next
  case (2 s u s')
  then have "rd_keys s' = rd_keys s"
    by (auto simp: redis_Ping_def dest: fault_keys split: prod.splits fault.splits)
  then show ?case using 2 same_keys [of s' s] by blast
next
  case (3 s now key)
  then show ?case using refilled_get [OF 3, of "unix_milli now" "full_key key"]
    by (auto simp: rbudget_def tokens_ok_def)
next
  case (4 s now key)
  obtain x where "refilled now (redis_get s (unix_milli now) (full_key key)) = Fin x" "x \<le> of_int (rl_burst l)"
    using refilled_get [OF 4] by (auto simp: tokens_ok_def)
  then show ?case by (simp add: rbudget_def) (metis floor_mono floor_of_int)
next
  case (5 s now key s' key')
  from 5(3) show ?case
  proof (cases rule: allow_cases)
    case (ran s1 n)
    with 5(1) have "rwf s1" using same_keys by blast
    with run_result(2) [OF this 5(2) ran(2), of key'] ran(3) 5(4) same_keys [OF ran(1), of now key'] show ?thesis by simp
  qed simp
next
  case (6 s now key res s' key')
  from 6(3) show ?case
  proof (cases rule: allow_cases)
    case (failed e)
    then show ?thesis using same_keys [OF failed(2), of now key'] by simp
  next
    case (ran s1 n)
    with 6(1) have "rwf s1" using same_keys by blast
    with run_result(2) [OF this 6(2) ran(2), of key'] same_keys [OF ran(1), of now key'] show ?thesis
      by (auto split: if_splits)
  qed
qed

text \<open>What \<open>NewRedis\<close> makes of the configuration's defaults.\<close>

definition redis_default :: redis_limiter where
  "redis_default = \<lparr>rl_ratePerSec = Fin (1 / 2), rl_burst = 10, rl_stateTTL = 10 * minute,
     rl_keyPrefix = ''i8sl:rate_limit''\<rparr>"

lemma NewRedis_default:
  "NewRedis (\<lambda>_. 0) ''localhost:6379'' (Fin 30) 10 (10 * minute) ''i8sl:rate_limit'' = Inr redis_default"
  by code_simp

interpretation rd: redis_config redis_default "1 / 2"
  by unfold_locales (simp_all add: redis_default_def minute_def)

text \<open>A state of the script lives at least a minute.\<close>

lemma NewRedis_ttl:
  "NewRedis wild addr perMinute burst ttl keyPrefix = Inr l \<Longrightarrow> minute \<le> rl_stateTTL l \<and> ttl \<le> rl_stateTTL l"
  by (auto simp: NewRedis_def Let_def split: if_splits)

end
