(* ===== verification/RateWindow.thy ===== *)
theory RateWindow
  imports RateLimit
begin

text \<open>
  What a limiter allows over a span of time: a contract by a potential, the level of a client's
  bucket, that no waiting raises faster than the rate and that every allowed call lowers by one; and
  the limiter in memory, which keeps it where a bucket is full by the time its client is forgotten.
\<close>

fun allowed_in :: "'l limiter_ops \<Rightarrow> string \<Rightarrow> (instant \<times> string) list \<Rightarrow> 'l \<Rightarrow> nat" where
  "allowed_in ops key [] l = 0"
| "allowed_in ops key ((now, k) # cs) l =
     (if limit_key k = limit_key key \<and> fst (lim_Allow ops now k l) = Inr True then 1 else 0)
     + allowed_in ops key cs (snd (lim_Allow ops now k l))"

text \<open>How many of the calls are counted under the key of a client.\<close>

definition calls_under :: "string \<Rightarrow> (instant \<times> string) list \<Rightarrow> nat" where
  "calls_under key cs = length (filter (\<lambda>c. limit_key (snd c) = limit_key key) cs)"

lemma calls_under_simps [simp]:
  "calls_under key [] = 0"
  "calls_under key ((now, k) # cs) = (if limit_key k = limit_key key then 1 else 0) + calls_under key cs"
  by (simp_all add: calls_under_def)

text \<open>A span of time in seconds.\<close>

definition seconds :: "duration \<Rightarrow> rat" where
  "seconds d = of_int d / of_int second"

lemma seconds_add: "seconds (a + b) = seconds a + seconds b"
  by (simp add: seconds_def add_divide_distrib)

lemma seconds_diff: "seconds (a - b) = seconds a - seconds b"
  by (simp add: seconds_def diff_divide_distrib)

lemma seconds_mono: "a \<le> b \<Longrightarrow> seconds a \<le> seconds b"
  by (simp add: seconds_def second_def divide_right_mono)

lemma seconds_nonneg: "0 \<le> a \<Longrightarrow> 0 \<le> seconds a"
  using seconds_mono [of 0 a] by (simp add: seconds_def)

section \<open>The contract over time\<close>

locale rate_limiter =
  fixes ops :: "'l limiter_ops"
    and rwf :: "'l \<Rightarrow> instant \<Rightarrow> bool"
    and timely :: "instant \<Rightarrow> bool"
    and level :: "'l \<Rightarrow> instant \<Rightarrow> string \<Rightarrow> rat"
    and clock :: "instant \<Rightarrow> rat"
    and burst :: rat
    and rate :: rat
    and slack :: rat
  assumes slack_nonneg: "0 \<le> slack"
    and wf_later: "rwf l now \<Longrightarrow> now \<le> t \<Longrightarrow> rwf l t"
    and wf_allow: "rwf l now \<Longrightarrow> timely now \<Longrightarrow> lim_Allow ops now key l = (res, l') \<Longrightarrow> rwf l' now"
    and level_nonneg: "rwf l now \<Longrightarrow> timely now \<Longrightarrow> 0 \<le> level l now key"
    and level_burst: "rwf l now \<Longrightarrow> timely now \<Longrightarrow> level l now key \<le> burst"
    and refill: "rwf l now \<Longrightarrow> timely now \<Longrightarrow> now \<le> t \<Longrightarrow> timely t \<Longrightarrow>
      level l t key \<le> level l now key + rate * (clock t - clock now)"
    and spend: "rwf l now \<Longrightarrow> timely now \<Longrightarrow> lim_Allow ops now key l = (res, l') \<Longrightarrow>
      level l' now key' \<le> level l now key'
        + (if limit_key key = limit_key key' then slack - (if res = Inr True then 1 else 0) else 0)"
    and ping_level: "rwf l now \<Longrightarrow> lim_Ping ops l = (u, l') \<Longrightarrow> rwf l' now \<and> level l' t key = level l t key"
begin

lemma after_wf_later:
  "rwf l t0 \<Longrightarrow> list_all (\<lambda>c. timely (fst c)) cs \<Longrightarrow> sorted (t0 # map fst cs @ [t1]) \<Longrightarrow>
   rwf (calls_after ops cs l) t1"
proof (induction cs arbitrary: l t0)
  case (Cons c cs)
  obtain now key where c: "c = (now, key)" by fastforce
  obtain res l' where a: "lim_Allow ops now key l = (res, l')" by fastforce
  have "rwf l now" using wf_later [OF Cons.prems(1)] Cons.prems(3) c by simp
  from wf_allow [OF this _ a] Cons.IH [of l' now] Cons.prems(2,3) c a show ?case by simp
qed (simp add: wf_later)

text \<open>
  In a window a client gets through at most as often as its level at the start and the refill
  allow, the slack of each of its calls added.
\<close>

lemma allowed_le_level:
  assumes "rwf l t0" "timely t0" "timely t1" "list_all (\<lambda>c. timely (fst c)) cs" "sorted (t0 # map fst cs @ [t1])"
  shows "of_nat (allowed_in ops key cs l)
    \<le> level l t0 key + rate * (clock t1 - clock t0) + slack * of_nat (calls_under key cs)"
  using assms
proof (induction cs arbitrary: l t0)
  case Nil
  then have "level l t1 key \<le> level l t0 key + rate * (clock t1 - clock t0)" by (intro refill) auto
  moreover have "rwf l t1" using wf_later [OF Nil(1)] Nil(5) by simp
  ultimately show ?case using level_nonneg [of l t1 key] Nil(3) by simp
next
  case (Cons c cs)
  obtain now k where c: "c = (now, k)" by fastforce
  obtain res l' where a: "lim_Allow ops now k l = (res, l')" by fastforce
  have t: "t0 \<le> now" "now \<le> t1" "timely now" "sorted (now # map fst cs @ [t1])" "list_all (\<lambda>c. timely (fst c)) cs"
    using Cons.prems(4,5) c by auto
  have w: "rwf l now" by (rule wf_later [OF Cons.prems(1) t(1)])
  have r: "level l now key \<le> level l t0 key + rate * (clock now - clock t0)"
    by (rule refill [OF Cons.prems(1,2) t(1,3)])
  note IH = Cons.IH [OF wf_allow [OF w t(3) a] t(3) Cons.prems(3) t(5,4)]
  from IH r spend [OF w t(3) a, of key] show ?case
    by (auto simp: c a algebra_simps split: if_splits)
qed

text \<open>After any history, a window lets through a burst and what refills in it.\<close>

lemma after_start:
  assumes "\<And>t. rwf l t" "list_all (\<lambda>c. timely (fst c)) hs" "sorted (map fst hs @ [t0])"
  shows "rwf (calls_after ops hs l) t0"
proof (cases hs)
  case (Cons c hs')
  then show ?thesis using assms(2,3) by (intro after_wf_later [OF assms(1) [of "fst c"]]) (auto simp: sorted_append)
qed (simp add: assms(1))

lemma allowed_in_window:
  assumes "\<And>t. rwf l t" "list_all (\<lambda>c. timely (fst c)) (hs @ cs)" "timely t0" "timely t1"
    "sorted (map fst hs @ t0 # map fst cs @ [t1])"
  shows "of_nat (allowed_in ops key cs (calls_after ops hs l))
    \<le> burst + rate * (clock t1 - clock t0) + slack * of_nat (calls_under key cs)"
proof -
  have w: "rwf (calls_after ops hs l) t0" using assms(2,5) by (intro after_start assms(1)) (auto simp: sorted_append)
  from allowed_le_level [OF w assms(3,4), of cs key] level_burst [OF w assms(3), of key] assms(2,5)
  show ?thesis by (simp add: sorted_append)
qed

end

section \<open>The limiter in memory over time\<close>

text \<open>No client was seen later than an instant.\<close>

definition idle_since :: "instant \<Rightarrow> 'b memory \<Rightarrow> bool" where
  "idle_since t l \<longleftrightarrow> (\<forall>k e. mem_clients l k = Some e \<longrightarrow> cl_lastSeen e \<le> t)"

text \<open>
  A bucket that refills at a rate, as the package documents it: a new one is full, a call is allowed
  when there is a token and takes it, and what is left grows with time up to the burst.
\<close>

locale metered = bucket bk limit burst ttl bwf left
  for bk :: "'b bucket_ops" and limit burst ttl bwf left +
  fixes lev :: "'b \<Rightarrow> instant \<Rightarrow> rat"
    and rate :: rat
  assumes lev_new: "lev (bk_New bk limit burst) now = of_int burst"
    and lev_range: "bwf b \<Longrightarrow> 0 \<le> lev b now \<and> lev b now \<le> of_int burst"
    and lev_refill: "bwf b \<Longrightarrow> now \<le> t \<Longrightarrow> lev b t \<le> lev b now + rate * seconds (t - now)"
    and lev_allow: "bwf b \<Longrightarrow> bk_Allow bk now b = (ok, b') \<Longrightarrow> lev b' now \<le> lev b now - (if ok then 1 else 0)"
    and allow_level: "bwf b \<Longrightarrow> bk_Allow bk now b = (ok, b') \<Longrightarrow> ok \<longleftrightarrow> 1 \<le> lev b now"
    and lev_grows: "bwf b \<Longrightarrow> bk_Allow bk now b = (ok, b') \<Longrightarrow> now \<le> t \<Longrightarrow>
      min (of_int burst) (lev b' now + rate * seconds (t - now)) \<le> lev b' t"
    and rate_nonneg: "0 \<le> rate"
begin

lemma lev_waited:
  assumes "bwf b" "bk_Allow bk now b = (ok, b')" "now \<le> t"
  shows "min (of_int burst) (rate * seconds (t - now)) \<le> lev b' t"
  using lev_grows [OF assms] lev_range [OF conjunct1 [OF allow [OF assms(1,2)]], of now] by linarith

text \<open>Every bucket has at least what has refilled since its client was seen.\<close>

definition waited :: "'b client \<Rightarrow> bool" where
  "waited e \<longleftrightarrow> (\<forall>t \<ge> cl_lastSeen e.
     min (of_int burst) (rate * seconds (t - cl_lastSeen e)) \<le> lev (cl_limiter e) t)"

definition lwf :: "'b memory \<Rightarrow> bool" where
  "lwf l \<longleftrightarrow> mwf l \<and> (\<forall>k e. mem_clients l k = Some e \<longrightarrow> waited e)"

definition mlevel :: "'b memory \<Rightarrow> instant \<Rightarrow> string \<Rightarrow> rat" where
  "mlevel l now key =
     (case mem_clients (mem_cleanup now l) (limit_key key) of
        None \<Rightarrow> of_int burst | Some e \<Rightarrow> lev (cl_limiter e) now)"

lemma mlevel_range: "lwf l \<Longrightarrow> 0 \<le> mlevel l now key \<and> mlevel l now key \<le> of_int burst"
  using lev_range burst_nonneg by (auto simp: mlevel_def lwf_def mwf_def cleanup_Some split: option.split)

lemma mlevel_entry:
  assumes "lwf l"
  shows "lev (cl_limiter (entry_of now l key)) now \<le> mlevel l now key"
  using lev_range [OF new(1)] by (auto simp: mlevel_def entry_of_def split: option.split)

lemma level_spend:
  assumes "lwf l" "mem_Allow bk now key l = (res, l')"
  shows "lwf l'" "idle_since now l \<Longrightarrow> idle_since now l'" "mlevel l' now key' \<le> mlevel l now key'
    + (if limit_key key = limit_key key' then 0 - (if res = Inr True then 1 else 0) else 0)"
proof -
  have m: "mwf l" using assms(1) by (simp add: lwf_def)
  obtain b ok where b: "bk_Allow bk now (cl_limiter (entry_of now l key)) = (ok, b)" "res = Inr ok"
    and l': "l' = (mem_cleanup now l)\<lparr>mem_clients := (mem_clients (mem_cleanup now l))
       (limit_key key \<mapsto> \<lparr>cl_limiter = b, cl_lastSeen = now\<rparr>)\<rparr>"
    by (rule allow_entry [OF m assms(2)])
  note e = entry_ok(1) [OF m, of now key]
  have "mwf l'" using after_wf [OF m _ l'] allow [OF e b(1)] by simp
  moreover have "waited \<lparr>cl_limiter = b, cl_lastSeen = now\<rparr>"
    using lev_waited [OF e b(1)] by (simp add: waited_def)
  ultimately show "lwf l'" using assms(1) by (auto simp: lwf_def l' cleanup_Some)
  show "idle_since now l'" if "idle_since now l" using that by (auto simp: idle_since_def l' cleanup_Some)
  have "lev b now \<le> mlevel l now key - (if ok then 1 else 0)"
    using lev_allow [OF e b(1)] mlevel_entry [OF assms(1), of now key] by linarith
  then show "mlevel l' now key' \<le> mlevel l now key'
    + (if limit_key key = limit_key key' then 0 - (if res = Inr True then 1 else 0) else 0)"
    using clients_after [OF m _ l', of "limit_key key'"] b(2) by (auto simp: mlevel_def)
qed

text \<open>The calls that a client is known by.\<close>

definition seen_in :: "(instant \<times> string) list \<Rightarrow> 'b memory \<Rightarrow> bool" where
  "seen_in hs l \<longleftrightarrow> (\<forall>k e. mem_clients l k = Some e \<longrightarrow> (\<exists>c \<in> set hs. limit_key (snd c) = k \<and> fst c = cl_lastSeen e))"

lemma allow_seen:
  assumes "lwf l" "mem_Allow bk now key l = (res, l')" "seen_in hs l"
  shows "seen_in (hs @ [(now, key)]) l'"
proof -
  have "mwf l" using assms(1) by (simp add: lwf_def)
  then obtain b where "l' = (mem_cleanup now l)\<lparr>mem_clients := (mem_clients (mem_cleanup now l))
       (limit_key key \<mapsto> \<lparr>cl_limiter = b, cl_lastSeen = now\<rparr>)\<rparr>"
    using allow_entry [OF _ assms(2)] by metis
  then show ?thesis using assms(3) by (auto simp: seen_in_def cleanup_Some)
qed

lemma calls_seen:
  "lwf l \<Longrightarrow> seen_in hs l \<Longrightarrow>
   lwf (calls_after (memory_ops bk) cs l) \<and> seen_in (hs @ cs) (calls_after (memory_ops bk) cs l)"
proof (induction cs arbitrary: hs l)
  case (Cons c cs)
  obtain now key where c: "c = (now, key)" by fastforce
  obtain res l' where a: "mem_Allow bk now key l = (res, l')" by fastforce
  from Cons.IH [OF level_spend(1) [OF Cons.prems(1) a] allow_seen [OF Cons.prems(1) a Cons.prems(2)]]
  show ?case by (simp add: c a memory_ops_def)
qed simp

lemma new_lwf: "f64_div perMinute (f64_of_int 60) = limit \<Longrightarrow> lwf (NewMemory perMinute burst ttl)"
  by (simp add: lwf_def mwf_def NewMemory_def)

text \<open>A client whose last call is a token's time ago gets through, whoever else has called since.\<close>

lemma waits_enough:
  assumes "lwf l" "seen_in hs l" "1 \<le> burst"
    "\<And>t k. (t, k) \<in> set hs \<Longrightarrow> limit_key k = limit_key key \<Longrightarrow> 1 \<le> rate * seconds (now - t)"
  shows "fst (mem_Allow bk now key l) = Inr True"
proof -
  have m: "mwf l" using assms(1) by (simp add: lwf_def)
  obtain res l' where a: "mem_Allow bk now key l = (res, l')" by fastforce
  obtain b ok where b: "bk_Allow bk now (cl_limiter (entry_of now l key)) = (ok, b)" "res = Inr ok"
    by (rule allow_entry [OF m a])
  have K: "(1::rat) \<le> of_int burst" using assms(3) by simp
  have "1 \<le> lev (cl_limiter (entry_of now l key)) now"
  proof (cases "mem_clients (mem_cleanup now l) (limit_key key)")
    case None
    then show ?thesis using K by (simp add: entry_of_def lev_new)
  next
    case (Some e)
    then have e: "mem_clients l (limit_key key) = Some e" by (simp add: cleanup_Some)
    then obtain c where "c \<in> set hs" "limit_key (snd c) = limit_key key" "fst c = cl_lastSeen e"
      using assms(2) unfolding seen_in_def by blast
    then have one: "1 \<le> rate * seconds (now - cl_lastSeen e)" using assms(4) [of "fst c" "snd c"] by (metis prod.collapse)
    then have "cl_lastSeen e \<le> now"
      using rate_nonneg seconds_mono [of "now - cl_lastSeen e" 0] mult_nonneg_nonpos [of rate "seconds (now - cl_lastSeen e)"]
      by (force simp: seconds_def)
    then have "min (of_int burst) (rate * seconds (now - cl_lastSeen e)) \<le> lev (cl_limiter e) now"
      using assms(1) e by (auto simp: lwf_def waited_def)
    then show ?thesis using one K Some by (simp add: entry_of_def)
  qed
  then show ?thesis using allow_level [OF entry_ok(1) [OF m] b(1)] a b(2) by simp
qed

lemma waits_from_new:
  assumes "f64_div perMinute (f64_of_int 60) = limit" "1 \<le> burst"
    "\<And>t k. (t, k) \<in> set hs \<Longrightarrow> limit_key k = limit_key key \<Longrightarrow> 1 \<le> rate * seconds (now - t)"
  shows "fst (mem_Allow bk now key (calls_after (memory_ops bk) hs (NewMemory perMinute burst ttl))) = Inr True"
proof -
  have "seen_in [] (NewMemory perMinute burst ttl)" by (simp add: seen_in_def NewMemory_def)
  from calls_seen [OF new_lwf [OF assms(1)] this, of hs]
  have "lwf (calls_after (memory_ops bk) hs (NewMemory perMinute burst ttl))"
    "seen_in hs (calls_after (memory_ops bk) hs (NewMemory perMinute burst ttl))" by simp_all
  then show ?thesis by (rule waits_enough [OF _ _ assms(2)]) (rule assms(3))
qed

end

text \<open>
  The configuration under which forgetting gains nothing: a bucket is full again by the time its client
  is forgotten.
\<close>

locale refilling = metered +
  assumes full_by_ttl: "of_int burst \<le> rate * seconds ttl"
begin

text \<open>A client that is forgotten would have a full bucket.\<close>

lemma forgotten_full:
  assumes "waited e" "bwf (cl_limiter e)" "ttl < time_sub t (cl_lastSeen e)"
  shows "lev (cl_limiter e) t = of_int burst"
proof -
  have t: "ttl \<le> t - cl_lastSeen e" using assms(3) ttl_nonneg by (auto simp: time_sub_def split: if_splits)
  have "of_int burst \<le> rate * seconds (t - cl_lastSeen e)"
    using full_by_ttl mult_left_mono [OF seconds_mono [OF t] rate_nonneg] by linarith
  moreover have "cl_lastSeen e \<le> t" using t ttl_nonneg by linarith
  ultimately have "of_int burst \<le> lev (cl_limiter e) t"
    using assms(1) unfolding waited_def by (metis min.absorb1)
  then show ?thesis using lev_range [OF assms(2), of t] by simp
qed

lemma mlevel_refill:
  assumes "lwf l" "now \<le> t"
  shows "mlevel l t key \<le> mlevel l now key + rate * seconds (t - now)"
proof -
  have nonneg: "0 \<le> rate * seconds (t - now)" using rate_nonneg seconds_nonneg [of "t - now"] assms(2) by simp
  show ?thesis
  proof (cases "mem_clients (mem_cleanup now l) (limit_key key)")
    case None
    then show ?thesis using mlevel_range [OF assms(1), of t key] nonneg by (simp add: mlevel_def [of l now])
  next
    case (Some e)
    then have e: "mem_clients l (limit_key key) = Some e" by (simp add: cleanup_Some)
    then have w: "waited e" "bwf (cl_limiter e)" "mem_ttl l = ttl" using assms(1) by (auto simp: lwf_def mwf_def)
    have "mlevel l t key = lev (cl_limiter e) t"
      using forgotten_full [OF w(1,2), of t] w(3) e by (auto simp: mlevel_def mem_cleanup_def)
    then show ?thesis using Some lev_refill [OF w(2) assms(2)] by (simp add: mlevel_def [of l now])
  qed
qed

end

sublocale refilling \<subseteq> window: rate_limiter "memory_ops bk" "\<lambda>l now. lwf l \<and> idle_since now l" "\<lambda>now. True" mlevel
  seconds "of_int burst" rate 0
proof (unfold_locales, goal_cases)
  case (2 l now t)
  then show ?case by (auto simp: idle_since_def intro: order_trans)
qed (use mlevel_range mlevel_refill level_spend in \<open>auto simp: memory_ops_def mem_Ping_def simp flip: seconds_diff\<close>)

context refilling
begin

lemma over_time: "rate_limiter (memory_ops bk) (\<lambda>l now. lwf l \<and> idle_since now l) (\<lambda>now. True) mlevel
    seconds (of_int burst) rate 0"
  by unfold_locales

lemma new_idle: "idle_since t (NewMemory perMinute burst ttl)"
  by (simp add: NewMemory_def idle_since_def)

lemma window_from_new:
  assumes "f64_div perMinute (f64_of_int 60) = limit" "sorted (map fst hs @ t0 # map fst cs @ [t1])"
  shows "of_nat (allowed_in (memory_ops bk) key cs (calls_after (memory_ops bk) hs (NewMemory perMinute burst ttl)))
    \<le> of_int burst + rate * seconds (t1 - t0)"
proof -
  from window.allowed_in_window [OF conjI [OF new_lwf [OF assms(1)] new_idle] _ _ _ assms(2), of key]
  show ?thesis by (simp add: list_all_iff seconds_diff)
qed

end

text \<open>The token bucket of exact arithmetic refills like that.\<close>

lemma tb_refilled_later:
  assumes "0 \<le> tb_rate b" "now \<le> t"
  shows "tb_refilled t b \<le> tb_refilled now b + tb_rate b * seconds (t - now)"
proof -
  have "max 0 (t - tb_last b) \<le> max 0 (now - tb_last b) + (t - now)" using assms(2) by linarith
  from mult_right_mono [OF seconds_mono [OF this, unfolded seconds_add] assms(1)]
  have "seconds (max 0 (t - tb_last b)) * tb_rate b
      \<le> seconds (max 0 (now - tb_last b)) * tb_rate b + tb_rate b * seconds (t - now)"
    by (simp add: algebra_simps)
  moreover have "0 \<le> tb_rate b * seconds (t - now)" using assms seconds_nonneg by simp
  ultimately show ?thesis unfolding tb_refilled_def seconds_def by linarith
qed

lemma tb_new_full:
  assumes "0 \<le> burst"
  shows "tb_refilled now (bk_New tb_ops limit burst) = of_int burst"
proof -
  have "0 \<le> tb_rate (bk_New tb_ops limit burst)" "tb_tokens (bk_New tb_ops limit burst) = of_int burst"
    "tb_burst (bk_New tb_ops limit burst) = burst"
    using tb_new [OF assms, of limit] by (simp_all add: tb_wf_def) (simp add: tb_ops_def)
  then show ?thesis by (simp add: tb_refilled_def second_def)
qed

lemma tb_metered:
  assumes "0 \<le> burst" "0 \<le> ttl" "0 \<le> rate"
  shows "metered tb_ops (Fin rate) burst ttl (\<lambda>b. tb_wf burst b \<and> tb_rate b = rate)
    (\<lambda>b now. \<lfloor>tb_refilled now b\<rfloor>) (\<lambda>b now. tb_refilled now b) rate"
proof (unfold_locales, goal_cases)
  case 3
  show ?case using tb_new [OF assms(1), of "Fin rate"] assms(3) by (simp add: tb_ops_def)
next
  case (4 now)
  show ?case by (rule bucket.new(2) [OF tb_bucket [OF assms(1,2)]])
next
  case (5 b now ok b')
  then show ?case
    using bucket.allow [OF tb_bucket [OF assms(1,2)], of b now ok b'] tb_allow(2) [OF _ assms(1), of b now ok b'] by simp
next
  case (6 b now)
  then show ?case using bucket.left [OF tb_bucket [OF assms(1,2)], of b now] by simp
next
  case (7 now)
  show ?case by (rule tb_new_full [OF assms(1)])
next
  case (8 b now)
  then show ?case using tb_refilled_range [OF _ assms(1)] by simp
next
  case (9 b now t)
  then show ?case using tb_refilled_later [OF _ 9(2), of b] assms(3) by simp
next
  case (10 b now ok b')
  then show ?case using tb_allow(4) [OF _ assms(1) 10(2)] by simp
next
  case (11 b now ok b')
  then show ?case by (auto simp: tb_ops_def Let_def split: if_splits)
next
  case (12 b now ok b' t)
  have wf: "tb_wf burst b'" "tb_rate b' = rate" "tb_last b' = now"
    using tb_allow [OF _ assms(1) 12(2)] 12(1) by simp_all
  then have "tb_tokens b' \<le> of_int burst" "tb_burst b' = burst" by (simp_all add: tb_wf_def)
  then show ?case using wf(2,3) 12(3) by (simp add: tb_refilled_def seconds_def mult.commute)
qed (use assms in auto)

lemma tb_refilling:
  assumes "0 \<le> burst" "0 \<le> ttl" "0 \<le> rate" "of_int burst \<le> rate * seconds ttl"
  shows "refilling tb_ops (Fin rate) burst ttl (\<lambda>b. tb_wf burst b \<and> tb_rate b = rate)
    (\<lambda>b now. \<lfloor>tb_refilled now b\<rfloor>) (\<lambda>b now. tb_refilled now b) rate"
  using tb_metered [OF assms(1-3)] assms(4) by (simp add: refilling_def refilling_axioms_def)

text \<open>A limiter with a slow bucket, and one whose buckets are full before they are forgotten.\<close>

interpretation tbm: metered tb_ops "Fin (1 / 2)" 1000 minute "\<lambda>b. tb_wf 1000 b \<and> tb_rate b = 1 / 2"
  "\<lambda>b now. \<lfloor>tb_refilled now b\<rfloor>" "\<lambda>b now. tb_refilled now b" "1 / 2"
  by (rule tb_metered) (simp_all add: minute_def second_def)

interpretation tbw: refilling tb_ops "Fin (1 / 2)" 10 "10 * minute" "\<lambda>b. tb_wf 10 b \<and> tb_rate b = 1 / 2"
  "\<lambda>b now. \<lfloor>tb_refilled now b\<rfloor>" "\<lambda>b now. tb_refilled now b" "1 / 2"
  by (rule tb_refilling) (simp_all add: minute_def seconds_def second_def)

section \<open>Behind the interface\<close>

text \<open>A limiter that keeps the contract keeps it as a value of the interface.\<close>

lemma behind_interface:
  assumes "rate_limiter ops rwf timely level clock burst rate slack" "inj wrap"
    "\<And>now key l. lim_Allow ops' now key (wrap l) = map_prod id wrap (lim_Allow ops now key l)"
    "\<And>l. lim_Ping ops' (wrap l) = map_prod id wrap (lim_Ping ops l)"
  shows "rate_limiter ops' (\<lambda>v now. \<exists>l. v = wrap l \<and> rwf l now) timely (\<lambda>v. level (inv wrap v)) clock burst rate slack"
proof -
  note m = rate_limiter.slack_nonneg [OF assms(1)] rate_limiter.wf_later [OF assms(1)] rate_limiter.wf_allow [OF assms(1)]
    rate_limiter.level_nonneg [OF assms(1)] rate_limiter.level_burst [OF assms(1)] rate_limiter.refill [OF assms(1)]
    rate_limiter.spend [OF assms(1)] rate_limiter.ping_level [OF assms(1)]
  note unwrap = inv_f_f [OF assms(2)]
  have call: "\<exists>l'. v = wrap l' \<and> c = (res, l')" if "map_prod id wrap c = (res, v)" for c :: "'z \<times> 'a" and res v
    using that by (cases c) auto
  show ?thesis
  proof (unfold_locales, goal_cases)
    case 1
    show ?case by (rule m(1))
  next
    case (2 v now t)
    then show ?case by (auto intro: m(2))
  next
    case (3 v now key res v')
    then obtain l where l: "v = wrap l" "rwf l now" by metis
    obtain l' where l': "v' = wrap l'" "lim_Allow ops now key l = (res, l')"
      using call [OF 3(3) [unfolded l(1) assms(3)]] by metis
    from m(3) [OF l(2) 3(2) l'(2)] l'(1) show ?case by auto
  next
    case (4 v now key)
    then show ?case by (auto simp: unwrap intro: m(4))
  next
    case (5 v now key)
    then show ?case by (auto simp: unwrap intro: m(5))
  next
    case (6 v now t key)
    then show ?case by (auto simp: unwrap intro: m(6))
  next
    case (7 v now key res v' key')
    then obtain l where l: "v = wrap l" "rwf l now" by metis
    obtain l' where l': "v' = wrap l'" "lim_Allow ops now key l = (res, l')"
      using call [OF 7(3) [unfolded l(1) assms(3)]] by metis
    from m(7) [OF l(2) 7(2) l'(2), of key'] l(1) l'(1) show ?case by (simp add: unwrap)
  next
    case (8 v now u v' t key)
    then obtain l where l: "v = wrap l" "rwf l now" by metis
    obtain l' where l': "v' = wrap l'" "lim_Ping ops l = (u, l')"
      using call [OF 8(2) [unfolded l(1) assms(4)]] by metis
    from m(8) [OF l(2) l'(2)] l(1) l'(1) show ?case by (auto simp: unwrap)
  qed
qed

lemma any_memory_limiter:
  assumes "rate_limiter (memory_ops bk) rwf timely level clock burst rate slack"
  shows "rate_limiter (any_limiter_ops bk) (\<lambda>v now. \<exists>l. v = MemoryLimiter l \<and> rwf l now) timely
    (\<lambda>v. level (inv MemoryLimiter v)) clock burst rate slack"
  by (rule behind_interface [OF assms])
    (auto simp: inj_def any_limiter_ops_def any_Allow_def any_lim_Ping_def memory_ops_def split: prod.split)

lemma any_redis_limiter:
  assumes "rate_limiter (redis_ops rl) rwf timely level clock burst rate slack"
  shows "rate_limiter (any_limiter_ops bk) (\<lambda>v now. \<exists>s. v = RedisLimiter rl s \<and> rwf s now) timely
    (\<lambda>v. level (inv (RedisLimiter rl) v)) clock burst rate slack"
  by (rule behind_interface [OF assms])
    (auto simp: inj_def any_limiter_ops_def any_Allow_def any_lim_Ping_def redis_ops_def split: prod.split)

section \<open>A client that is forgotten\<close>

text \<open>
  The hypothesis that a bucket is full by the time its client is forgotten is needed. On the token
  buckets of exact arithmetic: once all clients have been idle for longer than the time to live, each
  has a whole burst again, whatever the rate.
\<close>

text \<open>The one client that is known at an instant, with so many tokens.\<close>

definition alone :: "string \<Rightarrow> instant \<Rightarrow> rat \<Rightarrow> token_bucket memory \<Rightarrow> bool" where
  "alone key now tokens l \<longleftrightarrow> 0 \<le> mem_ttl l \<and> 0 \<le> mem_burst l \<and>
     (\<exists>b. mem_clients l = [limit_key key \<mapsto> \<lparr>cl_limiter = b, cl_lastSeen = now\<rparr>]
       \<and> tb_wf (mem_burst l) b \<and> tb_refilled now b = tokens)"

lemma alone_allow:
  assumes "alone key now tokens l" "1 \<le> tokens" "mem_Allow tb_ops now key l = (res, l')"
  shows "res = Inr True" "alone key now (tokens - 1) l'" "mem_ttl l' = mem_ttl l" "mem_burst l' = mem_burst l"
proof -
  obtain b where b: "mem_clients l = [limit_key key \<mapsto> \<lparr>cl_limiter = b, cl_lastSeen = now\<rparr>]"
    "tb_wf (mem_burst l) b" "tb_refilled now b = tokens" "0 \<le> mem_ttl l" "0 \<le> mem_burst l"
    using assms(1) by (auto simp: alone_def)
  have "mem_cleanup now l = l"
    using b(1,4) by (cases l) (auto simp: mem_cleanup_def time_sub_def fun_eq_iff split: option.split)
  obtain ok b' where a: "bk_Allow tb_ops now b = (ok, b')" by fastforce
  have ok: "ok" using a b(3) assms(2) by (simp add: tb_ops_def Let_def)
  have r: "res = Inr ok" "l' = l\<lparr>mem_clients := [limit_key key \<mapsto> \<lparr>cl_limiter = b', cl_lastSeen = now\<rparr>]\<rparr>"
    using assms(3) \<open>mem_cleanup now l = l\<close> b(1) a by (simp_all add: mem_Allow_def Let_def)
  with ok show "res = Inr True" "mem_ttl l' = mem_ttl l" "mem_burst l' = mem_burst l" by simp_all
  show "alone key now (tokens - 1) l'"
    using tb_allow [OF b(2,5) a] b(3-5) ok by (auto simp: alone_def r(2) intro!: exI [of _ b'])
qed

lemma alone_drain:
  "alone key now tokens l \<Longrightarrow> of_nat n \<le> tokens \<Longrightarrow>
   allowed_in (memory_ops tb_ops) key (replicate n (now, key) @ cs) l
     = n + allowed_in (memory_ops tb_ops) key cs (calls_after (memory_ops tb_ops) (replicate n (now, key)) l)
   \<and> (let l' = calls_after (memory_ops tb_ops) (replicate n (now, key)) l in
        idle_since now l' \<and> mem_ttl l' = mem_ttl l \<and> mem_burst l' = mem_burst l)"
proof (induction n arbitrary: l tokens)
  case 0
  then show ?case by (auto simp: alone_def idle_since_def Let_def split: if_splits)
next
  case (Suc n)
  obtain res l' where a: "mem_Allow tb_ops now key l = (res, l')" by fastforce
  have "1 \<le> tokens" using Suc.prems(2) by simp
  note r = alone_allow [OF Suc.prems(1) this a]
  from Suc.IH [OF r(2)] Suc.prems(2) r(1,3,4) a show ?case by (simp add: memory_ops_def)
qed

lemma first_again:
  assumes "idle_since t l" "mem_ttl l < time_sub now t" "0 \<le> mem_ttl l" "0 < mem_burst l"
    "mem_Allow tb_ops now key l = (res, l')"
  shows "res = Inr True" "alone key now (of_int (mem_burst l) - 1) l'" "mem_ttl l' = mem_ttl l" "mem_burst l' = mem_burst l"
proof -
  have gone: "mem_clients (mem_cleanup now l) = Map.empty"
  proof
    fix k
    show "mem_clients (mem_cleanup now l) k = None"
    proof (cases "mem_clients l k")
      case (Some e)
      then have "cl_lastSeen e \<le> t" using assms(1) by (simp add: idle_since_def)
      then have "time_sub now t \<le> time_sub now (cl_lastSeen e)" by (auto simp: time_sub_def)
      with Some assms(2) show ?thesis by (simp add: mem_cleanup_def)
    qed (simp add: mem_cleanup_def)
  qed
  define b where "b = bk_New tb_ops (mem_limit l) (mem_burst l)"
  have b: "tb_wf (mem_burst l) b" using assms(4) by (simp add: b_def tb_new)
  have full: "tb_refilled now b = of_int (mem_burst l)" using assms(4) by (simp add: b_def tb_new_full)
  obtain ok b' where a: "bk_Allow tb_ops now b = (ok, b')" by fastforce
  have "(1::rat) \<le> of_int (mem_burst l)" using assms(4) by (metis int_one_le_iff_zero_less of_int_1_le_iff)
  then have ok: "ok" using a full by (simp add: tb_ops_def Let_def)
  have c: "mem_limit (mem_cleanup now l) = mem_limit l" "mem_burst (mem_cleanup now l) = mem_burst l"
    "mem_ttl (mem_cleanup now l) = mem_ttl l" by (simp_all add: mem_cleanup_def)
  have r: "res = Inr ok"
    "l' = (mem_cleanup now l)\<lparr>mem_clients := [limit_key key \<mapsto> \<lparr>cl_limiter = b', cl_lastSeen = now\<rparr>]\<rparr>"
    using assms(5) gone a c by (simp_all add: mem_Allow_def Let_def b_def)
  with ok c show "res = Inr True" "mem_ttl l' = mem_ttl l" "mem_burst l' = mem_burst l" by simp_all
  show "alone key now (of_int (mem_burst l) - 1) l'"
    using tb_allow [OF b _ a] full ok assms(3,4) c by (auto simp: alone_def r(2) intro!: exI [of _ b'])
qed

text \<open>A client that comes back with a burst each time it is forgotten.\<close>

fun bursts :: "string \<Rightarrow> nat \<Rightarrow> duration \<Rightarrow> instant \<Rightarrow> nat \<Rightarrow> (instant \<times> string) list" where
  "bursts key n d t 0 = []"
| "bursts key n d t (Suc m) = replicate n (t, key) @ bursts key n d (t + d) m"

lemma bursts_allowed:
  assumes "0 \<le> ttl" "ttl < 9223372036854775807" "0 < burst"
  shows "idle_since t0 l \<Longrightarrow> ttl < time_sub t t0 \<Longrightarrow> mem_ttl l = ttl \<Longrightarrow> mem_burst l = burst \<Longrightarrow>
    allowed_in (memory_ops tb_ops) key (bursts key (nat burst) (ttl + 1) t m) l = m * nat burst"
proof (induction m arbitrary: l t t0)
  case (Suc m)
  obtain res l1 where a: "mem_Allow tb_ops t key l = (res, l1)" by fastforce
  note f = first_again [OF Suc.prems(1) _ _ _ a, unfolded Suc.prems(3,4), OF Suc.prems(2) assms(1,3)]
  define n where "n = nat burst - 1"
  have n: "nat burst = Suc n" "of_nat n \<le> (of_int burst - 1 :: rat)" using assms(3) by (simp_all add: n_def of_nat_diff)
  define l2 where "l2 = calls_after (memory_ops tb_ops) (replicate n (t, key)) l1"
  note d = alone_drain [OF f(2) n(2), of "bursts key (nat burst) (ttl + 1) (t + (ttl + 1)) m"]
  have "ttl < time_sub (t + (ttl + 1)) t" using assms(1,2) by (simp add: time_sub_def)
  then have "allowed_in (memory_ops tb_ops) key (bursts key (nat burst) (ttl + 1) (t + (ttl + 1)) m) l2 = m * nat burst"
    using d f(3,4) by (intro Suc.IH [of t]) (simp_all add: l2_def Let_def)
  with d f(1) a show ?case by (simp add: n(1) memory_ops_def l2_def)
qed simp

lemma memory_forgets:
  assumes "0 < burst" "0 \<le> ttl" "ttl < 9223372036854775807"
  shows "allowed_in (memory_ops tb_ops) key (bursts key (nat burst) (ttl + 1) 0 m) (NewMemory perMinute burst ttl)
    = m * nat burst"
  by (rule bursts_allowed [OF assms(2,3,1), of "- (ttl + 1)"])
    (use assms in \<open>simp_all add: idle_since_def NewMemory_def time_sub_def\<close>)

end
