(* ===== verification/RedisWindow.thy ===== *)
theory RedisWindow
  imports RateWindow
begin

text \<open>
  The limiter in Redis over time: its script keeps the contract of RateWindow up to the rounding of
  binary64, on a clock of milliseconds; how long it keeps a client; and what clocks that disagree do to it.
\<close>

section \<open>The limiter in Redis over time\<close>

lemma lua_min_le: "lua_min (Fin b) (Fin c) = Fin y \<Longrightarrow> y \<le> b \<and> y \<le> c"
  by (auto simp: lua_min_def split: if_splits)

lemma lua_min_burst: "lua_min (Fin b) f = Fin y \<Longrightarrow> y \<le> b"
  by (cases f) (auto simp: lua_min_def split: if_splits)

text \<open>Three roundings, each of at most half a unit, against the exact sum.\<close>

lemma three_roundings:
  fixes x B b u \<tau> :: rat
  assumes "0 \<le> x" "0 \<le> B" "x + B \<le> K" "1 \<le> K" "0 \<le> u" "u \<le> 1 / 100" "0 \<le> \<tau>" "\<tau> \<le> u / 8"
    "b \<le> (B * (1 + u)) * (1 + u) + \<tau>" "y \<le> (x + b) * (1 + u) + \<tau>"
  shows "y \<le> x + B + K * (4 * u)"
proof -
  have x: "x * 1 \<le> x * ((1 + u) * (1 + u))"
    using assms(1,5) mult_mono [of 1 "1 + u" 1 "1 + u"] by (intro mult_left_mono) auto
  have "x + b \<le> (x + B) * ((1 + u) * (1 + u)) + \<tau>" using x assms(9) by (simp add: algebra_simps)
  then have "(x + b) * (1 + u) \<le> ((x + B) * ((1 + u) * (1 + u)) + \<tau>) * (1 + u)"
    using assms(5) by (intro mult_right_mono) auto
  then have y: "y \<le> (x + B) + (x + B) * (u * (3 + 3 * u + u * u)) + \<tau> * (2 + u)"
    using assms(10) by (simp add: algebra_simps)
  have "u * u \<le> 1 / 100 * (1 / 100)" using assms(5,6) by (intro mult_mono) auto
  then have "u * (3 + 3 * u + u * u) \<le> u * (13 / 4)" using assms(5,6) by (intro mult_left_mono) auto
  from mult_mono [OF assms(3) this] assms(1,2,4,5)
  have "(x + B) * (u * (3 + 3 * u + u * u)) \<le> K * (u * (13 / 4))" by auto
  also have "\<dots> = 13 / 4 * (K * u)" by simp
  finally have 1: "(x + B) * (u * (3 + 3 * u + u * u)) \<le> 13 / 4 * (K * u)" .
  have 2: "\<tau> * (2 + u) \<le> u / 8 * 3" using assms(5-8) by (intro mult_mono) auto
  have 3: "u \<le> K * u" using mult_right_mono [OF assms(4,5)] by simp
  have 4: "K * (4 * u) = 4 * (K * u)" by simp
  from y 1 2 3 assms(5) show ?thesis unfolding 4 by linarith
qed

lemma script_upper:
  assumes "0 \<le> x" "0 \<le> k" "k \<le> 9007199254740992" "0 \<le> rate" "0 \<le> K" "K \<le> 9007199254740992"
    "lua_min (Fin (of_int K)) (f64_add (Fin x) (f64_mul (Fin (rnd (of_int k / 1000))) (Fin rate))) = Fin y"
  shows "y \<le> min (of_int K) (x + rate * (of_int k / 1000)) + of_int K * (4 * ulp_rel)"
proof (cases "of_int K \<le> x + rate * (of_int k / 1000)")
  case True
  moreover have "0 \<le> of_int K * (4 * ulp_rel)" using assms(5) ulp_rel_bounds(1) by simp
  ultimately show ?thesis using lua_min_burst [OF assms(7)] by linarith
next
  case False
  define B where "B = rate * (of_int k / 1000)"
  define a where "a = rnd (of_int k / 1000)"
  define b where "b = rnd (a * rate)"
  have K: "(of_int K :: rat) \<le> 9007199254740992" using assms(6) by (metis of_int_le_iff of_int_numeral)
  have B: "0 \<le> B" "x + B < of_int K" using assms(2,4) False by (simp_all add: B_def)
  then have K1: "(1::rat) \<le> of_int K" using assms(1,5) by (cases "K = 0") auto
  have a: "0 \<le> a" "a \<le> of_int k / 1000 * (1 + ulp_rel)"
  proof -
    show "0 \<le> a" using assms(2) by (simp add: a_def rnd_nonneg)
    show "a \<le> of_int k / 1000 * (1 + ulp_rel)"
    proof (cases "k = 0")
      case False
      then have k: "(1::rat) \<le> of_int k" using assms(2) by simp
      have "(2::rat) powi (- 1022) \<le> 2 powi (- 10)" by (rule powi_mono) simp
      also have "\<dots> \<le> of_int k / 1000" using k by (simp add: power_int_minus)
      finally show ?thesis unfolding a_def by (rule rnd_upper_normal)
    qed (simp add: a_def)
  qed
  have ar: "a * rate \<le> B * (1 + ulp_rel)"
    using mult_right_mono [OF a(2) assms(4)] by (simp add: B_def algebra_simps)
  also have "\<dots> \<le> 9007199254740992 * 2" using B K assms(1) ulp_rel_bounds by (intro mult_mono) auto
  finally have ar2: "a * rate \<le> 18014398509481984" by simp
  have ar0: "0 \<le> a * rate" using a(1) assms(4) by simp
  have "f64_mul (Fin a) (Fin rate) = Fin b"
    using round_f64_moderate [OF ar0] ar2 by (simp add: b_def)
  have b: "0 \<le> b" "b \<le> a * rate * (1 + ulp_rel) + ulp_abs"
    using rnd_upper [OF ar0] rnd_nonneg [OF ar0] by (simp_all add: b_def)
  have b2: "b \<le> B * (1 + ulp_rel) * (1 + ulp_rel) + ulp_abs"
    using b(2) mult_right_mono [OF ar, of "1 + ulp_rel"] ulp_rel_bounds by linarith
  have "b \<le> 18014398509481984 * 2 + 1"
    using b(2) mult_mono [OF ar2, of "1 + ulp_rel" 2] ulp_rel_bounds ulp_abs_bounds by auto
  then have xb: "0 \<le> x + b" "x + b \<le> 1152921504606846976" using assms(1) b(1) B K by auto
  have "y \<le> rnd (x + b)"
    using assms(7) lua_min_le [of "of_int K" "rnd (x + b)" y] round_f64_moderate [OF xb] \<open>f64_mul (Fin a) (Fin rate) = Fin b\<close>
    by (simp flip: a_def)
  then have "y \<le> (x + b) * (1 + ulp_rel) + ulp_abs" using rnd_upper [OF xb(1)] by linarith
  from three_roundings [OF assms(1) B(1) _ K1 _ _ _ _ b2 this] B(2) ulp_rel_bounds ulp_abs_bounds
  show ?thesis by (simp add: B_def)
qed

text \<open>The clock of the script counts milliseconds.\<close>

definition milli_clock :: "instant \<Rightarrow> rat" where
  "milli_clock now = of_int (unix_milli now) / 1000"

lemma unix_milli_mono: "now \<le> t \<Longrightarrow> unix_milli now \<le> unix_milli t"
  by (simp add: unix_milli_def zdiv_mono1)

lemma milli_clock_mono: "now \<le> t \<Longrightarrow> milli_clock now \<le> milli_clock t"
  by (simp add: milli_clock_def unix_milli_mono divide_right_mono)

text \<open>
  What a client gains when its key expires before its bucket is full, and with it what one run of
  the script can add by its roundings.
\<close>

definition expiry_gain :: "redis_limiter \<Rightarrow> rat \<Rightarrow> rat" where
  "expiry_gain l rate = max 0 (of_int (rl_burst l) - rate * (of_int (rl_stateTTL l div 1000000) / 1000))"

definition call_slack :: "redis_limiter \<Rightarrow> rat \<Rightarrow> rat" where
  "call_slack l rate = expiry_gain l rate + of_int (rl_burst l) / 2251799813685248"

context redis_config
begin

definition timed :: "instant \<Rightarrow> redis_hash \<Rightarrow> bool" where
  "timed now h \<longleftrightarrow> (\<exists>n. h_last h = Fin (of_int n) \<and> n \<le> unix_milli now
     \<and> h_expires h = n + rl_stateTTL l div 1000000)"

definition twf :: "redis \<Rightarrow> instant \<Rightarrow> bool" where
  "twf s now \<longleftrightarrow> rwf s \<and> (\<forall>k h. rd_keys s k = Some h \<longrightarrow> timed now h)"

text \<open>The tokens a client would have without rounding and without expiry.\<close>

definition hash_level :: "redis_hash \<Rightarrow> instant \<Rightarrow> rat" where
  "hash_level h now =
     (case (h_tokens h, h_last h) of
        (Fin x, Fin n) \<Rightarrow> min (of_int (rl_burst l)) (x + rate * (milli_clock now - n / 1000))
      | _ \<Rightarrow> 0)"

definition rlevel :: "redis \<Rightarrow> instant \<Rightarrow> string \<Rightarrow> rat" where
  "rlevel s now key =
     (case rd_keys s (full_key key) of None \<Rightarrow> of_int (rl_burst l) | Some h \<Rightarrow> hash_level h now)"

lemma timed_later: "timed now h \<Longrightarrow> now \<le> t \<Longrightarrow> timed t h"
  using unix_milli_mono [of now t] by (auto simp: timed_def)

lemma hash_form:
  assumes "hash_ok (rl_burst l) h" "timed now h"
  obtains x n where "h_tokens h = Fin x" "0 \<le> x" "x \<le> of_int (rl_burst l)" "h_last h = Fin (of_int n)"
    "\<bar>n\<bar> \<le> 4503599627370496" "n \<le> unix_milli now" "h_expires h = n + rl_stateTTL l div 1000000"
  using assms by (auto simp: hash_ok_def tokens_ok_def timed_def)

lemma hash_level_form:
  "h_tokens h = Fin x \<Longrightarrow> h_last h = Fin (of_int n) \<Longrightarrow>
   hash_level h now = min (of_int (rl_burst l)) (x + rate * (of_int (unix_milli now - n) / 1000))"
  by (simp add: hash_level_def milli_clock_def diff_divide_distrib)

lemma hash_level_range:
  assumes "hash_ok (rl_burst l) h" "timed now h"
  shows "0 \<le> hash_level h now \<and> hash_level h now \<le> of_int (rl_burst l)"
proof -
  obtain x n where h: "h_tokens h = Fin x" "0 \<le> x" "h_last h = Fin (of_int n)" "n \<le> unix_milli now"
    by (rule hash_form [OF assms])
  have "(0::rat) \<le> of_int (unix_milli now - n) / 1000" using h(4) by simp
  then have "0 \<le> rate * (of_int (unix_milli now - n) / 1000)" using rate(2) by (intro mult_nonneg_nonneg)
  then show ?thesis using h(2) burst(1) by (simp add: hash_level_form [OF h(1,3)])
qed

lemma rlevel_range: "twf s now \<Longrightarrow> 0 \<le> rlevel s now key \<and> rlevel s now key \<le> of_int (rl_burst l)"
  using hash_level_range burst(1) by (auto simp: rlevel_def twf_def rwf_def split: option.split)

lemma rlevel_refill:
  assumes "twf s now" "now \<le> t"
  shows "rlevel s t key \<le> rlevel s now key + rate * (milli_clock t - milli_clock now)"
proof -
  have nonneg: "0 \<le> rate * (milli_clock t - milli_clock now)"
    using rate(2) milli_clock_mono [OF assms(2)] by simp
  show ?thesis
  proof (cases "rd_keys s (full_key key)")
    case (Some h)
    then obtain x n where h: "h_tokens h = Fin x" "h_last h = Fin (of_int n)"
      using assms(1) unfolding twf_def rwf_def hash_ok_def tokens_ok_def by blast
    have "hash_level h t \<le> hash_level h now + rate * (milli_clock t - milli_clock now)"
      using nonneg by (simp add: hash_level_def h algebra_simps)
    with Some show ?thesis by (simp add: rlevel_def)
  qed (use nonneg in \<open>simp add: rlevel_def\<close>)
qed

text \<open>What the script reads is at most the level and the slack.\<close>

lemma refilled_level:
  assumes "twf s now" "ms_ok now" "refilled now (redis_get s (unix_milli now) (full_key key)) = Fin y"
  shows "y \<le> rlevel s now key + call_slack l rate"
proof -
  have u: "0 \<le> of_int (rl_burst l) / (2251799813685248 :: rat)" using burst(1) by simp
  have g: "0 \<le> expiry_gain l rate" by (simp add: expiry_gain_def)
  have new: "refilled now None = Fin (of_int (rl_burst l))" by (simp add: refilled_def script_tokens_def)
  show ?thesis
  proof (cases "rd_keys s (full_key key)")
    case None
    with assms(3) new u g show ?thesis by (simp add: redis_get_def rlevel_def call_slack_def)
  next
    case (Some h)
    then have "hash_ok (rl_burst l) h" "timed now h" using assms(1) by (auto simp: twf_def rwf_def)
    then obtain x n where h: "h_tokens h = Fin x" "0 \<le> x" "h_last h = Fin (of_int n)" "\<bar>n\<bar> \<le> 4503599627370496"
      "n \<le> unix_milli now" "h_expires h = n + rl_stateTTL l div 1000000"
      by (rule hash_form)
    define k where "k = unix_milli now - n"
    have k: "0 \<le> k" "k \<le> 9007199254740992" using h(4,5) assms(2) by (auto simp: k_def ms_ok_def)
    have level: "rlevel s now key = min (of_int (rl_burst l)) (x + rate * (of_int k / 1000))"
      using Some hash_level_form [OF h(1,3)] by (simp add: rlevel_def k_def)
    show ?thesis
    proof (cases "unix_milli now \<le> h_expires h")
      case True
      then have "lua_min (Fin (of_int (rl_burst l)))
          (f64_add (Fin x) (f64_mul (Fin (rnd (of_int k / 1000))) (Fin rate))) = Fin y"
        using assms(3) Some refilled_form [OF assms(2) h(1,3,4)] k(1) by (simp add: redis_get_def k_def max_def)
      from script_upper [OF h(2) k rate(2) burst this] level g show ?thesis by (simp add: call_slack_def ulp_rel_def)
    next
      case False
      then have "rl_stateTTL l div 1000000 \<le> k" using h(6) by (simp add: k_def)
      then have "(of_int (rl_stateTTL l div 1000000) :: rat) / 1000 \<le> of_int k / 1000"
        by (intro divide_right_mono) simp_all
      from mult_left_mono [OF this rate(2)]
      have "of_int (rl_burst l) - expiry_gain l rate \<le> rlevel s now key" using level h(2) g by (simp add: expiry_gain_def)
      moreover have "y = of_int (rl_burst l)" using False assms(3) Some new by (simp add: redis_get_def)
      ultimately show ?thesis using u unfolding call_slack_def by linarith
    qed
  qed
qed

lemma run_level:
  assumes "twf s now" "ms_ok now" "redis_run l now (full_key key) s = (n, s')"
  shows "twf s' now" "rlevel s' now key' \<le> rlevel s now key'
    + (if limit_key key = limit_key key' then call_slack l rate - (if n = 1 then 1 else 0) else 0)"
proof -
  let ?ms = "unix_milli now"
  have w: "rwf s" using assms(1) by (simp add: twf_def)
  obtain y t where y: "refilled now (redis_get s ?ms (full_key key)) = Fin y" "n = (if 1 \<le> y then 1 else 0)"
    "t = y - of_int n" and s': "s' = s\<lparr>rd_keys := (rd_keys s)(full_key key \<mapsto>
       \<lparr>h_tokens = Fin t, h_last = f64_of_int ?ms, h_expires = ?ms + rl_stateTTL l div 1000000\<rparr>)\<rparr>"
    by (rule run_form [OF w assms(2,3)])
  have last: "f64_of_int ?ms = Fin (of_int ?ms)" using assms(2) by (simp add: ms_ok_def)
  have "timed now \<lparr>h_tokens = Fin t, h_last = f64_of_int ?ms, h_expires = ?ms + rl_stateTTL l div 1000000\<rparr>"
    by (simp add: timed_def last)
  then show "twf s' now" using assms(1) run_result(1) [OF w assms(2,3)] by (auto simp: twf_def s')
  have "rlevel s' now key \<le> t" by (simp add: rlevel_def s' hash_level_def last milli_clock_def)
  then have "rlevel s' now key \<le> rlevel s now key + (call_slack l rate - (if n = 1 then 1 else 0))"
    using refilled_level [OF assms(1,2) y(1)] y(2,3) by auto
  then show "rlevel s' now key' \<le> rlevel s now key'
    + (if limit_key key = limit_key key' then call_slack l rate - (if n = 1 then 1 else 0) else 0)"
    using full_key_inj [of key' key] by (auto simp: rlevel_def s' full_key_def)
qed

lemma no_faults: "rd_faults s = [] \<Longrightarrow> rd_faults (calls_after (redis_ops l) hs s) = []"
proof (induction hs arbitrary: s)
  case (Cons c hs)
  have "rd_faults (snd (redis_Allow l (fst c) (snd c) s)) = []"
    using Cons.prems by (simp add: redis_Allow_def redis_fault_def redis_run_def Let_def split: prod.split)
  then show ?case using Cons.IH by (cases c) simp
qed simp

text \<open>A client that has waited for a token gets through, when the command works.\<close>

lemma refilled_waited:
  assumes "twf s t0" "ms_ok now" "t0 \<le> now" "1 \<le> rl_burst l"
    "1 \<le> rate * (milli_clock now - milli_clock t0) * (1 - ulp_rel)"
    "refilled now (redis_get s (unix_milli now) (full_key key)) = Fin y"
  shows "1 \<le> y"
proof (cases "redis_get s (unix_milli now) (full_key key)")
  case None
  have "(1::rat) \<le> of_int (rl_burst l)" using assms(4) by simp
  with None assms(6) show ?thesis by (simp add: refilled_def script_tokens_def)
next
  case (Some h)
  then have "rd_keys s (full_key key) = Some h" by (auto simp: redis_get_def split: option.splits if_splits)
  then have "hash_ok (rl_burst l) h" "timed t0 h" using assms(1) by (auto simp: twf_def rwf_def)
  then obtain x n where h: "h_tokens h = Fin x" "0 \<le> x" "h_last h = Fin (of_int n)" "\<bar>n\<bar> \<le> 4503599627370496"
    "n \<le> unix_milli t0"
    by (rule hash_form)
  define k where "k = unix_milli now - n"
  have k: "0 \<le> k" "unix_milli now - unix_milli t0 \<le> k"
    using h(5) unix_milli_mono [OF assms(3)] by (simp_all add: k_def)
  define a where "a = rnd (of_int k / 1000)"
  have K: "(1::rat) \<le> of_int (rl_burst l)" using assms(4) by simp
  have "milli_clock now - milli_clock t0 \<le> of_int k / 1000"
    using k(2) unfolding milli_clock_def by (simp flip: diff_divide_distrib of_int_diff)
  then have "rate * (milli_clock now - milli_clock t0) * (1 - ulp_rel) \<le> rate * (of_int k / 1000) * (1 - ulp_rel)"
    using rate(2) by (intro mult_right_mono mult_left_mono) (simp_all add: ulp_rel_def)
  from order_trans [OF assms(5) this] have need: "1 \<le> rate * (of_int k / 1000 * (1 - ulp_rel))"
    by (simp only: mult.assoc)
  have "k \<noteq> 0" using need by (intro notI) simp
  then have "(1::rat) \<le> of_int k" using k(1) by simp
  then have "of_int k / 1000 * (1 - ulp_rel) \<le> a" unfolding a_def by (intro rnd_near) simp
  from mult_left_mono [OF this rate(2)] need have ar: "1 \<le> a * rate" by (simp add: mult.commute)
  have big: "1 \<le> rnd z" if "1 \<le> z" for z using rnd_mono [OF that] rnd_int [of 1] by simp
  have "f64_mul (Fin a) (Fin rate) = PosInf \<or> (\<exists>b. f64_mul (Fin a) (Fin rate) = Fin b \<and> 1 \<le> b)"
    using round_cases [of "a * rate"] ar big [OF ar] by auto
  then have "f64_add (Fin x) (f64_mul (Fin a) (Fin rate)) = PosInf
      \<or> (\<exists>c. f64_add (Fin x) (f64_mul (Fin a) (Fin rate)) = Fin c \<and> 1 \<le> c)"
  proof (elim disjE exE conjE)
    fix b :: rat assume "f64_mul (Fin a) (Fin rate) = Fin b" "1 \<le> b"
    with h(2) round_cases [of "x + b"] big [of "x + b"] show ?thesis by auto
  qed simp
  then show ?thesis
    using assms(6) refilled_form [OF assms(2) h(1,3,4)] Some k(1) K
    by (auto simp: a_def k_def max_def lua_min_def split: if_splits)
qed

lemma waits_enough:
  assumes "twf s t0" "ms_ok now" "t0 \<le> now" "1 \<le> rl_burst l"
    "1 \<le> rate * (milli_clock now - milli_clock t0) * (1 - ulp_rel)" "rd_faults s = []"
  shows "fst (redis_Allow l now key s) = Inr True"
proof -
  have w: "rwf s" using assms(1) by (simp add: twf_def)
  obtain n s' where r: "redis_run l now (full_key key) s = (n, s')" by fastforce
  obtain y where y: "refilled now (redis_get s (unix_milli now) (full_key key)) = Fin y" "n = (if 1 \<le> y then 1 else 0)"
    by (rule run_form [OF w assms(2) r])
  have "n = 1" using refilled_waited [OF assms(1-5) y(1)] y(2) by simp
  with r show ?thesis by (simp add: redis_Allow_def redis_fault_def assms(6) full_key_def)
qed

lemma same_level: "rd_keys s' = rd_keys s \<Longrightarrow> twf s' = twf s \<and> rlevel s' = rlevel s"
  by (simp add: twf_def rwf_def rlevel_def fun_eq_iff)

lemma call_slack_nonneg: "0 \<le> call_slack l rate"
  using burst(1) by (simp add: call_slack_def expiry_gain_def)

end

sublocale redis_config \<subseteq> window: rate_limiter "redis_ops l" twf ms_ok rlevel milli_clock "of_int (rl_burst l)" rate "call_slack l rate"
proof (unfold_locales, goal_cases)
  case 1
  show ?case by (rule call_slack_nonneg)
next
  case (2 s now t)
  then show ?case using timed_later unfolding twf_def by blast
next
  case (3 s now key res s')
  from 3(3) have "redis_Allow l now key s = (res, s')" by simp
  then show ?case
  proof (cases rule: allow_cases)
    case (failed e)
    then show ?thesis using 3(1) same_level [OF failed(2)] by simp
  next
    case (ran s1 n)
    then show ?thesis using 3(1,2) same_level [OF ran(1)] run_level(1) by metis
  qed
next
  case (4 s now key)
  then show ?case using rlevel_range by blast
next
  case (5 s now key)
  then show ?case using rlevel_range by blast
next
  case (6 s now t key)
  then show ?case using rlevel_refill by blast
next
  case (7 s now key res s' key')
  from 7(3) have "redis_Allow l now key s = (res, s')" by simp
  then show ?case
  proof (cases rule: allow_cases)
    case (failed e)
    then show ?thesis using same_level [OF failed(2)] call_slack_nonneg by simp
  next
    case (ran s1 n)
    have "twf s1 now" "rlevel s1 = rlevel s" using 7(1) same_level [OF ran(1)] by auto
    with run_level(2) [OF this(1) 7(2) ran(2), of key'] ran(3) show ?thesis by (auto split: if_splits)
  qed
next
  case (8 s now u s' t key)
  then have "rd_keys s' = rd_keys s" by (auto simp: redis_Ping_def redis_fault_def split: prod.splits fault.splits list.splits)
  from same_level [OF this] 8(1) show ?case by simp
qed

context redis_config
begin

lemma over_time: "rate_limiter (redis_ops l) twf ms_ok rlevel milli_clock (of_int (rl_burst l)) rate (call_slack l rate)"
  by unfold_locales

lemma empty_twf: "rd_keys s = Map.empty \<Longrightarrow> twf s t"
  by (simp add: twf_def rwf_def)

lemma waits_from_empty:
  assumes "rd_keys s = Map.empty" "list_all (\<lambda>c. ms_ok (fst c)) hs" "sorted (map fst hs @ [t0])"
    "ms_ok now" "t0 \<le> now" "1 \<le> rl_burst l"
    "1 \<le> rate * (milli_clock now - milli_clock t0) * (1 - ulp_rel)" "rd_faults (calls_after (redis_ops l) hs s) = []"
  shows "fst (redis_Allow l now key (calls_after (redis_ops l) hs s)) = Inr True"
  by (rule waits_enough [OF window.after_start [OF empty_twf [OF assms(1)] assms(2,3)] assms(4-8)])

lemma window_from_empty:
  assumes "rd_keys s = Map.empty" "list_all (\<lambda>c. ms_ok (fst c)) (hs @ cs)" "ms_ok t0" "ms_ok t1"
    "sorted (map fst hs @ t0 # map fst cs @ [t1])"
  shows "of_nat (allowed_in (redis_ops l) key cs (calls_after (redis_ops l) hs s))
    \<le> of_int (rl_burst l) + rate * (milli_clock t1 - milli_clock t0) + call_slack l rate * of_nat (calls_under key cs)"
  by (rule window.allowed_in_window [OF empty_twf [OF assms(1)] assms(2-5)])

end

section \<open>How long Redis keeps a client\<close>

lemma four_losses: 
  fixes u :: rat
  assumes "0 \<le> u" "u \<le> 1"
  shows "1 - 4 * u \<le> (1 - u) * (1 - u) * (1 - u) * (1 - u)"
proof -
  have more: "1 - (a + u) \<le> b * (1 - u)" if "0 \<le> a" "1 - a \<le> b" for a b :: rat
  proof -
    have "1 - (a + u) \<le> (1 - a) * (1 - u)" using that(1) assms(1) by (simp add: algebra_simps)
    also have "\<dots> \<le> b * (1 - u)" using that(2) assms(2) by (intro mult_right_mono) auto
    finally show ?thesis .
  qed
  have "1 - (u + u) \<le> (1 - u) * (1 - u)" using assms by (intro more) auto
  then have "1 - (u + u + u) \<le> (1 - u) * (1 - u) * (1 - u)" using assms by (intro more) auto
  then have "1 - (u + u + u + u) \<le> (1 - u) * (1 - u) * (1 - u) * (1 - u)" using assms by (intro more) auto
  then show ?thesis by simp
qed

text \<open>The time an empty bucket needs, as \<open>NewRedis\<close> computes it in nanoseconds.\<close>

definition refill_time :: "(f64 \<Rightarrow> int) \<Rightarrow> f64 \<Rightarrow> int \<Rightarrow> int" where
  "refill_time wild perMinute burst = int64_of_f64 wild
     (f64_mul (f64_mul (f64_div (f64_of_int burst) perMinute) (f64_of_int 60)) (f64_of_int second))"

lemma refill_time_lower:
  assumes "0 < p" "p \<le> of_int burst" "0 < burst" "burst \<le> 9007199254740992"
    "of_int burst * 60 \<le> p * 1000000000"
  shows "of_int burst / p * 60 * 1000000000 * ((1 - ulp_rel) * (1 - ulp_rel) * (1 - ulp_rel)) - 1
    \<le> of_int (refill_time wild (Fin p) burst)"
proof -
  let ?u = ulp_rel
  define r where "r = of_int burst / p"
  have r: "1 \<le> r" "r * 60 \<le> 1000000000"
    using assms(1,2,5) by (simp_all add: r_def divide_le_eq)
  have u: "0 \<le> ?u" "?u \<le> 1 / 100" by (simp_all add: ulp_rel_def)
  define a where "a = rnd r"
  have a: "r * (1 - ?u) \<le> a" "a \<le> r * (1 + ?u)" using rnd_near [of r] r(1) by (simp_all add: a_def)
  have a1: "1 / 2 \<le> a" using a(1) mult_mono [OF r(1), of "1 / 2" "1 - ?u"] u r(1) by simp
  have a60: "a * 60 \<le> 1000000000 * (1 + ?u)"
    using mult_right_mono [OF a(2), of 60] mult_right_mono [OF r(2), of "1 + ?u"] u by (simp add: algebra_simps)
  define b where "b = rnd (a * 60)"
  have b: "a * 60 * (1 - ?u) \<le> b" "b \<le> a * 60 * (1 + ?u)" using rnd_near [of "a * 60"] a1 by (simp_all add: b_def)
  have b1: "1 \<le> b" using b(1) mult_mono [of "1 / 2 * 60" "a * 60" "1 / 2" "1 - ?u"] u a1 by simp
  have "b \<le> 1000000000 * (1 + ?u) * (1 + ?u)"
    using b(2) mult_right_mono [OF a60, of "1 + ?u"] u by linarith
  also have "\<dots> = 1000000000 * ((1 + ?u) * (1 + ?u))" by simp
  also have "\<dots> \<le> 1000000000 * (101 / 100 * (101 / 100))"
    using u by (intro mult_left_mono mult_mono) auto
  finally have b9: "b * 1000000000 \<le> 1100000000000000000" by simp
  define c where "c = rnd (b * 1000000000)"
  have c: "b * 1000000000 * (1 - ?u) \<le> c" "c \<le> b * 1000000000 * (1 + ?u)"
    using rnd_near [of "b * 1000000000"] b1 by (simp_all add: c_def)
  have "c \<le> 1100000000000000000 * 2" using c(2) mult_mono [OF b9, of "1 + ?u" 2] u b1 by simp
  then have c63: "0 \<le> c" "c \<le> 2200000000000000000"
    using b1 by (simp_all add: c_def rnd_nonneg)
  have "f64_of_int burst = Fin (of_int burst)" "f64_of_int 60 = Fin 60" "f64_of_int second = Fin 1000000000"
    using assms(3,4) f64_of_int_small [of 60] f64_of_int_small [of second] by (simp_all add: second_def)
  moreover have "round_f64 r = Fin a" using round_f64_moderate [of r] r by (simp add: a_def)
  moreover have "round_f64 (a * 60) = Fin b" using round_f64_moderate [of "a * 60"] a1 a60 u by (simp add: b_def)
  moreover have "round_f64 (b * 1000000000) = Fin c" using round_f64_moderate [of "b * 1000000000"] b1 b9 by (simp add: c_def)
  ultimately have "refill_time wild (Fin p) burst = int64_of_f64 wild (Fin c)"
    using assms(1) by (simp add: refill_time_def r_def)
  also have "\<dots> = \<lfloor>c\<rfloor>"
  proof -
    have "0 \<le> \<lfloor>c\<rfloor>" "\<lfloor>c\<rfloor> \<le> 2200000000000000000" using c63 by (simp_all add: floor_le_iff)
    then show ?thesis using c63(1) by (simp add: int64_of_f64_def f64_trunc_def in_int64_def)
  qed
  finally have t: "c - 1 \<le> of_int (refill_time wild (Fin p) burst)" by linarith
  have "r * (1 - ?u) * (60 * (1 - ?u)) \<le> a * (60 * (1 - ?u))" using a(1) u by (intro mult_right_mono) auto
  also have "\<dots> \<le> b" using b(1) by (simp only: mult.assoc)
  finally have "r * (1 - ?u) * (60 * (1 - ?u)) * (1000000000 * (1 - ?u)) \<le> b * (1000000000 * (1 - ?u))"
    using u by (intro mult_right_mono) auto
  also have "\<dots> \<le> c" using c(1) by (simp only: mult.assoc)
  finally have "r * (1 - ?u) * (60 * (1 - ?u)) * (1000000000 * (1 - ?u)) \<le> c" .
  moreover have "r * (1 - ?u) * (60 * (1 - ?u)) * (1000000000 * (1 - ?u))
      = r * 60 * 1000000000 * ((1 - ?u) * (1 - ?u) * (1 - ?u))" by (simp only: mult_ac)
  ultimately show ?thesis using t by (simp only: r_def)
qed

text \<open>
  What a client gains by waiting until its key expires: a millisecond of refill, which the
  conversion to milliseconds drops, and the roundings.
\<close>

lemma NewRedis_gain:
  assumes "NewRedis wild addr (Fin p) burst ttl keyPrefix = Inr l" "f64_div (Fin p) (f64_of_int 60) = Fin rate"
    "0 < p" "p \<le> 9007199254740992" "0 < burst" "burst \<le> 9007199254740992" "of_int burst * 60 \<le> p * 1000000000"
  shows "expiry_gain l rate \<le> rate * (1000001 / 1000000000) + of_int burst / 2251799813685248"
proof -
  let ?u = ulp_rel
  define T where "T = rl_stateTTL l div 1000000"
  have u: "0 \<le> ?u" "?u \<le> 1" by (simp_all add: ulp_rel_def)
  have K: "(1::rat) \<le> of_int burst" using assms(5) by (metis int_one_le_iff_zero_less of_int_1_le_iff)
  have p: "6 / 100000000 \<le> p" using assms(7) K by simp
  have rate: "p / 60 * (1 - ?u) \<le> rate" "0 \<le> rate"
  proof -
    have "f64_of_int 60 = Fin 60" using f64_of_int_small [of 60] by simp
    then have r: "rate = rnd (p / 60)"
      using assms(2,4) round_f64_moderate [of "p / 60"] assms(3) by simp
    then show "0 \<le> rate" using assms(3) by (simp add: rnd_nonneg)
    show "p / 60 * (1 - ?u) \<le> rate" unfolding r using p by (intro rnd_near) simp
  qed
  have l: "rl_burst l = burst" "minute \<le> rl_stateTTL l" "refill_time wild (Fin p) burst \<le> rl_stateTTL l"
    using assms(1,3,5) by (auto simp: NewRedis_def Let_def refill_time_def split: if_splits)
  have "of_int burst * (1 - 4 * ?u) \<le> rate * (of_int T / 1000) + rate * (1000001 / 1000000000)"
  proof (cases "of_int burst \<le> p")
    case True
    have "minute div 1000000 \<le> T" unfolding T_def using l(2) by (intro zdiv_mono1) auto
    then have "60000 \<le> T" by (simp add: minute_def)
    then have "60 \<le> (of_int T / 1000 :: rat)" by simp
    from mult_left_mono [OF this rate(2)] have "p * (1 - ?u) \<le> rate * (of_int T / 1000)" using rate(1) by simp
    moreover have "of_int burst * (1 - 4 * ?u) \<le> p * (1 - ?u)" 
      using mult_mono [of "of_int burst" p "1 - 4 * ?u" "1 - ?u"] True u assms(3) by (simp add: ulp_rel_def)
    ultimately show ?thesis using rate(2) by (simp add: add_increasing2)
  next
    case False
    define R where "R = of_int burst / p * 60 * 1000000000 * ((1 - ?u) * (1 - ?u) * (1 - ?u))"
    have "R - 1 \<le> of_int (refill_time wild (Fin p) burst)"
      unfolding R_def using False assms by (intro refill_time_lower) auto
    also have "\<dots> \<le> of_int (rl_stateTTL l)" using l(3) by simp
    also have "\<dots> \<le> of_int (1000000 * T + 999999)" unfolding of_int_le_iff T_def by simp
    finally have "R / 1000000000 \<le> of_int T / 1000 + 1000001 / 1000000000" by simp
    from mult_left_mono [OF this rate(2)]
    have 1: "rate * (R / 1000000000) \<le> rate * (of_int T / 1000) + rate * (1000001 / 1000000000)"
      by (simp only: distrib_left)
    have "0 \<le> R" unfolding R_def using assms(3,5) u by (intro mult_nonneg_nonneg divide_nonneg_nonneg) auto
    then have "p / 60 * (1 - ?u) * (R / 1000000000) \<le> rate * (R / 1000000000)"
      using rate(1) by (intro mult_right_mono) auto
    moreover have "p / 60 * (1 - ?u) * (R / 1000000000) = of_int burst * ((1 - ?u) * (1 - ?u) * (1 - ?u) * (1 - ?u))"
      using assms(3) by (simp add: R_def)
    moreover have "of_int burst * (1 - 4 * ?u) \<le> of_int burst * ((1 - ?u) * (1 - ?u) * (1 - ?u) * (1 - ?u))"
      using four_losses [OF u] K by (intro mult_left_mono) auto
    ultimately show ?thesis using 1 by linarith
  qed
  moreover have "of_int burst * (1 - 4 * ?u) = of_int burst - of_int burst / 2251799813685248"
    by (simp add: ulp_rel_def)
  ultimately show ?thesis using rate(2) K by (simp add: expiry_gain_def l(1) flip: T_def)
qed

section \<open>Clocks that disagree\<close>

text \<open>
  The script writes the time of every call as the last one, an earlier time too. Two instances whose
  clocks differ by four seconds and that a client asks in turn refill its bucket every time: with the
  defaults (a burst of 10, a token every two seconds) every request is allowed, though no time passes.
\<close>

definition skewed :: "redis_hash option \<Rightarrow> bool" where
  "skewed h \<longleftrightarrow> h = None \<or> h = Some \<lparr>h_tokens = Fin 8, h_last = Fin 0, h_expires = 600000\<rparr>"

lemma skew_scripts:
  "token_script (Fin 4000) (Fin (1 / 2)) (Fin 10) None None = (1, Fin 9)"
  "token_script (Fin 4000) (Fin (1 / 2)) (Fin 10) (Some (Fin 8)) (Some (Fin 0)) = (1, Fin 9)"
  "token_script (Fin 0) (Fin (1 / 2)) (Fin 10) (Some (Fin 9)) (Some (Fin 4000)) = (1, Fin 8)"
  by code_simp+

lemma skew_runs:
  "skewed (rd_keys s k) \<Longrightarrow> redis_run redis_default (4 * second) k s = (1, s\<lparr>rd_keys := (rd_keys s)(k \<mapsto>
     \<lparr>h_tokens = Fin 9, h_last = Fin 4000, h_expires = 604000\<rparr>)\<rparr>)"
  "rd_keys s k = Some \<lparr>h_tokens = Fin 9, h_last = Fin 4000, h_expires = 604000\<rparr> \<Longrightarrow>
   redis_run redis_default 0 k s = (1, s\<lparr>rd_keys := (rd_keys s)(k \<mapsto>
     \<lparr>h_tokens = Fin 8, h_last = Fin 0, h_expires = 600000\<rparr>)\<rparr>)"
proof -
  have ms: "unix_milli (4 * second) = 4000" "unix_milli 0 = 0" "10 * minute div 1000000 = 600000"
    by (simp_all add: unix_milli_def second_def minute_def)
  have f: "f64_of_int 10 = Fin 10" "f64_of_int 4000 = Fin 4000" "f64_of_int 0 = Fin 0"
    using f64_of_int_small [of 10] f64_of_int_small [of 4000] f64_of_int_small [of 0] by simp_all
  show "skewed (rd_keys s k) \<Longrightarrow> redis_run redis_default (4 * second) k s = (1, s\<lparr>rd_keys := (rd_keys s)(k \<mapsto>
     \<lparr>h_tokens = Fin 9, h_last = Fin 4000, h_expires = 604000\<rparr>)\<rparr>)"
    using skew_scripts(1,2) unfolding skewed_def
    by (elim disjE) (simp_all add: redis_run_def redis_default_def redis_get_def ms f Let_def)
  show "rd_keys s k = Some \<lparr>h_tokens = Fin 9, h_last = Fin 4000, h_expires = 604000\<rparr> \<Longrightarrow>
   redis_run redis_default 0 k s = (1, s\<lparr>rd_keys := (rd_keys s)(k \<mapsto>
     \<lparr>h_tokens = Fin 8, h_last = Fin 0, h_expires = 600000\<rparr>)\<rparr>)"
    using skew_scripts(3) by (simp add: redis_run_def redis_default_def redis_get_def ms f Let_def)
qed

lemma Allow_run:
  "rd_faults s = [] \<Longrightarrow> redis_Allow l now key s =
     (case redis_run l now (rl_keyPrefix l @ '':'' @ limit_key key) s of (n, s') \<Rightarrow> (Inr (n = 1), s'))"
  by (simp add: redis_Allow_def redis_fault_def)

lemma skewed_pair:
  assumes "rd_faults s = []" "skewed (rd_keys s (rd.full_key key))"
    "redis_Allow redis_default (4 * second) key s = (r1, s1)" "redis_Allow redis_default 0 key s1 = (r2, s2)"
  shows "r1 = Inr True \<and> r2 = Inr True \<and> rd_faults s2 = [] \<and> skewed (rd_keys s2 (rd.full_key key))"
proof -
  note s1 = assms(3) [unfolded Allow_run [OF assms(1)] rd.full_key_def [symmetric] skew_runs(1) [OF assms(2)]]
  have f: "rd_faults s1 = []" "rd_keys s1 (rd.full_key key) = Some \<lparr>h_tokens = Fin 9, h_last = Fin 4000, h_expires = 604000\<rparr>"
    using s1 assms(1) by auto
  note s2 = assms(4) [unfolded Allow_run [OF f(1)] rd.full_key_def [symmetric] skew_runs(2) [OF f(2)]]
  from s1 s2 f(1) show ?thesis by (auto simp: skewed_def)
qed

lemma skewed_allowed:
  "rd_faults s = [] \<Longrightarrow> skewed (rd_keys s (rd.full_key key)) \<Longrightarrow>
   allowed_in (redis_ops redis_default) key (concat (replicate n [(4 * second, key), (0, key)])) s = 2 * n"
proof (induction n arbitrary: s)
  case (Suc n)
  obtain r1 s1 where 1: "redis_Allow redis_default (4 * second) key s = (r1, s1)" by fastforce
  obtain r2 s2 where 2: "redis_Allow redis_default 0 key s1 = (r2, s2)" by fastforce
  from skewed_pair [OF Suc.prems 1 2] Suc.IH [of s2] 1 2 show ?case by simp
qed simp

lemma redis_skew:
  assumes "rd_keys s = Map.empty" "rd_faults s = []"
  shows "allowed_in (redis_ops redis_default) key (concat (replicate n [(4 * second, key), (0, key)])) s = 2 * n"
  by (rule skewed_allowed [OF assms(2)]) (simp add: skewed_def assms(1))

end
