(* ===== verification/GoParse.thy ===== *)
theory GoParse
  imports GoFloat GoTime
begin

text \<open>
  \<open>strconv.ParseFloat\<close> and \<open>time.ParseDuration\<close> of the Go standard library, as the
  configuration uses them: \<open>None\<close> is an error.
\<close>

section \<open>Floating-point numbers\<close>

fun common_prefix :: "string \<Rightarrow> string \<Rightarrow> nat" where
  "common_prefix (a # s) (b # t) = (if a = b then Suc (common_prefix s t) else 0)"
| "common_prefix _ _ = 0"

definition cut_sign :: "string \<Rightarrow> bool \<times> string" where
  "cut_sign s = (case s of c # t \<Rightarrow> if c = CHR ''-'' then (True, t) else if c = CHR ''+'' then (False, t) else (False, s)
     | [] \<Rightarrow> (False, s))"

text \<open>The spellings of infinity (with a sign) and of not-a-number (without).\<close>

definition parse_special :: "string \<Rightarrow> f64 option" where
  "parse_special s =
     (if to_lower s = ''nan'' then Some NaN
      else case cut_sign (to_lower s) of (neg, t) \<Rightarrow>
        if t = ''inf'' \<or> t = ''infinity'' then Some (if neg then NegInf else PosInf) else None)"

definition hex_letter :: "char \<Rightarrow> bool" where
  "hex_letter c \<longleftrightarrow> lower_char c \<in> set ''abcdef''"

text \<open>
  \<open>underscoreOK\<close>: underscores only between digits, where a base prefix counts as a digit. The
  last byte seen is \<open>0\<close> for a digit, \<open>_\<close> for an underscore, \<open>!\<close> for another byte, \<open>^\<close> at the
  start.
\<close>

fun underscore_scan :: "bool \<Rightarrow> char \<Rightarrow> string \<Rightarrow> bool" where
  "underscore_scan hex i [] = (i \<noteq> CHR ''_'')"
| "underscore_scan hex i (c # s) =
     (if is_digit c \<or> hex \<and> hex_letter c
        then underscore_scan hex (CHR ''0'') s
      else if c = CHR ''_'' then i = CHR ''0'' \<and> underscore_scan hex (CHR ''_'') s
      else i \<noteq> CHR ''_'' \<and> underscore_scan hex (CHR ''!'') s)"

definition underscore_ok :: "string \<Rightarrow> bool" where
  "underscore_ok s =
     (let t = snd (cut_sign s) in
      case t of
        a # b # u \<Rightarrow>
          if a = CHR ''0'' \<and> lower_char b \<in> set ''box''
          then underscore_scan (lower_char b = CHR ''x'') (CHR ''0'') u
          else underscore_scan False (CHR ''^'') t
      | _ \<Rightarrow> underscore_scan False (CHR ''^'') t)"

text \<open>
  The mantissa: digits of the base, at most one point, underscores. The result is the digits as
  a number, how many follow the point, whether there were digits, and the rest.
\<close>

fun scan_mantissa :: "int \<Rightarrow> bool \<Rightarrow> int \<Rightarrow> int \<Rightarrow> bool \<Rightarrow> string \<Rightarrow> int \<times> int \<times> bool \<times> string" where
  "scan_mantissa base dot m k seen [] = (m, k, seen, [])"
| "scan_mantissa base dot m k seen (c # s) =
     (if c = CHR ''_'' then scan_mantissa base dot m k seen s
      else if c = CHR ''.'' then (if dot then (m, k, seen, c # s) else scan_mantissa base True m k seen s)
      else if is_digit c
        then scan_mantissa base dot (m * base + digit_val c) (if dot then k + 1 else k) True s
      else if base = 16 \<and> hex_letter c
        then scan_mantissa base dot (m * base + int (of_char (lower_char c)) - 87)
          (if dot then k + 1 else k) True s
      else (m, k, seen, c # s))"

text \<open>The digits of an exponent; it stops growing at 10000.\<close>

fun scan_exponent :: "int \<Rightarrow> string \<Rightarrow> int \<times> string" where
  "scan_exponent e [] = (e, [])"
| "scan_exponent e (c # s) =
     (if c = CHR ''_'' then scan_exponent e s
      else if is_digit c then scan_exponent (if e < 10000 then e * 10 + digit_val c else e) s
      else (e, c # s))"

definition parse_exponent :: "string \<Rightarrow> (int \<times> string) option" where
  "parse_exponent s =
     (case cut_sign s of (neg, t) \<Rightarrow>
        (case t of
           [] \<Rightarrow> None
         | c # _ \<Rightarrow> if is_digit c
             then (case scan_exponent 0 t of (e, r) \<Rightarrow> Some (if neg then - e else e, r))
             else None))"

definition pow_rat :: "rat \<Rightarrow> int \<Rightarrow> rat" where
  "pow_rat b e = (if 0 \<le> e then b ^ nat e else 1 / b ^ nat (- e))"

text \<open>A value that overflows is a range error.\<close>

definition in_range :: "f64 \<Rightarrow> f64 option" where
  "in_range f = (case f of Fin x \<Rightarrow> Some (Fin x) | _ \<Rightarrow> None)"

definition parse_number :: "string \<Rightarrow> f64 option" where
  "parse_number s =
     (case cut_sign s of (neg, t) \<Rightarrow>
        (let hex = has_prefix (to_lower t) ''0x'' \<and> 2 < length t;
             base = (if hex then 16 else 10);
             (m, k, seen, r) = scan_mantissa base False 0 0 False (if hex then drop 2 t else t);
             expo = (case r of
                 [] \<Rightarrow> if hex then None else Some (0, [])
               | c # u \<Rightarrow>
                   if lower_char c = (if hex then CHR ''p'' else CHR ''e'') then parse_exponent u
                   else None)
         in
           if \<not> seen then None
           else case expo of
             None \<Rightarrow> None
           | Some (e, rest) \<Rightarrow>
               if rest \<noteq> [] \<or> (CHR ''_'' \<in> set s \<and> \<not> underscore_ok s) then None
               else
                 (let x = of_int m * (if hex then pow_rat 2 (e - 4 * k) else pow_rat 10 (e - k)) in
                  in_range (round_f64 (if neg then - x else x)))))"

definition parse_float :: "string \<Rightarrow> f64 option" where
  "parse_float s = (case parse_special s of Some f \<Rightarrow> Some f | None \<Rightarrow> parse_number s)"

section \<open>Durations\<close>

definition unit_map :: "string \<Rightarrow> int option" where
  "unit_map u =
     (if u = ''ns'' then Some 1
      else if u = ''us'' \<or> u = [CHR 0xC2, CHR 0xB5, CHR ''s''] \<or> u = [CHR 0xCE, CHR 0xBC, CHR ''s''] then Some 1000
      else if u = ''ms'' then Some 1000000
      else if u = ''s'' then Some 1000000000
      else if u = ''m'' then Some 60000000000
      else if u = ''h'' then Some 3600000000000
      else None)"

fun leading_int :: "int \<Rightarrow> string \<Rightarrow> (int \<times> string) option" where
  "leading_int x [] = Some (x, [])"
| "leading_int x (c # s) =
     (if \<not> is_digit c then Some (x, c # s)
      else if 922337203685477580 < x then None
      else
        (let y = x * 10 + digit_val c in
         if 9223372036854775808 < y then None else leading_int y s))"

text \<open>The digits after the point: those beyond what an integer holds are dropped.\<close>

fun leading_fraction :: "bool \<Rightarrow> int \<Rightarrow> int \<Rightarrow> string \<Rightarrow> int \<times> int \<times> string" where
  "leading_fraction over x scale [] = (x, scale, [])"
| "leading_fraction over x scale (c # s) =
     (if \<not> is_digit c then (x, scale, c # s)
      else if over then leading_fraction True x scale s
      else if 922337203685477580 < x then leading_fraction True x scale s
      else
        (let y = x * 10 + digit_val c in
         if 9223372036854775808 < y then leading_fraction True x scale s
         else leading_fraction False y (scale * 10) s))"

definition unit_byte :: "char \<Rightarrow> bool" where
  "unit_byte c \<longleftrightarrow> c \<noteq> CHR ''.'' \<and> \<not> is_digit c"

text \<open>\<open>float64(f) * (float64(unit) / scale)\<close>, as an integer.\<close>

definition fraction_ns :: "int \<Rightarrow> int \<Rightarrow> int \<Rightarrow> int" where
  "fraction_ns f unit scale =
     (case f64_mul (f64_of_int f) (f64_div (f64_of_int unit) (f64_of_int scale)) of Fin x \<Rightarrow> \<lfloor>x\<rfloor> | _ \<Rightarrow> 0)"

text \<open>One number with its unit: its value and the rest.\<close>

definition duration_item :: "string \<Rightarrow> (int \<times> string) option" where
  "duration_item s =
     (if s = [] \<or> \<not> (hd s = CHR ''.'' \<or> is_digit (hd s)) then None
      else
        (case leading_int 0 s of
           None \<Rightarrow> None
         | Some (v, s1) \<Rightarrow>
             (let pre = length s1 \<noteq> length s;
                  (post, f, scale, s2) =
                    (if s1 \<noteq> [] \<and> hd s1 = CHR ''.''
                     then (case leading_fraction False 0 1 (tl s1) of
                             (f, scale, s2) \<Rightarrow> (length s2 \<noteq> length (tl s1), f, scale, s2))
                     else (False, 0, 1, s1));
                  u = takeWhile unit_byte s2;
                  s3 = dropWhile unit_byte s2
              in
                if \<not> pre \<and> \<not> post then None
                else if u = [] then None
                else
                  (case unit_map u of
                     None \<Rightarrow> None
                   | Some unit \<Rightarrow>
                       if 9223372036854775808 div unit < v then None
                       else
                         (let w = v * unit + (if 0 < f then fraction_ns f unit scale else 0) in
                          if 9223372036854775808 < w then None else Some (w, s3))))))"

text \<open>Every item takes at least one byte, so the length of the text bounds their number.\<close>

fun duration_items :: "nat \<Rightarrow> int \<Rightarrow> string \<Rightarrow> int option" where
  "duration_items fuel d [] = Some d"
| "duration_items 0 d s = None"
| "duration_items (Suc k) d s =
     (case duration_item s of
        None \<Rightarrow> None
      | Some (v, s') \<Rightarrow> if 9223372036854775808 < d + v then None else duration_items k (d + v) s')"

definition parse_duration :: "string \<Rightarrow> duration option" where
  "parse_duration s =
     (case cut_sign s of (neg, t) \<Rightarrow>
        if t = ''0'' then Some 0
        else if t = [] then None
        else
          (case duration_items (length t) 0 t of
             None \<Rightarrow> None
           | Some d \<Rightarrow> if neg then Some (- d) else if 9223372036854775807 < d then None else Some d))"

section \<open>Facts\<close>

lemma parse_number_Fin: "parse_number s = Some f \<Longrightarrow> \<exists>x. f = Fin x"
  by (auto simp: parse_number_def in_range_def Let_def split: prod.splits option.splits f64.splits list.splits if_splits)

end
