(* ===== verification/Service_Props.thy ===== *)
theory Service_Props
  imports RedisWindow Config
begin

text \<open>
  The properties of the limiters, at one instant and over time, and of the configuration.
\<close>

section \<open>Limiters\<close>

context bucket
begin

lemma from_new:
  assumes "f64_div perMinute (f64_of_int 60) = limit"
  shows "int (allowed_at (memory_ops bk) now key keys
    (calls_after (memory_ops bk) cs (NewMemory perMinute burst ttl))) \<le> burst"
proof -
  have "mwf (NewMemory perMinute burst ttl)" using assms by (simp add: mwf_def NewMemory_def)
  then have "mwf (calls_after (memory_ops bk) cs (NewMemory perMinute burst ttl))"
    by (rule calls_after_wf) (simp add: list_all_iff)
  then show ?thesis by (rule allowed_le_burst) simp
qed

end

context redis_config
begin

lemma from_empty:
  assumes "rd_keys s = Map.empty" "list_all (\<lambda>c. ms_ok (fst c)) cs" "ms_ok now"
  shows "int (allowed_at (redis_ops l) now key keys (calls_after (redis_ops l) cs s)) \<le> rl_burst l"
proof -
  have "rwf s" using assms(1) by (simp add: rwf_def)
  then have "rwf (calls_after (redis_ops l) cs s)" by (rule calls_after_wf [OF _ assms(2)])
  then show ?thesis by (rule allowed_le_burst [OF _ assms(3)])
qed

end

text \<open>
  The limiter in memory, on any token buckets of the documented behaviour: whatever calls came
  before, at one instant a client gets through at most \<open>burst\<close> times, whoever else asks.
\<close>

theorem memory_burst:
  assumes "bucket bk (f64_div perMinute (f64_of_int 60)) burst ttl bwf left"
  shows "int (allowed_at (memory_ops bk) now key keys
    (calls_after (memory_ops bk) cs (NewMemory perMinute burst ttl))) \<le> burst"
  by (rule bucket.from_new [OF assms refl])

lemma memory_burst_witness:
  "int (allowed_at (memory_ops tb_ops) 0 ''10.0.0.1'' (replicate 50 ''10.0.0.1'') (NewMemory (Fin 30) 10 (10 * minute))) \<le> 10"
proof -
  have "bucket tb_ops (f64_div (Fin 30) (f64_of_int 60)) 10 (10 * minute) (tb_wf 10) (\<lambda>b now. \<lfloor>tb_refilled now b\<rfloor>)"
    by (rule tb_bucket) (simp_all add: minute_def)
  from memory_burst [OF this, of 0 _ _ "[]"] show ?thesis by simp
qed

text \<open>The limiter that \<open>NewRedis\<close> makes, as the laws want it.\<close>

lemma NewRedis_config:
  assumes "NewRedis wild addr perMinute burst ttl keyPrefix = Inr l"
    "f64_div perMinute (f64_of_int 60) = Fin rate" "0 \<le> rate" "0 < burst" "burst \<le> 9007199254740992"
  shows "redis_config l rate \<and> rl_burst l = burst"
proof -
  have l: "rl_burst l = burst" "rl_ratePerSec l = Fin rate" "minute \<le> rl_stateTTL l"
    using assms(1,2) NewRedis_ttl [OF assms(1)] by (auto simp: NewRedis_def Let_def split: if_splits)
  then have "redis_config l rate" using assms(3-5) by unfold_locales auto
  with l(1) show ?thesis by simp
qed

text \<open>
  The limiter in Redis, whose script computes in binary64: the same bound, from an empty
  database, for every sequence of calls and of failing commands, and every burst below 2^53.
\<close>

theorem redis_burst:
  assumes "NewRedis wild addr perMinute burst ttl keyPrefix = Inr l"
    "f64_div perMinute (f64_of_int 60) = Fin rate" "0 \<le> rate" "0 < burst" "burst \<le> 9007199254740992"
    "rd_keys s = Map.empty" "list_all (\<lambda>c. ms_ok (fst c)) cs" "ms_ok now"
  shows "int (allowed_at (redis_ops l) now key keys (calls_after (redis_ops l) cs s)) \<le> burst"
  using redis_config.from_empty [OF conjunct1 assms(6-8)] NewRedis_config [OF assms(1-5)] by metis

lemma redis_burst_witness:
  "int (allowed_at (redis_ops redis_default) 0 ''10.0.0.1'' (replicate 50 ''10.0.0.1'')
     \<lparr>rd_keys = Map.empty, rd_faults = []\<rparr>) \<le> 10"
proof -
  have "f64_div (Fin 30) (f64_of_int 60) = Fin (1 / 2)" by code_simp
  from redis_burst [OF NewRedis_default this, of "\<lparr>rd_keys = Map.empty, rd_faults = []\<rparr>" "[]" 0]
  show ?thesis by (simp add: ms_ok_def unix_milli_def)
qed

text \<open>
  C7. The limiter in memory over time, on buckets that refill at the configured rate and are full
  again by the time their client is forgotten: whatever came before, in any span of time a client gets
  through at most \<open>burst\<close> times and once more for each token that refills in it, whoever else asks and
  however the map of clients is cleaned up.
\<close>

theorem memory_window:
  assumes "refilling bk (f64_div perMinute (f64_of_int 60)) burst ttl bwf left lev rate"
    "sorted (map fst hs @ t0 # map fst cs @ [t1])"
  shows "of_nat (allowed_in (memory_ops bk) key cs (calls_after (memory_ops bk) hs (NewMemory perMinute burst ttl)))
    \<le> of_int burst + rate * seconds (t1 - t0)"
  by (rule refilling.window_from_new [OF assms(1) refl assms(2)])

lemma memory_window_witness:
  "of_nat (allowed_in (memory_ops tb_ops) ''10.0.0.1'' (replicate 100 (second, ''10.0.0.1''))
     (calls_after (memory_ops tb_ops) [(0, ''10.0.0.1'')] (NewMemory (Fin 30) 10 (10 * minute)))) \<le> (11 :: rat)"
proof -
  have "f64_div (Fin 30) (f64_of_int 60) = Fin (1 / 2)" by code_simp
  then have "refilling tb_ops (f64_div (Fin 30) (f64_of_int 60)) 10 (10 * minute) (\<lambda>b. tb_wf 10 b \<and> tb_rate b = 1 / 2)
      (\<lambda>b now. \<lfloor>tb_refilled now b\<rfloor>) (\<lambda>b now. tb_refilled now b) (1 / 2)"
    using tbw.refilling_axioms by simp
  from memory_window [OF this, of "[(0, ''10.0.0.1'')]" 0 "replicate 100 (second, ''10.0.0.1'')" "2 * second" "''10.0.0.1''"]
  show ?thesis by (simp add: seconds_def second_def sorted_append)
qed

text \<open>
  C8. The limiter in Redis over time, from an empty database, for every sequence of calls and of
  failing commands: in any span of time a client gets through at most \<open>burst\<close> times and once more for
  each token that refills in it by the clock of the script, up to the rounding of binary64 (\<open>2^-51\<close> of
  a burst in each call) and what an expired key gains.
\<close>

theorem redis_window:
  assumes "NewRedis wild addr perMinute burst ttl keyPrefix = Inr l"
    "f64_div perMinute (f64_of_int 60) = Fin rate" "0 \<le> rate" "0 < burst" "burst \<le> 9007199254740992"
    "rd_keys s = Map.empty" "list_all (\<lambda>c. ms_ok (fst c)) (hs @ cs)" "ms_ok t0" "ms_ok t1"
    "sorted (map fst hs @ t0 # map fst cs @ [t1])"
  shows "of_nat (allowed_in (redis_ops l) key cs (calls_after (redis_ops l) hs s))
    \<le> of_int burst + rate * (milli_clock t1 - milli_clock t0)
      + (expiry_gain l rate + of_int burst / 2251799813685248) * of_nat (calls_under key cs)"
  using redis_config.window_from_empty [OF conjunct1 assms(6-10)] NewRedis_config [OF assms(1-5)]
  unfolding call_slack_def by metis

lemma redis_window_witness:
  "of_nat (allowed_in (redis_ops redis_default) ''10.0.0.1'' (replicate 100 (second, ''10.0.0.1''))
     (calls_after (redis_ops redis_default) [(0, ''10.0.0.1'')] \<lparr>rd_keys = Map.empty, rd_faults = []\<rparr>)) < (12 :: rat)"
proof -
  define cs where "cs = replicate 100 (second, ''10.0.0.1'')"
  have rate: "f64_div (Fin 30) (f64_of_int 60) = Fin (1 / 2)" by code_simp
  have cs: "list_all (\<lambda>c. ms_ok (fst c)) ([(0, ''10.0.0.1'')] @ cs)" "ms_ok 0" "ms_ok (2 * second)"
    "sorted (map fst [(0, ''10.0.0.1'')] @ 0 # map fst cs @ [2 * second])"
    by (simp_all add: cs_def list_all_iff ms_ok_def unix_milli_def second_def sorted_append)
  have "calls_under ''10.0.0.1'' cs = 100" "expiry_gain redis_default (1 / 2) = 0"
    "milli_clock (2 * second) - milli_clock 0 = 2"
    by (simp_all add: calls_under_def cs_def expiry_gain_def redis_default_def minute_def milli_clock_def
      unix_milli_def second_def)
  with redis_window [OF NewRedis_default rate _ _ _ _ cs, of "\<lparr>rd_keys = Map.empty, rd_faults = []\<rparr>" "''10.0.0.1''"]
  show ?thesis by (simp flip: cs_def)
qed

text \<open>
  C29. No client is kept out for good by the limiter in memory, and none by another: after any calls, a
  client whose own calls are all at least a token's time ago is allowed, however often others have
  called since and whichever entries were cleaned up. On buckets that are metered at the configured rate,
  for every time to live.
\<close>

theorem memory_waiting_served:
  assumes "metered bk (f64_div perMinute (f64_of_int 60)) burst ttl bwf left lev rate" "1 \<le> burst"
    "\<And>t k. (t, k) \<in> set hs \<Longrightarrow> limit_key k = limit_key key \<Longrightarrow> 1 \<le> rate * seconds (now - t)"
  shows "fst (mem_Allow bk now key (calls_after (memory_ops bk) hs (NewMemory perMinute burst ttl))) = Inr True"
  by (rule metered.waits_from_new [OF assms(1) refl assms(2,3)])

lemma memory_waiting_served_witness:
  "fst (mem_Allow tb_ops (2 * second) ''10.0.0.1'' (calls_after (memory_ops tb_ops)
     (replicate 2000 (0, ''10.0.0.1'') @ replicate 2000 (2 * second, ''10.0.0.2'')) (NewMemory (Fin 30) 1000 minute))) = Inr True"
proof -
  have "f64_div (Fin 30) (f64_of_int 60) = Fin (1 / 2)" by code_simp
  then have m: "metered tb_ops (f64_div (Fin 30) (f64_of_int 60)) 1000 minute (\<lambda>b. tb_wf 1000 b \<and> tb_rate b = 1 / 2)
      (\<lambda>b now. \<lfloor>tb_refilled now b\<rfloor>) (\<lambda>b now. tb_refilled now b) (1 / 2)"
    using tbm.metered_axioms by simp
  have "limit_key ''10.0.0.2'' \<noteq> limit_key ''10.0.0.1''" by code_simp
  then show ?thesis by (intro memory_waiting_served [OF m]) (auto simp: seconds_def second_def)
qed

text \<open>
  C39. No client is kept out for good by the limiter in Redis, from an empty database and when the
  command works: once a token's time has passed since the last call of anyone by the clock of the script,
  and \<open>2^-53\<close> of it for the rounding, the next call of a client is allowed, its key expired or not.
\<close>

theorem redis_waiting_served:
  assumes "NewRedis wild addr perMinute burst ttl keyPrefix = Inr l"
    "f64_div perMinute (f64_of_int 60) = Fin rate" "0 \<le> rate" "0 < burst" "burst \<le> 9007199254740992"
    "rd_keys s = Map.empty" "list_all (\<lambda>c. ms_ok (fst c)) hs" "sorted (map fst hs @ [t0])" "ms_ok now" "t0 \<le> now"
    "1 \<le> rate * (milli_clock now - milli_clock t0) * (1 - 1 / 9007199254740992)"
    "rd_faults (calls_after (redis_ops l) hs s) = []"
  shows "fst (redis_Allow l now key (calls_after (redis_ops l) hs s)) = Inr True"
proof -
  have c: "redis_config l rate" "1 \<le> rl_burst l" using NewRedis_config [OF assms(1-5)] assms(4) by auto
  show ?thesis
    by (rule redis_config.waits_from_empty [OF c(1) assms(6-10) c(2) _ assms(12)]) (use assms(11) in \<open>simp add: ulp_rel_def\<close>)
qed

lemma redis_waiting_served_witness:
  "fst (redis_Allow redis_default (2 * second + 1000000) ''10.0.0.1''
     (calls_after (redis_ops redis_default) (replicate 100 (0, ''10.0.0.1'')) \<lparr>rd_keys = Map.empty, rd_faults = []\<rparr>)) = Inr True"
proof -
  have rate: "f64_div (Fin 30) (f64_of_int 60) = Fin (1 / 2)" by code_simp
  have "list_all (\<lambda>c. ms_ok (fst c)) (replicate 100 (0, ''10.0.0.1''))" "sorted (map fst (replicate 100 (0, ''10.0.0.1'')) @ [0])"
    "ms_ok (2 * second + 1000000)" "milli_clock (2 * second + 1000000) - milli_clock 0 = 2001 / 1000"
    by (simp_all add: list_all_iff ms_ok_def unix_milli_def second_def milli_clock_def sorted_append)
  then show ?thesis
    by (intro redis_waiting_served [OF NewRedis_default rate, of _ "replicate 100 (0, ''10.0.0.1'')" 0])
      (simp_all add: rd.no_faults second_def)
qed

text \<open>
  C31. The state of a client in Redis lives at least a minute and the given time, and until its
  bucket is full: by waiting for its key to expire a client gains no more than a millisecond of refill
  and the rounding. For a rate and a burst of at most \<open>2^53\<close>, and a bucket that fills within \<open>10^9\<close> seconds
  (31 years): the code computes that time as a \<open>Duration\<close>, which ends at 292 years.
\<close>

theorem redis_ttl:
  assumes "NewRedis wild addr (Fin p) burst ttl keyPrefix = Inr l" "f64_div (Fin p) (f64_of_int 60) = Fin rate"
    "0 < p" "p \<le> 9007199254740992" "0 < burst" "burst \<le> 9007199254740992" "of_int burst * 60 \<le> p * 1000000000"
  shows "minute \<le> rl_stateTTL l \<and> ttl \<le> rl_stateTTL l
    \<and> expiry_gain l rate \<le> rate * (1000001 / 1000000000) + of_int burst / 2251799813685248"
  using NewRedis_ttl [OF assms(1)] NewRedis_gain [OF assms] by simp

text \<open>A thousand requests at once and then one a minute: an empty bucket takes about 16 hours.\<close>

definition redis_slow :: redis_limiter where
  "redis_slow = \<lparr>rl_ratePerSec = Fin (1 / 64), rl_burst = 1000, rl_stateTTL = 64000 * second,
     rl_keyPrefix = ''i8sl:rate_limit''\<rparr>"

lemma redis_ttl_witness: "expiry_gain redis_slow (1 / 64) \<le> 1 / 50000"
proof -
  have n: "NewRedis (\<lambda>_. 0) ''localhost:6379'' (Fin (15 / 16)) 1000 (10 * minute) ''i8sl:rate_limit'' = Inr redis_slow"
    by code_simp
  have "f64_div (Fin (15 / 16)) (f64_of_int 60) = Fin (1 / 64)" by code_simp
  from redis_ttl [OF n this] show ?thesis by simp
qed

text \<open>
  Beyond, the conversion to a \<open>Duration\<close> overflows; where it gives the least integer, as on amd64, the
  state is kept for ten minutes only, and with it a client that waits for that has its whole burst again.
\<close>

lemma redis_ttl_overflows:
  "\<exists>l. NewRedis (\<lambda>_. -9223372036854775808) ''localhost:6379'' (Fin (1 / 134217728)) 10 (10 * minute) ''i8sl:rate_limit'' = Inr l
     \<and> rl_stateTTL l = 10 * minute \<and> 9 \<le> expiry_gain l (1 / 8053063680)"
proof -
  let ?l = "\<lparr>rl_ratePerSec = f64_div (Fin (1 / 134217728)) (f64_of_int 60), rl_burst = 10, rl_stateTTL = 10 * minute,
     rl_keyPrefix = ''i8sl:rate_limit''\<rparr>"
  have "NewRedis (\<lambda>_. -9223372036854775808) ''localhost:6379'' (Fin (1 / 134217728)) 10 (10 * minute) ''i8sl:rate_limit'' = Inr ?l"
    by code_simp
  moreover have "9 \<le> expiry_gain ?l (1 / 8053063680)" by code_simp
  ultimately show ?thesis by (intro exI [of _ ?l]) simp
qed

text \<open>
  A client that Redis does not know yet gets its first request through when the command works.
\<close>

theorem redis_first_allowed:
  assumes "NewRedis wild addr perMinute burst ttl keyPrefix = Inr l" "0 < burst" "burst \<le> 9007199254740992"
    "rd_keys s (rl_keyPrefix l @ '':'' @ limit_key key) = None" "rd_faults s = []"
  shows "fst (redis_Allow l now key s) = Inr True"
proof -
  have "rl_burst l = burst" using assms(1) by (auto simp: NewRedis_def Let_def split: if_splits)
  moreover have "f64_le (Fin 1) (f64_of_int burst)"
  proof -
    have "(1 :: rat) \<le> of_int burst" using assms(2) by (metis int_one_le_iff_zero_less of_int_1_le_iff)
    then show ?thesis using assms(2,3) by (auto simp: f64_le_def)
  qed
  ultimately show ?thesis
    using assms(4,5) by (simp add: redis_Allow_def Let_def redis_fault_def redis_run_def redis_get_def
        token_script_def script_tokens_def split: prod.split)
qed

lemma redis_first_allowed_witness:
  "fst (redis_Allow redis_default 0 ''10.0.0.1'' \<lparr>rd_keys = Map.empty, rd_faults = []\<rparr>) = Inr True"
  by (rule redis_first_allowed [OF NewRedis_default]) simp_all

section \<open>The configuration\<close>

text \<open>
  C32. A configuration that loads is within the bounds the code asks for: code length 4 to 16, a
  positive burst, a rate that is positive or not a number, a known driver and backend, an absolute
  base URL, no negative database index or interval, a metrics path that starts with a slash and a
  sample ratio between 0 and 1 or not a number.
\<close>

theorem config_bounds:
  assumes "Load env = Inr c"
  shows "config_ok c"
  by (rule Load_ok [OF assms])

lemma config_bounds_witness: "config_ok default_config"
  by (rule config_bounds [OF Load_empty])

text \<open>With nothing set, every variable has the fallback that the code names for it.\<close>

theorem config_defaults: "Load (\<lambda>_. []) = Inr default_config"
  by (rule Load_empty)

text \<open>
  The checks are comparisons, which a number that is none passes: a rate and a sample ratio
  of \<open>NaN\<close> are accepted.
\<close>

definition nan_environment :: environment where
  "nan_environment k = (if k = ''I8SL_GENERATION_RATE_PER_MINUTE'' \<or> k = ''I8SL_TRACE_SAMPLE_RATIO'' then ''NaN'' else [])"

theorem config_nan_accepted:
  "Load nan_environment = Inr (default_config\<lparr>c_GenerationRatePerMinute := NaN, c_TraceSampleRatio := NaN\<rparr>)"
  by code_simp

end
