(* ===== verification/Metrics.thy ===== *)
theory Metrics
  imports GoTime GoStrings
begin

text \<open>
  \<open>internal/observability/metrics\<close>: the counters of the service, each a map from label values
  to its count (a label that was never used counts zero), and the durations a histogram has
  seen, with the names, help texts and labels they are registered under. The buckets of the
  histogram are the library's, and so are its Go and process collectors and the text format of
  \<open>/metrics\<close>.
\<close>

text \<open>What the registry knows of a metric: its full name, its help, its kind and its labels.\<close>

datatype metric_kind = CounterKind | HistogramKind

record family =
  f_Name :: string
  f_Help :: string
  f_Kind :: metric_kind
  f_Labels :: "string list"

text \<open>\<open>prometheus.BuildFQName\<close> of a namespace and a name.\<close>

definition full_name :: "string \<Rightarrow> string \<Rightarrow> string" where
  "full_name namespace name = namespace @ ''_'' @ name"

definition metric_families :: "family list" where
  "metric_families =
     [\<lparr>f_Name = full_name ''i8sl'' ''http_requests_total'', f_Help = ''Total number of processed HTTP requests.'',
       f_Kind = CounterKind, f_Labels = [''route'', ''method'', ''status'']\<rparr>,
      \<lparr>f_Name = full_name ''i8sl'' ''http_request_duration_seconds'', f_Help = ''HTTP request duration in seconds.'',
       f_Kind = HistogramKind, f_Labels = [''route'', ''method'']\<rparr>,
      \<lparr>f_Name = full_name ''i8sl'' ''rate_limited_total'', f_Help = ''Total number of rate-limited requests.'',
       f_Kind = CounterKind, f_Labels = [''route'']\<rparr>,
      \<lparr>f_Name = full_name ''i8sl'' ''redirect_results_total'',
       f_Help = ''Total number of redirect resolution attempts by result.'',
       f_Kind = CounterKind, f_Labels = [''result'']\<rparr>,
      \<lparr>f_Name = full_name ''i8sl'' ''admin_auth_failures_total'',
       f_Help = ''Total number of failed admin authentication attempts.'',
       f_Kind = CounterKind, f_Labels = []\<rparr>]"

text \<open>
  \<open>MustRegister\<close> panics on a name that is taken or not valid, and on labels that are not; the
  collectors of the library register names that start with \<open>go_\<close> and \<open>process_\<close>.
\<close>

definition name_byte :: "char \<Rightarrow> bool" where
  "name_byte c \<longleftrightarrow> is_alnum c \<or> c = CHR ''_'' \<or> c = CHR '':''"

definition name_valid :: "string \<Rightarrow> bool" where
  "name_valid s \<longleftrightarrow> s \<noteq> [] \<and> list_all name_byte s \<and> \<not> is_digit (hd s)"

definition label_valid :: "string \<Rightarrow> bool" where
  "label_valid s \<longleftrightarrow> name_valid s \<and> CHR '':'' \<notin> set s \<and> take 2 s \<noteq> ''__''"

definition registrable :: "family list \<Rightarrow> bool" where
  "registrable fs \<longleftrightarrow> distinct (map f_Name fs)
     \<and> list_all (\<lambda>f. name_valid (f_Name f) \<and> list_all label_valid (f_Labels f) \<and> distinct (f_Labels f)
         \<and> take 3 (f_Name f) \<noteq> ''go_'' \<and> take 8 (f_Name f) \<noteq> ''process_'') fs"

record metrics =
  m_registry :: "family list"
  m_httpRequestsTotal :: "string \<times> string \<times> string \<Rightarrow> int"
  m_httpDurationSeconds :: "string \<times> string \<Rightarrow> duration list"
  m_rateLimitedTotal :: "string \<Rightarrow> int"
  m_redirectsTotal :: "string \<Rightarrow> int"
  m_adminAuthFailures :: int

definition metrics_New :: metrics where
  "metrics_New = \<lparr>m_registry = metric_families, m_httpRequestsTotal = (\<lambda>_. 0), m_httpDurationSeconds = (\<lambda>_. []),
     m_rateLimitedTotal = (\<lambda>_. 0), m_redirectsTotal = (\<lambda>_. 0), m_adminAuthFailures = 0\<rparr>"

text \<open>Registering does not panic.\<close>

lemma metric_families_registrable: "registrable metric_families"
  by code_simp

definition count_up :: "'k \<Rightarrow> ('k \<Rightarrow> int) \<Rightarrow> 'k \<Rightarrow> int" where
  "count_up k f = f(k := f k + 1)"

definition ObserveHTTPRequest :: "string \<Rightarrow> string \<Rightarrow> int \<Rightarrow> duration \<Rightarrow> metrics \<Rightarrow> metrics" where
  "ObserveHTTPRequest route method status d m =
     m\<lparr>m_httpRequestsTotal := count_up (route, method, show_int status) (m_httpRequestsTotal m),
       m_httpDurationSeconds :=
         (m_httpDurationSeconds m)((route, method) := m_httpDurationSeconds m (route, method) @ [d])\<rparr>"

definition IncRateLimited :: "string \<Rightarrow> metrics \<Rightarrow> metrics" where
  "IncRateLimited route m = m\<lparr>m_rateLimitedTotal := count_up route (m_rateLimitedTotal m)\<rparr>"

definition IncRedirect :: "string \<Rightarrow> metrics \<Rightarrow> metrics" where
  "IncRedirect result m = m\<lparr>m_redirectsTotal := count_up result (m_redirectsTotal m)\<rparr>"

definition IncAdminAuthFailure :: "metrics \<Rightarrow> metrics" where
  "IncAdminAuthFailure m = m\<lparr>m_adminAuthFailures := m_adminAuthFailures m + 1\<rparr>"

text \<open>\<open>internal/observability/buildinfo\<close>: the values of an ordinary build.\<close>

record build_info =
  bi_Version :: string
  bi_Commit :: string
  bi_BuildTime :: string

definition buildinfo_Current :: build_info where
  "buildinfo_Current = \<lparr>bi_Version = ''dev'', bi_Commit = ''none'', bi_BuildTime = ''unknown''\<rparr>"

lemma count_up_simps [simp]: "count_up k f k = f k + 1" "k' \<noteq> k \<Longrightarrow> count_up k f k' = f k'"
  by (simp_all add: count_up_def)

end
