(* ===== verification/GoUtf8.thy ===== *)
theory GoUtf8
  imports GoStrings
begin

text \<open>
  Package \<open>unicode/utf8\<close> of Go: the decoding of the first rune of a byte string, where a byte
  that starts no rune counts as U+FFFD of width one, and the encoding of a rune, where a number
  that is no rune is written as U+FFFD. Decoding reads back what encoding writes.
\<close>

abbreviation byte_of :: "char \<Rightarrow> nat" where
  "byte_of c \<equiv> of_char c"

definition rune_error :: nat where
  "rune_error = 0xFFFD"

definition in_range :: "nat \<Rightarrow> nat \<Rightarrow> char \<Rightarrow> bool" where
  "in_range lo hi c \<longleftrightarrow> lo \<le> byte_of c \<and> byte_of c \<le> hi"

definition rune_ok :: "nat \<Rightarrow> bool" where
  "rune_ok r \<longleftrightarrow> r < 0xD800 \<or> 0xE000 \<le> r \<and> r \<le> 0x10FFFF"

text \<open>\<open>utf8.DecodeRune\<close>: the rune and its width, zero for no bytes.\<close>

definition decode_rune :: "string \<Rightarrow> nat \<times> nat" where
  "decode_rune s =
     (case s of [] \<Rightarrow> (rune_error, 0)
      | a # s1 \<Rightarrow>
          (let n = byte_of a in
           if n < 0x80 then (n, 1)
           else if 0xC2 \<le> n \<and> n \<le> 0xDF then
             (case s1 of b # _ \<Rightarrow>
                if in_range 0x80 0xBF b then ((n - 0xC0) * 64 + (byte_of b - 0x80), 2) else (rune_error, 1)
              | [] \<Rightarrow> (rune_error, 1))
           else if 0xE0 \<le> n \<and> n \<le> 0xEF then
             (case s1 of b # c # _ \<Rightarrow>
                if in_range (if n = 0xE0 then 0xA0 else 0x80) (if n = 0xED then 0x9F else 0xBF) b \<and> in_range 0x80 0xBF c
                then ((n - 0xE0) * 4096 + (byte_of b - 0x80) * 64 + (byte_of c - 0x80), 3) else (rune_error, 1)
              | _ \<Rightarrow> (rune_error, 1))
           else if 0xF0 \<le> n \<and> n \<le> 0xF4 then
             (case s1 of b # c # d # _ \<Rightarrow>
                if in_range (if n = 0xF0 then 0x90 else 0x80) (if n = 0xF4 then 0x8F else 0xBF) b
                  \<and> in_range 0x80 0xBF c \<and> in_range 0x80 0xBF d
                then ((n - 0xF0) * 262144 + (byte_of b - 0x80) * 4096 + (byte_of c - 0x80) * 64 + (byte_of d - 0x80), 4)
                else (rune_error, 1)
              | _ \<Rightarrow> (rune_error, 1))
           else (rune_error, 1)))"

text \<open>\<open>utf8.AppendRune\<close>.\<close>

definition encode_rune :: "nat \<Rightarrow> string" where
  "encode_rune r =
     (let q = (if rune_ok r then r else rune_error) in
      if q < 0x80 then [char_of q]
      else if q < 0x800 then [char_of (0xC0 + q div 64), char_of (0x80 + q mod 64)]
      else if q < 0x10000 then
        [char_of (0xE0 + q div 4096), char_of (0x80 + q div 64 mod 64), char_of (0x80 + q mod 64)]
      else [char_of (0xF0 + q div 262144), char_of (0x80 + q div 4096 mod 64), char_of (0x80 + q div 64 mod 64),
        char_of (0x80 + q mod 64)])"

text \<open>The bytes of a sequence of runes; text in UTF-8 is the bytes of one.\<close>

definition utf8 :: "nat list \<Rightarrow> string" where
  "utf8 rs = concat (map encode_rune rs)"

lemma utf8_simps [simp]: "utf8 [] = []" "utf8 (r # rs) = encode_rune r @ utf8 rs" "utf8 (rs @ ts) = utf8 rs @ utf8 ts"
  by (simp_all add: utf8_def)

section \<open>Widths\<close>

lemma decode_rune_width:
  "s \<noteq> [] \<Longrightarrow> 0 < snd (decode_rune s)" "snd (decode_rune s) \<le> length s"
  by (auto simp: decode_rune_def Let_def split: list.split)

lemma decode_rune_ascii: "byte_of a < 128 \<Longrightarrow> decode_rune (a # s) = (byte_of a, 1)"
  by (simp add: decode_rune_def)

section \<open>Reading back\<close>

text \<open>The runes of two, three and four bytes, by the six-bit digits of their numbers.\<close>

lemma digits_64: "b < 64 \<Longrightarrow> (a * 64 + b) div 64 = a" "b < 64 \<Longrightarrow> (a * 64 + b) mod 64 = (b :: nat)"
  by simp_all

lemma div_4096: "q div 4096 = q div 64 div (64 :: nat)" "q div 262144 = q div 64 div 64 div (64 :: nat)"
  by (simp_all add: div_mult2_eq [symmetric])

lemma digit_64:
  obtains a b where "q = a * 64 + b" "b < (64 :: nat)"
  by (rule that [of "q div 64" "q mod 64"]) simp_all

lemma encode2: "2 \<le> a \<Longrightarrow> a < 32 \<Longrightarrow> b < 64 \<Longrightarrow>
    encode_rune (a * 64 + b) = [char_of (192 + a), char_of (128 + b)]"
  by (simp add: encode_rune_def rune_ok_def)

lemma encode3:
  assumes "rune_ok ((a * 64 + b) * 64 + c)" "32 \<le> a * 64 + b" "a < 16" "b < 64" "c < 64"
  shows "encode_rune ((a * 64 + b) * 64 + c) = [char_of (224 + a), char_of (128 + b), char_of (128 + c)]"
proof -
  let ?q = "(a * 64 + b) * 64 + c"
  have "?q < 65536" "\<not> ?q < 2048" "\<not> ?q < 128" using assms(2-5) by simp_all
  then show ?thesis using assms(1) unfolding encode_rune_def Let_def div_4096
    by (simp only: digits_64 [OF assms(5)] digits_64 [OF assms(4)] if_True if_False)
qed

lemma encode4:
  assumes "rune_ok (((a * 64 + b) * 64 + c) * 64 + d)" "16 \<le> a * 64 + b" "b < 64" "c < 64" "d < 64"
  shows "encode_rune (((a * 64 + b) * 64 + c) * 64 + d)
      = [char_of (240 + a), char_of (128 + b), char_of (128 + c), char_of (128 + d)]"
proof -
  let ?q = "((a * 64 + b) * 64 + c) * 64 + d"
  have "\<not> ?q < 65536" "\<not> ?q < 2048" "\<not> ?q < 128" using assms(2) by simp_all
  then show ?thesis using assms(1) unfolding encode_rune_def Let_def div_4096
    by (simp only: digits_64 [OF assms(5)] digits_64 [OF assms(4)] digits_64 [OF assms(3)] if_True if_False)
qed

lemma rune_cases:
  assumes "rune_ok r"
  obtains (ascii) "r < 128"
  | (two) a b where "r = a * 64 + b" "2 \<le> a" "a < 32" "b < 64"
  | (three) a b c where "r = (a * 64 + b) * 64 + c" "32 \<le> a * 64 + b" "a < 16" "b < 64" "c < 64" "a = 13 \<Longrightarrow> b < 32"
  | (four) a b c d where "r = ((a * 64 + b) * 64 + c) * 64 + d" "16 \<le> a * 64 + b" "a < 5" "b < 64" "c < 64" "d < 64"
      "a = 4 \<Longrightarrow> b < 16"
proof -
  consider "r < 128" | "128 \<le> r" "r < 2048" | "2048 \<le> r" "r < 65536" | "65536 \<le> r" by linarith
  then show thesis
  proof cases
    case 2
    obtain a b where q: "r = a * 64 + b" "b < 64" by (rule digit_64)
    show ?thesis by (rule two [OF q(1) _ _ q(2)]) (use 2 q in linarith)+
  next
    case 3
    obtain x c where q: "r = x * 64 + c" "c < 64" by (rule digit_64)
    obtain a b where x: "x = a * 64 + b" "b < 64" by (rule digit_64)
    have "a = 13 \<Longrightarrow> b < 32" using assms 3 q x unfolding rune_ok_def by linarith
    then show ?thesis by (intro three [OF q(1) [unfolded x(1)] _ _ x(2) q(2)]) (use 3 q x in linarith)+
  next
    case 4
    obtain y d where q: "r = y * 64 + d" "d < 64" by (rule digit_64)
    obtain x c where y: "y = x * 64 + c" "c < 64" by (rule digit_64)
    obtain a b where x: "x = a * 64 + b" "b < 64" by (rule digit_64)
    have "r \<le> 0x10FFFF" using assms 4 unfolding rune_ok_def by linarith
    then show ?thesis
      by (intro four [OF q(1) [unfolded y(1) x(1)] _ _ x(2) y(2) q(2)]) (use 4 q y x in linarith)+
  qed (rule ascii)
qed

lemma decode_encode:
  assumes "rune_ok r"
  shows "decode_rune (encode_rune r @ s) = (r, length (encode_rune r))"
  using assms
proof (cases rule: rune_cases)
  case ascii
  then show ?thesis by (simp add: decode_rune_def encode_rune_def rune_ok_def)
next
  case (two a b)
  show ?thesis unfolding two(1) encode2 [OF two(2-4)] using two(2-4)
    by (simp add: decode_rune_def Let_def in_range_def)
next
  case (three a b c)
  show ?thesis unfolding three(1) encode3 [OF assms [unfolded three(1)] three(2-5)] using three(2-6)
    by (auto simp: decode_rune_def Let_def in_range_def)
next
  case (four a b c d)
  show ?thesis unfolding four(1) encode4 [OF assms [unfolded four(1)] four(2,4-6)] using four(2-7)
    by (auto simp: decode_rune_def Let_def in_range_def)
qed

lemma encode_rune_ascii: "r < 128 \<Longrightarrow> encode_rune r = [char_of r]"
  by (simp add: encode_rune_def rune_ok_def)

lemma encode_rune_high: "128 \<le> r \<Longrightarrow> 2 \<le> length (encode_rune r)"
  by (auto simp: encode_rune_def Let_def rune_error_def)

lemma encode_rune_nonempty [simp]: "encode_rune r \<noteq> []"
  by (simp add: encode_rune_def Let_def)

lemma encode_rune_bytes:
  assumes "128 \<le> r" "rune_ok r" "c \<in> set (encode_rune r)"
  shows "128 \<le> byte_of c"
  using assms(2)
proof (cases rule: rune_cases)
  case (two a b)
  show ?thesis using assms(3) two(2-4) unfolding two(1) encode2 [OF two(2-4)] by auto
next
  case (three a b c)
  show ?thesis using assms(3) three(2-5) unfolding three(1) encode3 [OF assms(2) [unfolded three(1)] three(2-5)] by auto
next
  case (four a b c d)
  show ?thesis using assms(3) four(2-6) unfolding four(1) encode4 [OF assms(2) [unfolded four(1)] four(2,4-6)] by auto
qed (use assms(1) in simp)

end
