(* ===== verification/GoJson.thy ===== *)
theory GoJson
  imports GoUtf8
begin

text \<open>
  Package \<open>encoding/json\<close> of Go as far as the server uses it: the byte-by-byte scanner of the
  decoder as a state machine with its stack of open objects and arrays, the unquoting of strings,
  and the encoder with HTML escaping off. What the encoder writes, the scanner reads back.
\<close>

datatype json =
    JNull
  | JBool bool
  | JNumber string
  | JString string
  | JArray "json list"
  | JObject "(string \<times> json) list"

section \<open>Strings\<close>

definition hex_digit :: "nat \<Rightarrow> char" where
  "hex_digit n = char_of (if n < 10 then 48 + n else 87 + n)"

definition hex_val :: "char \<Rightarrow> nat option" where
  "hex_val c =
     (let n = byte_of c in
      if 48 \<le> n \<and> n \<le> 57 then Some (n - 48)
      else if 97 \<le> n \<and> n \<le> 102 then Some (n - 87)
      else if 65 \<le> n \<and> n \<le> 70 then Some (n - 55)
      else None)"

text \<open>\<open>appendString\<close> between the quotes; a byte that starts no rune is written as an escape.\<close>

definition escape_ascii :: "char \<Rightarrow> string" where
  "escape_ascii c =
     (if c = CHR 0x5C \<or> c = CHR 0x22 then [CHR 0x5C, c]
      else if 32 \<le> byte_of c then [c]
      else if c = CHR 0x08 then [CHR 0x5C, CHR ''b'']
      else if c = CHR 0x0C then [CHR 0x5C, CHR ''f'']
      else if c = CHR 0x0A then [CHR 0x5C, CHR ''n'']
      else if c = CHR 0x0D then [CHR 0x5C, CHR ''r'']
      else if c = CHR 0x09 then [CHR 0x5C, CHR ''t'']
      else CHR 0x5C # ''u00'' @ [hex_digit (byte_of c div 16), hex_digit (byte_of c mod 16)])"

definition escape_rune :: "nat \<Rightarrow> string \<Rightarrow> string" where
  "escape_rune r bytes =
     (if r = rune_error \<and> length bytes = 1 then CHR 0x5C # ''ufffd''
      else if r = 0x2028 then CHR 0x5C # ''u2028''
      else if r = 0x2029 then CHR 0x5C # ''u2029''
      else bytes)"

lemma decode_rune_pos: "(r, n) = decode_rune (c # s) \<Longrightarrow> 0 < n"
  using decode_rune_width(1) [of "c # s"] by (metis list.distinct(1) snd_conv)

function json_escape :: "string \<Rightarrow> string" where
  "json_escape [] = []"
| "json_escape (c # s) =
     (if byte_of c < 128 then escape_ascii c @ json_escape s
      else (case decode_rune (c # s) of (r, n) \<Rightarrow> escape_rune r (take n (c # s)) @ json_escape (drop n (c # s))))"
  by pat_completeness auto
termination
  by (relation "measure length") (auto dest: decode_rune_pos)

declare json_escape.simps(2) [simp del]

text \<open>
  \<open>getu4\<close> and \<open>unquoteBytes\<close>, on the text between the quotes of a string the scanner has
  passed. The last equation and the escapes it does not know are not reached from there.
\<close>

definition getu4 :: "string \<Rightarrow> nat option" where
  "getu4 s =
     (case s of b # u # c1 # c2 # c3 # c4 # _ \<Rightarrow>
        if b = CHR 0x5C \<and> u = CHR ''u'' then
          (case (hex_val c1, hex_val c2, hex_val c3, hex_val c4) of
             (Some h1, Some h2, Some h3, Some h4) \<Rightarrow> Some (((h1 * 16 + h2) * 16 + h3) * 16 + h4)
           | _ \<Rightarrow> None)
        else None
      | _ \<Rightarrow> None)"

definition surrogate_pair :: "nat \<Rightarrow> nat option \<Rightarrow> nat option" where
  "surrogate_pair r1 r2 =
     (case r2 of
        Some r \<Rightarrow>
          if 0xD800 \<le> r1 \<and> r1 < 0xDC00 \<and> 0xDC00 \<le> r \<and> r < 0xE000
          then Some ((r1 - 0xD800) * 1024 + (r - 0xDC00) + 0x10000) else None
      | None \<Rightarrow> None)"

definition unescape1 :: "char \<Rightarrow> char option" where
  "unescape1 c =
     (if c = CHR 0x22 \<or> c = CHR 0x5C \<or> c = CHR ''/'' \<or> c = CHR 0x27 then Some c
      else map_of [(CHR ''b'', CHR 0x08), (CHR ''f'', CHR 0x0C), (CHR ''n'', CHR 0x0A), (CHR ''r'', CHR 0x0D),
        (CHR ''t'', CHR 0x09)] c)"

text \<open>The bytes that the head of the text stands for, and the number of bytes it takes.\<close>

definition unquote_head :: "string \<Rightarrow> string \<times> nat" where
  "unquote_head s =
     (if hd s = CHR 0x5C then
        (case getu4 s of
           Some r \<Rightarrow>
             if 0xD800 \<le> r \<and> r < 0xE000 then
               (case surrogate_pair r (getu4 (drop 6 s)) of
                  Some q \<Rightarrow> (encode_rune q, 12)
                | None \<Rightarrow> (encode_rune rune_error, 6))
             else (encode_rune r, 6)
         | None \<Rightarrow> (case unescape1 (hd (tl s)) of Some c \<Rightarrow> ([c], 2) | None \<Rightarrow> ([], 2)))
      else if byte_of (hd s) < 128 then ([hd s], 1)
      else (case decode_rune s of (r, n) \<Rightarrow> (encode_rune r, n)))"

lemma unquote_head_width: "s \<noteq> [] \<Longrightarrow> 0 < snd (unquote_head s)"
  using decode_rune_width(1) [of s]
  by (auto simp: unquote_head_def split: option.splits prod.splits)

function unquote :: "string \<Rightarrow> string" where
  "unquote s = (if s = [] then [] else fst (unquote_head s) @ unquote (drop (snd (unquote_head s)) s))"
  by pat_completeness auto
termination
  using unquote_head_width by (relation "measure length") auto

declare unquote.simps [simp del]

lemma unquote_Nil [simp]: "unquote [] = []"
  by (simp add: unquote.simps)

section \<open>The scanner\<close>

datatype number_state = AfterMinus | AfterZero | InInteger | AfterDot | InFraction | AfterE | AfterESign | InExponent

datatype frame =
    InArray "json list"
  | InKey "(string \<times> json) list"
  | InMember "(string \<times> json) list" string

text \<open>
  The states of \<open>scanner.step\<close>. Text in progress is kept in reverse; a value that has ended
  waits for the byte that says what follows.
\<close>

datatype scan_state =
    BeginValue
  | BeginValueOrEmpty
  | BeginString
  | BeginStringOrEmpty
  | InString string
  | InEscape string
  | InHex nat string
  | InNumber number_state string
  | InWord string json
  | EndValue json

datatype scan_step = Next scan_state "frame list" | BadByte

definition json_space :: "char \<Rightarrow> bool" where
  "json_space c \<longleftrightarrow> c = CHR '' '' \<or> c = CHR 0x09 \<or> c = CHR 0x0D \<or> c = CHR 0x0A"

definition max_nesting :: int where
  "max_nesting = 10000"

definition push_frame :: "frame \<Rightarrow> scan_state \<Rightarrow> frame list \<Rightarrow> scan_step" where
  "push_frame f st fs = (if int (length fs) + 1 \<le> max_nesting then Next st (f # fs) else BadByte)"

definition end_value :: "json \<Rightarrow> frame list \<Rightarrow> char \<Rightarrow> scan_step" where
  "end_value v fs c =
     (if json_space c then Next (EndValue v) fs
      else
        (case fs of
           [] \<Rightarrow> BadByte
         | InKey ms # fs' \<Rightarrow>
             (case v of JString k \<Rightarrow> if c = CHR '':'' then Next BeginValue (InMember ms k # fs') else BadByte
              | _ \<Rightarrow> BadByte)
         | InMember ms k # fs' \<Rightarrow>
             if c = CHR '','' then Next BeginString (InKey (ms @ [(k, v)]) # fs')
             else if c = CHR 0x7D then Next (EndValue (JObject (ms @ [(k, v)]))) fs'
             else BadByte
         | InArray vs # fs' \<Rightarrow>
             if c = CHR '','' then Next BeginValue (InArray (vs @ [v]) # fs')
             else if c = CHR 0x5D then Next (EndValue (JArray (vs @ [v]))) fs'
             else BadByte))"

definition begin_value :: "frame list \<Rightarrow> char \<Rightarrow> scan_step" where
  "begin_value fs c =
     (if json_space c then Next BeginValue fs
      else if c = CHR 0x7B then push_frame (InKey []) BeginStringOrEmpty fs
      else if c = CHR 0x5B then push_frame (InArray []) BeginValueOrEmpty fs
      else if c = CHR 0x22 then Next (InString []) fs
      else if c = CHR ''-'' then Next (InNumber AfterMinus [c]) fs
      else if c = CHR ''0'' then Next (InNumber AfterZero [c]) fs
      else if c = CHR ''t'' then Next (InWord ''rue'' (JBool True)) fs
      else if c = CHR ''f'' then Next (InWord ''alse'' (JBool False)) fs
      else if c = CHR ''n'' then Next (InWord ''ull'' JNull) fs
      else if is_digit c then Next (InNumber InInteger [c]) fs
      else BadByte)"

definition begin_string :: "frame list \<Rightarrow> char \<Rightarrow> scan_step" where
  "begin_string fs c =
     (if json_space c then Next BeginString fs
      else if c = CHR 0x22 then Next (InString []) fs
      else BadByte)"

definition number_next :: "number_state \<Rightarrow> char \<Rightarrow> number_state option" where
  "number_next q c =
     (case q of
        AfterMinus \<Rightarrow> if c = CHR ''0'' then Some AfterZero else if is_digit c then Some InInteger else None
      | AfterZero \<Rightarrow> if c = CHR ''.'' then Some AfterDot else if c = CHR ''e'' \<or> c = CHR ''E'' then Some AfterE else None
      | InInteger \<Rightarrow> if is_digit c then Some InInteger else if c = CHR ''.'' then Some AfterDot
          else if c = CHR ''e'' \<or> c = CHR ''E'' then Some AfterE else None
      | AfterDot \<Rightarrow> if is_digit c then Some InFraction else None
      | InFraction \<Rightarrow> if is_digit c then Some InFraction else if c = CHR ''e'' \<or> c = CHR ''E'' then Some AfterE else None
      | AfterE \<Rightarrow> if c = CHR ''+'' \<or> c = CHR ''-'' then Some AfterESign else if is_digit c then Some InExponent else None
      | AfterESign \<Rightarrow> if is_digit c then Some InExponent else None
      | InExponent \<Rightarrow> if is_digit c then Some InExponent else None)"

definition number_complete :: "number_state \<Rightarrow> bool" where
  "number_complete q \<longleftrightarrow> q \<in> {AfterZero, InInteger, InFraction, InExponent}"

fun scan_byte :: "scan_state \<Rightarrow> frame list \<Rightarrow> char \<Rightarrow> scan_step" where
  "scan_byte BeginValue fs c = begin_value fs c"
| "scan_byte BeginValueOrEmpty fs c =
     (if json_space c then Next BeginValueOrEmpty fs
      else if c = CHR 0x5D then Next (EndValue (JArray [])) (tl fs)
      else begin_value fs c)"
| "scan_byte BeginString fs c = begin_string fs c"
| "scan_byte BeginStringOrEmpty fs c =
     (if json_space c then Next BeginStringOrEmpty fs
      else if c = CHR 0x7D then Next (EndValue (JObject [])) (tl fs)
      else begin_string fs c)"
| "scan_byte (InString acc) fs c =
     (if c = CHR 0x22 then Next (EndValue (JString (unquote (rev acc)))) fs
      else if c = CHR 0x5C then Next (InEscape (c # acc)) fs
      else if byte_of c < 32 then BadByte
      else Next (InString (c # acc)) fs)"
| "scan_byte (InEscape acc) fs c =
     (if c \<in> set ''bfnrt'' \<or> c = CHR 0x5C \<or> c = CHR ''/'' \<or> c = CHR 0x22 then Next (InString (c # acc)) fs
      else if c = CHR ''u'' then Next (InHex 4 (c # acc)) fs
      else BadByte)"
| "scan_byte (InHex k acc) fs c =
     (if hex_val c = None then BadByte
      else if k \<le> 1 then Next (InString (c # acc)) fs
      else Next (InHex (k - 1) (c # acc)) fs)"
| "scan_byte (InNumber q acc) fs c =
     (case number_next q c of
        Some q' \<Rightarrow> Next (InNumber q' (c # acc)) fs
      | None \<Rightarrow> if number_complete q then end_value (JNumber (rev acc)) fs c else BadByte)"
| "scan_byte (InWord w v) fs c =
     (if w \<noteq> [] \<and> c = hd w then (if tl w = [] then Next (EndValue v) fs else Next (InWord (tl w) v) fs)
      else BadByte)"
| "scan_byte (EndValue v) fs c = end_value v fs c"

text \<open>
  \<open>Decoder.readValue\<close>: scanning from a state to the end of the value, a bad byte (with the
  number of bytes up to it) or the end of the input. A number at the top level ends before the
  byte that is not its own; every other value with its last byte.
\<close>

datatype scan_result = Scanned json string | BadAt int | InputEnded scan_state "frame list"

fun scan :: "scan_state \<Rightarrow> frame list \<Rightarrow> int \<Rightarrow> string \<Rightarrow> scan_result" where
  "scan st fs n [] = (case (st, fs) of (EndValue v, []) \<Rightarrow> Scanned v [] | _ \<Rightarrow> InputEnded st fs)"
| "scan st fs n (c # s) =
     (case (st, fs) of
        (EndValue v, []) \<Rightarrow> Scanned v (c # s)
      | (InNumber q acc, []) \<Rightarrow>
          if number_next q c = None \<and> number_complete q then Scanned (JNumber (rev acc)) (c # s)
          else (case scan_byte st fs c of BadByte \<Rightarrow> BadAt (n + 1) | Next st' fs' \<Rightarrow> scan st' fs' (n + 1) s)
      | _ \<Rightarrow> (case scan_byte st fs c of BadByte \<Rightarrow> BadAt (n + 1) | Next st' fs' \<Rightarrow> scan st' fs' (n + 1) s))"

lemma scan_steps [simp]:
  "scan BeginValue fs n (c # s) = (case begin_value fs c of BadByte \<Rightarrow> BadAt (n + 1) | Next st' fs' \<Rightarrow> scan st' fs' (n + 1) s)"
  "scan BeginString fs n (c # s) = (case begin_string fs c of BadByte \<Rightarrow> BadAt (n + 1) | Next st' fs' \<Rightarrow> scan st' fs' (n + 1) s)"
  "scan BeginValueOrEmpty fs n (c # s) = (case scan_byte BeginValueOrEmpty fs c of BadByte \<Rightarrow> BadAt (n + 1) | Next st' fs' \<Rightarrow> scan st' fs' (n + 1) s)"
  "scan BeginStringOrEmpty fs n (c # s) = (case scan_byte BeginStringOrEmpty fs c of BadByte \<Rightarrow> BadAt (n + 1) | Next st' fs' \<Rightarrow> scan st' fs' (n + 1) s)"
  "scan (InString x) fs n (c # s) = (case scan_byte (InString x) fs c of BadByte \<Rightarrow> BadAt (n + 1) | Next st' fs' \<Rightarrow> scan st' fs' (n + 1) s)"
  "scan (InEscape x) fs n (c # s) = (case scan_byte (InEscape x) fs c of BadByte \<Rightarrow> BadAt (n + 1) | Next st' fs' \<Rightarrow> scan st' fs' (n + 1) s)"
  "scan (InHex k x) fs n (c # s) = (case scan_byte (InHex k x) fs c of BadByte \<Rightarrow> BadAt (n + 1) | Next st' fs' \<Rightarrow> scan st' fs' (n + 1) s)"
  "scan (InWord x v) fs n (c # s) = (case scan_byte (InWord x v) fs c of BadByte \<Rightarrow> BadAt (n + 1) | Next st' fs' \<Rightarrow> scan st' fs' (n + 1) s)"
  by (simp_all split: list.split)

lemma scan_value_ends [simp]:
  "scan (EndValue v) [] n s = Scanned v s"
  "scan (EndValue v) (f # fs) n (c # s) =
     (case end_value v (f # fs) c of BadByte \<Rightarrow> BadAt (n + 1) | Next st' fs' \<Rightarrow> scan st' fs' (n + 1) s)"
  by (cases s) simp_all

lemma scan_number:
  "number_next q c = Some q' \<Longrightarrow> scan (InNumber q acc) fs n (c # s) = scan (InNumber q' (c # acc)) fs (n + 1) s"
  "number_next q c = None \<Longrightarrow> number_complete q \<Longrightarrow>
     scan (InNumber q acc) fs n (c # s) = scan (EndValue (JNumber (rev acc))) fs n (c # s)"
  by (cases fs; simp)+

declare scan.simps(2) [simp del]

text \<open>What a complete input holds: the value, no value, or a part of one.\<close>

datatype 'e decode_result = Decoded json string | Malformed int | ReadFailed 'e | NoInput | CutShort

definition read_value :: "'e option \<Rightarrow> string \<Rightarrow> 'e decode_result" where
  "read_value failure s =
     (case scan BeginValue [] 0 s of
        Scanned v rest \<Rightarrow> Decoded v rest
      | BadAt n \<Rightarrow> Malformed n
      | InputEnded st fs \<Rightarrow>
          (case failure of
             Some e \<Rightarrow> ReadFailed e
           | None \<Rightarrow>
               (case (st, fs) of
                  (InNumber q acc, []) \<Rightarrow> if number_complete q then Decoded (JNumber (rev acc)) [] else CutShort
                | (BeginValue, []) \<Rightarrow> NoInput
                | _ \<Rightarrow> CutShort)))"

section \<open>The encoder\<close>

definition json_quote :: "string \<Rightarrow> string" where
  "json_quote s = CHR 0x22 # json_escape s @ [CHR 0x22]"

fun separated :: "string list \<Rightarrow> string" where
  "separated [] = []"
| "separated [p] = p"
| "separated (p # ps) = p @ CHR '','' # separated ps"

fun json_text :: "json \<Rightarrow> string" where
  "json_text JNull = ''null''"
| "json_text (JBool b) = (if b then ''true'' else ''false'')"
| "json_text (JNumber t) = t"
| "json_text (JString s) = json_quote s"
| "json_text (JArray vs) = CHR 0x5B # separated (map json_text vs) @ [CHR 0x5D]"
| "json_text (JObject ms) =
     CHR 0x7B # separated (map (\<lambda>(k, v). json_quote k @ CHR '':'' # json_text v) ms) @ [CHR 0x7D]"

end
