(* ===== verification/JsonFacts.thy ===== *)
theory JsonFacts
  imports GoJson
begin

text \<open>
  The scanner reads back what the encoder writes: strings through their escapes, numbers, and
  values of any shape up to the nesting the scanner allows.
\<close>

section \<open>Unquoting\<close>

lemma hex_val_digit [simp]: "n < 16 \<Longrightarrow> hex_val (hex_digit n) = Some n"
  by (auto simp: hex_val_def hex_digit_def Let_def)

lemma byte_of_eq: "c = d \<longleftrightarrow> byte_of c = byte_of d"
  by (metis char_of_char)

lemma unquote_step: "s \<noteq> [] \<Longrightarrow> unquote s = fst (unquote_head s) @ unquote (drop (snd (unquote_head s)) s)"
  by (subst unquote.simps) simp

lemma getu4_u: "getu4 (CHR 0x5C # CHR ''u'' # c1 # c2 # c3 # c4 # t) =
    (case (hex_val c1, hex_val c2, hex_val c3, hex_val c4) of
       (Some h1, Some h2, Some h3, Some h4) \<Rightarrow> Some (((h1 * 16 + h2) * 16 + h3) * 16 + h4)
     | _ \<Rightarrow> None)"
  by (simp add: getu4_def)

lemma unquote_u:
  assumes "getu4 (CHR 0x5C # CHR ''u'' # c1 # c2 # c3 # c4 # t) = Some r" "r < 0xD800 \<or> 0xE000 \<le> r"
  shows "unquote (CHR 0x5C # CHR ''u'' # c1 # c2 # c3 # c4 # t) = encode_rune r @ unquote t"
  using assms by (subst unquote_step) (auto simp: unquote_head_def)

lemma unquote_pair: "unescape1 c = Some d \<Longrightarrow> unquote (CHR 0x5C # c # t) = d # unquote t"
  by (subst unquote_step) (auto simp: unquote_head_def getu4_def unescape1_def split: list.split if_splits)

lemma unquote_plain: "byte_of c < 128 \<Longrightarrow> c \<noteq> CHR 0x5C \<Longrightarrow> unquote (c # t) = c # unquote t"
  by (subst unquote_step) (auto simp: unquote_head_def)

lemma unquote_escape_ascii:
  assumes "byte_of c < 128"
  shows "unquote (escape_ascii c @ t) = c # unquote t"
proof -
  have u: "unquote (CHR 0x5C # ''u00'' @ [hex_digit (byte_of c div 16), hex_digit (byte_of c mod 16)] @ t) = c # unquote t"
  proof -
    have "byte_of c div 16 < 16" using assms by simp
    then have g: "getu4 (CHR 0x5C # CHR ''u'' # CHR ''0'' # CHR ''0'' # hex_digit (byte_of c div 16) # hex_digit (byte_of c mod 16) # t)
        = Some (byte_of c)"
      by (simp add: getu4_u) (simp add: hex_val_def)
    have "encode_rune (byte_of c) = [c]" using assms by (simp add: encode_rune_ascii)
    with unquote_u [OF g] assms show ?thesis by simp
  qed
  show ?thesis
  proof (cases "c \<in> {CHR 0x5C, CHR 0x22, CHR 0x08, CHR 0x0C, CHR 0x0A, CHR 0x0D, CHR 0x09}")
    case True
    then have "escape_ascii c = [CHR 0x5C, if c = CHR 0x5C then c else if c = CHR 0x22 then c else if c = CHR 0x08 then CHR ''b''
        else if c = CHR 0x0C then CHR ''f'' else if c = CHR 0x0A then CHR ''n'' else if c = CHR 0x0D then CHR ''r'' else CHR ''t'']"
      by (elim insertE; simp add: escape_ascii_def)
    then show ?thesis using True
      by (elim insertE; simp add: unquote_pair unescape1_def)
  next
    case False
    show ?thesis
    proof (cases "32 \<le> byte_of c")
      case True
      with False have "escape_ascii c = [c]" by (simp add: escape_ascii_def)
      with False assms show ?thesis by (simp add: unquote_plain)
    next
      case small: False
      with False have "escape_ascii c = CHR 0x5C # ''u00'' @ [hex_digit (byte_of c div 16), hex_digit (byte_of c mod 16)]"
        by (simp add: escape_ascii_def)
      with u show ?thesis by simp
    qed
  qed
qed

lemma unquote_rune: "rune_ok r \<Longrightarrow> 128 \<le> r \<Longrightarrow> unquote (encode_rune r @ t) = encode_rune r @ unquote t"
proof -
  assume r: "rune_ok r" "128 \<le> r"
  have h: "128 \<le> byte_of (hd (encode_rune r))" using encode_rune_bytes [OF r(2,1)] by simp
  then have "hd (encode_rune r) \<noteq> CHR 0x5C" by auto
  with h r show ?thesis
    by (subst unquote_step) (simp_all add: unquote_head_def decode_encode)
qed

lemma json_escape_ascii: "byte_of c < 128 \<Longrightarrow> json_escape (c # s) = escape_ascii c @ json_escape s"
  by (simp add: json_escape.simps(2))

lemma json_escape_rune:
  assumes "rune_ok r" "128 \<le> r"
  shows "json_escape (encode_rune r @ s) = escape_rune r (encode_rune r) @ json_escape s"
proof -
  obtain c cs where e: "encode_rune r = c # cs" by (cases "encode_rune r") simp_all
  have "128 \<le> byte_of c" using encode_rune_bytes [OF assms(2,1), of c] e by simp
  then show ?thesis using decode_encode [OF assms(1), of s] by (simp add: e json_escape.simps(2))
qed

lemma escape_rune_cases:
  assumes "128 \<le> r"
  obtains "escape_rune r (encode_rune r) = encode_rune r" | "r = 0x2028" "escape_rune r (encode_rune r) = CHR 0x5C # ''u2028''"
    | "r = 0x2029" "escape_rune r (encode_rune r) = CHR 0x5C # ''u2029''"
proof -
  have l: "length (encode_rune r) \<noteq> 1" using encode_rune_high [OF assms] by simp
  show thesis
  proof (cases "r = 0x2028 \<or> r = 0x2029")
    case False
    with l show ?thesis by (intro that(1)) (simp add: escape_rune_def)
  next
    case True
    with l show ?thesis
      by (elim disjE) (rule that(2), simp, simp add: escape_rune_def rune_error_def, rule that(3), simp,
          simp add: escape_rune_def rune_error_def)
  qed
qed

lemma hex_val_2028: "hex_val (CHR ''2'') = Some 2" "hex_val (CHR ''0'') = Some 0" "hex_val (CHR ''8'') = Some 8"
  "hex_val (CHR ''9'') = Some 9"
  by (simp_all add: hex_val_def)

lemma unquote_escape_rune:
  assumes "rune_ok r" "128 \<le> r"
  shows "unquote (escape_rune r (encode_rune r) @ t) = encode_rune r @ unquote t"
  using assms(2)
proof (cases rule: escape_rune_cases)
  case 1
  then show ?thesis using unquote_rune [OF assms] by simp
next
  case 2
  then show ?thesis using unquote_u [of "CHR ''2''" "CHR ''0''" "CHR ''2''" "CHR ''8''" t r] by (simp add: getu4_u hex_val_2028)
next
  case 3
  then show ?thesis using unquote_u [of "CHR ''2''" "CHR ''0''" "CHR ''2''" "CHR ''9''" t r] by (simp add: getu4_u hex_val_2028)
qed

definition text_ok :: "string \<Rightarrow> bool" where
  "text_ok s \<longleftrightarrow> (\<exists>rs. list_all rune_ok rs \<and> s = utf8 rs)"

lemma text_okE:
  assumes "text_ok s" "P []" "\<And>c t. byte_of c < 128 \<Longrightarrow> P t \<Longrightarrow> P (c # t)"
    "\<And>r t. rune_ok r \<Longrightarrow> 128 \<le> r \<Longrightarrow> P t \<Longrightarrow> P (encode_rune r @ t)"
  shows "P s"
proof -
  obtain rs where rs: "list_all rune_ok rs" "s = utf8 rs" using assms(1) by (auto simp: text_ok_def)
  have "P (utf8 rs)" using rs(1)
  proof (induction rs)
    case (Cons r rs)
    show ?case
    proof (cases "r < 128")
      case True
      then have "byte_of (char_of r) < 128" by simp
      with Cons True show ?thesis using assms(3) by (simp add: encode_rune_ascii)
    qed (use Cons assms(4) in simp)
  qed (simp add: assms(2))
  then show ?thesis using rs(2) by simp
qed

theorem unquote_escape: "text_ok s \<Longrightarrow> unquote (json_escape s) = s"
  by (erule text_okE) (simp_all add: json_escape_ascii unquote_escape_ascii json_escape_rune unquote_escape_rune)

lemma text_ok_ascii: "list_all (\<lambda>c. byte_of c < 128) s \<Longrightarrow> text_ok s"
proof -
  assume a: "list_all (\<lambda>c. byte_of c < 128) s"
  then have "s = utf8 (map of_char s)"
    by (induction s) (simp_all add: encode_rune_ascii)
  moreover have "list_all rune_ok (map of_char s)" using a by (auto simp: list_all_iff rune_ok_def)
  ultimately show ?thesis by (auto simp: text_ok_def)
qed


section \<open>Scanning strings\<close>

text \<open>\<open>passes x\<close>: inside a string the scanner goes over \<open>x\<close> and keeps it.\<close>

definition passes :: "string \<Rightarrow> bool" where
  "passes x \<longleftrightarrow> (\<forall>acc fs n t. scan (InString acc) fs n (x @ t) = scan (InString (rev x @ acc)) fs (n + int (length x)) t)"

lemma passesD: "passes x \<Longrightarrow> scan (InString acc) fs n (x @ t) = scan (InString (rev x @ acc)) fs (n + int (length x)) t"
  by (simp add: passes_def)

lemma passes_append: "passes x \<Longrightarrow> passes y \<Longrightarrow> passes (x @ y)"
  by (simp add: passes_def add.assoc)

lemma passes_Nil: "passes []"
  by (simp add: passes_def)

lemma passes_plain: "32 \<le> byte_of c \<Longrightarrow> c \<noteq> CHR 0x5C \<Longrightarrow> c \<noteq> CHR 0x22 \<Longrightarrow> passes [c]"
  by (auto simp: passes_def)

lemma passes_pair: "c \<in> set ''bfnrt'' \<or> c = CHR 0x5C \<or> c = CHR 0x22 \<Longrightarrow> passes [CHR 0x5C, c]"
  by (auto simp: passes_def add.commute)

lemma passes_hex:
  "hex_val c1 \<noteq> None \<Longrightarrow> hex_val c2 \<noteq> None \<Longrightarrow> hex_val c3 \<noteq> None \<Longrightarrow> hex_val c4 \<noteq> None \<Longrightarrow>
    passes [CHR 0x5C, CHR ''u'', c1, c2, c3, c4]"
  by (auto simp: passes_def add.commute)

lemma passes_high: "(\<And>c. c \<in> set x \<Longrightarrow> 128 \<le> byte_of c) \<Longrightarrow> passes x"
proof (induction x)
  case (Cons c x)
  have "128 \<le> byte_of c" using Cons.prems by simp
  then have "passes [c]" by (intro passes_plain) auto
  moreover have "passes x" using Cons by simp
  ultimately show ?case using passes_append [of "[c]" x] by simp
qed (simp add: passes_Nil)

lemma passes_escape_ascii:
  assumes "byte_of c < 128"
  shows "passes (escape_ascii c)"
proof (cases "c \<in> {CHR 0x5C, CHR 0x22, CHR 0x08, CHR 0x0C, CHR 0x0A, CHR 0x0D, CHR 0x09}")
  case True
  then show ?thesis by (elim insertE; simp add: escape_ascii_def passes_pair)
next
  case False
  show ?thesis
  proof (cases "32 \<le> byte_of c")
    case True
    with False show ?thesis by (simp add: escape_ascii_def passes_plain)
  next
    case small: False
    have "byte_of c div 16 < 16" using assms by simp
    with False small show ?thesis by (simp add: escape_ascii_def) (rule passes_hex; simp add: hex_val_2028)
  qed
qed

lemma passes_escape_rune:
  assumes "rune_ok r" "128 \<le> r"
  shows "passes (escape_rune r (encode_rune r))"
  using assms(2)
proof (cases rule: escape_rune_cases)
  case 1
  then show ?thesis using encode_rune_bytes [OF assms(2,1)] by (simp add: passes_high)
qed (simp_all add: passes_hex hex_val_2028)

lemma passes_escape: "text_ok s \<Longrightarrow> passes (json_escape s)"
  by (erule text_okE)
    (simp_all add: passes_Nil json_escape_ascii json_escape_rune passes_append passes_escape_ascii passes_escape_rune)

lemma scan_string:
  assumes "text_ok s"
  shows "scan (InString []) fs n (json_escape s @ CHR 0x22 # t)
    = scan (EndValue (JString s)) fs (n + int (length (json_escape s)) + 1) t"
  using passesD [OF passes_escape [OF assms], of "[]" fs n "CHR 0x22 # t"] unquote_escape [OF assms] by simp

section \<open>Scanning numbers\<close>

lemma scan_digits:
  "list_all is_digit ds \<Longrightarrow>
    scan (InNumber InInteger acc) fs n (ds @ t) = scan (InNumber InInteger (rev ds @ acc)) fs (n + int (length ds)) t"
proof (induction ds arbitrary: acc n)
  case (Cons d ds)
  then have "number_next InInteger d = Some InInteger" by (simp add: number_next_def)
  with Cons show ?case by (simp add: scan_number(1) add.assoc)
qed simp

lemma show_nat_first: "0 < n \<Longrightarrow> \<exists>d ds. show_nat n = d # ds \<and> is_digit d \<and> d \<noteq> CHR ''0'' \<and> list_all is_digit ds"
proof (induction n rule: show_nat.induct)
  case (1 n)
  show ?case
  proof (cases "n < 10")
    case True
    have "(of_char (digit_char n) :: int) \<noteq> of_char (CHR ''0'')" using "1.prems" True by simp
    then have "digit_char n \<noteq> CHR ''0''" by metis
    with True "1.prems" show ?thesis by (simp add: show_nat.simps [of n])
  next
    case False
    then have "0 < n div 10" by (simp add: pos_imp_zdiv_pos_iff)
    with False 1 obtain d ds where "show_nat (n div 10) = d # ds" "is_digit d" "d \<noteq> CHR ''0''" "list_all is_digit ds" by auto
    with False show ?thesis by (simp add: show_nat.simps [of n])
  qed
qed

definition ends_number :: "char \<Rightarrow> bool" where
  "ends_number c \<longleftrightarrow> \<not> is_digit c \<and> c \<noteq> CHR ''.'' \<and> c \<noteq> CHR ''e'' \<and> c \<noteq> CHR ''E''"

lemma number_ends: "ends_number c \<Longrightarrow> q = AfterZero \<or> q = InInteger \<Longrightarrow>
    scan (InNumber q acc) fs n (c # t) = scan (EndValue (JNumber (rev acc))) fs n (c # t)"
  by (elim disjE; rule scan_number(2); simp add: ends_number_def number_next_def number_complete_def)

lemma begin_digit: "is_digit d \<Longrightarrow> d \<noteq> CHR ''0'' \<Longrightarrow> begin_value fs d = Next (InNumber InInteger [d]) fs"
proof -
  assume d: "is_digit d" "d \<noteq> CHR ''0''"
  have "\<not> is_digit x" if "x \<in> set [CHR '' '', CHR 0x09, CHR 0x0D, CHR 0x0A, CHR 0x7B, CHR 0x5B, CHR 0x22, CHR ''-'', CHR ''t'', CHR ''f'', CHR ''n'']" for x
    using that by (simp only: list.set insert_iff empty_iff) (elim disjE FalseE; simp add: is_digit_def)
  then have "d \<notin> set [CHR '' '', CHR 0x09, CHR 0x0D, CHR 0x0A, CHR 0x7B, CHR 0x5B, CHR 0x22, CHR ''-'', CHR ''t'', CHR ''f'', CHR ''n'']"
    using d(1) by blast
  then show ?thesis using d by (simp add: begin_value_def json_space_def)
qed

lemma scan_show_nat:
  assumes "0 \<le> i" "ends_number c"
  shows "scan BeginValue fs n (show_nat i @ c # t) = scan (EndValue (JNumber (show_nat i))) fs (n + int (length (show_nat i))) (c # t)"
proof (cases "i = 0")
  case True
  have "digit_char 0 = CHR ''0''" by code_simp
  with True have "show_nat i = ''0''" by (simp add: show_nat.simps)
  then show ?thesis by (simp add: begin_value_def json_space_def number_ends [OF assms(2)])
next
  case False
  then obtain d ds where "show_nat i = d # ds" "is_digit d" "d \<noteq> CHR ''0''" "list_all is_digit ds"
    using show_nat_first [of i] assms(1) by auto
  then show ?thesis
    by (simp add: begin_digit scan_digits number_ends [OF assms(2)] add.assoc)
qed

lemma scan_show_int:
  assumes "ends_number c"
  shows "scan BeginValue fs n (show_int i @ c # t) = scan (EndValue (JNumber (show_int i))) fs (n + int (length (show_int i))) (c # t)"
proof (cases "i < 0")
  case True
  then obtain d ds where d: "show_nat (- i) = d # ds" "is_digit d" "d \<noteq> CHR ''0''" "list_all is_digit ds"
    using show_nat_first [of "- i"] by auto
  then have "number_next AfterMinus d = Some InInteger" by (simp add: number_next_def)
  then show ?thesis using True d
    by (simp add: number_ends [OF assms] scan_digits show_int_def begin_value_def json_space_def scan_number(1) add.assoc)
next
  case False
  then show ?thesis using scan_show_nat [OF _ assms] by (simp add: show_int_def)
qed


section \<open>Scanning values\<close>

text \<open>Values as the encoder gets them: text in UTF-8, numbers that are integers, and their nesting.\<close>

fun json_ok :: "json \<Rightarrow> bool" where
  "json_ok (JNumber t) \<longleftrightarrow> (\<exists>i. t = show_int i)"
| "json_ok (JString s) \<longleftrightarrow> text_ok s"
| "json_ok (JArray vs) \<longleftrightarrow> (\<forall>v \<in> set vs. json_ok v)"
| "json_ok (JObject ms) \<longleftrightarrow> (\<forall>(k, v) \<in> set ms. text_ok k \<and> json_ok v)"
| "json_ok _ \<longleftrightarrow> True"

fun nesting :: "json \<Rightarrow> nat" where
  "nesting (JArray vs) = Suc (foldr (\<lambda>v n. max (nesting v) n) vs 0)"
| "nesting (JObject ms) = Suc (foldr (\<lambda>(k, v) n. max (nesting v) n) ms 0)"
| "nesting _ = 0"

lemma nesting_elem: "v \<in> set vs \<Longrightarrow> nesting v < nesting (JArray vs)"
  by (induction vs) auto

lemma nesting_member: "(k, v) \<in> set ms \<Longrightarrow> nesting v < nesting (JObject ms)"
  by (induction ms) auto

definition reads :: "json \<Rightarrow> bool" where
  "reads v \<longleftrightarrow> (\<forall>fs n c t. int (length fs) + int (nesting v) \<le> max_nesting \<longrightarrow> ends_number c \<longrightarrow>
     scan BeginValue fs n (json_text v @ c # t) = scan (EndValue v) fs (n + int (length (json_text v))) (c # t))"

lemma readsD:
  "reads v \<Longrightarrow> int (length fs) + int (nesting v) \<le> max_nesting \<Longrightarrow> ends_number c \<Longrightarrow>
     scan BeginValue fs n (json_text v @ c # t) = scan (EndValue v) fs (n + int (length (json_text v))) (c # t)"
  by (simp add: reads_def)

lemma ends_number_punct [simp]: "ends_number (CHR '','')" "ends_number (CHR 0x5D)" "ends_number (CHR 0x7D)" "ends_number (CHR 0x0A)"
  by (simp_all add: ends_number_def is_digit_def)

lemma reads_elements:
  assumes "\<forall>v \<in> set vs. reads v \<and> int (length fs) + 1 + int (nesting v) \<le> max_nesting" "vs \<noteq> []"
  shows "scan BeginValue (InArray us # fs) n (separated (map json_text vs) @ CHR 0x5D # t)
    = scan (EndValue (JArray (us @ vs))) fs (n + int (length (separated (map json_text vs))) + 1) t"
  using assms
proof (induction vs arbitrary: us n rule: induct_list012)
  case (2 v)
  then show ?case using readsD [of v "InArray us # fs" "CHR 0x5D" n t]
    by (simp add: end_value_def json_space_def)
next
  case (3 v w vs)
  note step = readsD [of v "InArray us # fs" "CHR '',''" n "separated (map json_text (w # vs)) @ CHR 0x5D # t"]
  from 3 step "3.IH"(2) [of "us @ [v]"] show ?case
    by (simp add: end_value_def json_space_def ac_simps)
qed simp

lemma scan_key:
  assumes "text_ok k"
  shows "scan BeginString (InKey ms # fs) n (json_quote k @ CHR '':'' # t)
    = scan BeginValue (InMember ms k # fs) (n + int (length (json_quote k)) + 1) t"
  using scan_string [OF assms, of "InKey ms # fs" "n + 1" "CHR '':'' # t"]
  by (simp add: json_quote_def begin_string_def json_space_def end_value_def ac_simps)

abbreviation member_text :: "string \<times> json \<Rightarrow> string" where
  "member_text \<equiv> \<lambda>(k, v). json_quote k @ CHR '':'' # json_text v"

lemma reads_members:
  assumes "\<forall>(k, v) \<in> set ms. text_ok k \<and> reads v \<and> int (length fs) + 1 + int (nesting v) \<le> max_nesting" "ms \<noteq> []"
  shows "scan BeginString (InKey us # fs) n (separated (map member_text ms) @ CHR 0x7D # t)
    = scan (EndValue (JObject (us @ ms))) fs (n + int (length (separated (map member_text ms))) + 1) t"
  using assms
proof (induction ms arbitrary: us n rule: induct_list012)
  case (2 m)
  obtain k v where m: "m = (k, v)" by fastforce
  then show ?case using 2 scan_key [of k us fs n "json_text v @ CHR 0x7D # t"] readsD [of v "InMember us k # fs" "CHR 0x7D" _ t]
    by (simp add: end_value_def json_space_def ac_simps)
next
  case (3 m m' ms)
  obtain k v where m: "m = (k, v)" by fastforce
  let ?rest = "separated (map member_text (m' # ms)) @ CHR 0x7D # t"
  from 3 m scan_key [of k us fs n "json_text v @ CHR '','' # ?rest"] readsD [of v "InMember us k # fs" "CHR '',''" _ ?rest]
    "3.IH"(2) [of "us @ [(k, v)]"]
  show ?case by (simp add: end_value_def json_space_def ac_simps)
qed simp


lemma begin_text:
  assumes "json_ok v"
  shows "\<exists>c x. json_text v = c # x \<and> \<not> json_space c \<and> c \<noteq> CHR 0x5D"
proof (cases v)
  case (JNumber t)
  then obtain i where t: "t = show_int i" using assms by auto
  have "\<not> json_space d \<and> d \<noteq> CHR 0x5D" if "is_digit d" for d
    using that by (auto simp: json_space_def is_digit_def)
  note digit = this
  show ?thesis
  proof (cases "i < 0")
    case False
    then obtain d ds where "show_nat i = d # ds" "is_digit d"
      using show_nat_digits [of i] show_nat_nonempty [of i] by (cases "show_nat i") auto
    with False show ?thesis using JNumber t digit [of d] by (simp add: show_int_def)
  qed (simp add: JNumber t show_int_def json_space_def)
qed (simp_all add: json_space_def json_quote_def)

lemma scan_first_element: "\<not> json_space c \<Longrightarrow> c \<noteq> CHR 0x5D \<Longrightarrow>
    scan BeginValueOrEmpty fs n (c # s) = scan BeginValue fs n (c # s)"
  by simp

lemma separated_Cons: "\<exists>x. separated (p # ps) = p @ x"
  by (cases ps) auto

theorem json_reads: "json_ok v \<Longrightarrow> reads v"
proof (induction v)
  case (JBool b)
  then show ?case by (auto simp: reads_def begin_value_def json_space_def add.commute)
next
  case (JNumber t)
  then show ?case by (auto simp: reads_def scan_show_int)
next
  case (JString s)
  then show ?case
    by (auto simp: reads_def begin_value_def json_space_def json_quote_def scan_string ac_simps)
next
  case (JArray vs)
  show ?case unfolding reads_def
  proof (intro allI impI)
    fix fs :: "frame list" and n :: int and c t assume d: "int (length fs) + int (nesting (JArray vs)) \<le> max_nesting" "ends_number c"
    have open_array: "begin_value fs (CHR 0x5B) = Next BeginValueOrEmpty (InArray [] # fs)"
      using d(1) by (simp add: begin_value_def json_space_def push_frame_def)
    have vs: "\<forall>v \<in> set vs. reads v \<and> int (length fs) + 1 + int (nesting v) \<le> max_nesting"
      using JArray d(1) nesting_elem [of _ vs] by fastforce
    show "scan BeginValue fs n (json_text (JArray vs) @ c # t)
        = scan (EndValue (JArray vs)) fs (n + int (length (json_text (JArray vs)))) (c # t)"
    proof (cases vs)
      case Nil
      then show ?thesis by (simp add: open_array json_space_def add.commute)
    next
      case (Cons v us)
      obtain b x where b: "json_text v = b # x" "\<not> json_space b" "b \<noteq> CHR 0x5D"
        using begin_text [of v] JArray.prems Cons by auto
      obtain y where y: "separated (map json_text vs) = b # y"
        using separated_Cons [of "json_text v" "map json_text us"] b(1) Cons by auto
      have "scan BeginValueOrEmpty gs m (separated (map json_text vs) @ z) = scan BeginValue gs m (separated (map json_text vs) @ z)"
        for gs m z unfolding y append_Cons by (rule scan_first_element [OF b(2,3)])
      then show ?thesis using reads_elements [OF vs, of "[]" "n + 1" "c # t"] Cons
        by (simp add: open_array ac_simps)
    qed
  qed
next
  case (JObject ms)
  show ?case unfolding reads_def
  proof (intro allI impI)
    fix fs :: "frame list" and n :: int and c t assume d: "int (length fs) + int (nesting (JObject ms)) \<le> max_nesting" "ends_number c"
    have open_object: "begin_value fs (CHR 0x7B) = Next BeginStringOrEmpty (InKey [] # fs)"
      using d(1) by (simp add: begin_value_def json_space_def push_frame_def)
    have ms: "\<forall>(k, v) \<in> set ms. text_ok k \<and> reads v \<and> int (length fs) + 1 + int (nesting v) \<le> max_nesting"
      using JObject d(1) nesting_member [of _ _ ms] by fastforce
    show "scan BeginValue fs n (json_text (JObject ms) @ c # t)
        = scan (EndValue (JObject ms)) fs (n + int (length (json_text (JObject ms)))) (c # t)"
    proof (cases ms)
      case Nil
      then show ?thesis by (simp add: open_object json_space_def add.commute)
    next
      case (Cons m us)
      obtain y where y: "separated (map member_text ms) = CHR 0x22 # y"
        using separated_Cons [of "member_text m" "map member_text us"] Cons by (auto simp: json_quote_def split: prod.splits)
      have "scan BeginStringOrEmpty gs m (separated (map member_text ms) @ z) = scan BeginString gs m (separated (map member_text ms) @ z)"
        for gs m z unfolding y append_Cons by (simp add: json_space_def)
      then show ?thesis using reads_members [OF ms, of "[]" "n + 1" "c # t"] Cons
        by (simp add: open_object ac_simps)
    qed
  qed
qed (simp add: reads_def begin_value_def json_space_def add.commute)

text \<open>Reading what the encoder writes, with the line feed it ends with.\<close>

lemma read_json_text:
  assumes "json_ok v" "int (nesting v) \<le> max_nesting"
  shows "read_value failure (json_text v @ CHR 0x0A # rest) = Decoded v (CHR 0x0A # rest)"
  using readsD [OF json_reads [OF assms(1)], of "[]" "CHR 0x0A" 0 rest] assms(2) by (simp add: read_value_def)

end
