(* ===== verification/JsonBody.thy ===== *)
theory JsonBody
  imports JsonFacts
begin

text \<open>
  The bodies of requests in \<open>internal/server/server.go\<close>: \<open>json.Decoder\<close> with
  \<open>DisallowUnknownFields\<close> on a \<open>createRuleRequest\<close> behind \<open>http.MaxBytesReader\<close>, and that a request
  a client encodes is read as it was meant.
\<close>

section \<open>Quoting for messages\<close>

text \<open>
  \<open>strconv.Quote\<close>, the verb \<open>%q\<close>. Runes outside ASCII are taken to be printable, apart from
  those of \<open>unicode.Cc\<close>.
\<close>

definition quote_ascii :: "char \<Rightarrow> string" where
  "quote_ascii c =
     (if c = CHR 0x5C \<or> c = CHR 0x22 then [CHR 0x5C, c]
      else if 32 \<le> byte_of c \<and> byte_of c < 127 then [c]
      else
        (case map_of [(CHR 0x07, CHR ''a''), (CHR 0x08, CHR ''b''), (CHR 0x0C, CHR ''f''), (CHR 0x0A, CHR ''n''),
            (CHR 0x0D, CHR ''r''), (CHR 0x09, CHR ''t''), (CHR 0x0B, CHR ''v'')] c of
           Some e \<Rightarrow> [CHR 0x5C, e]
         | None \<Rightarrow> [CHR 0x5C, CHR ''x'', hex_digit (byte_of c div 16), hex_digit (byte_of c mod 16)]))"

definition quote_rune :: "nat \<Rightarrow> string \<Rightarrow> string" where
  "quote_rune r bytes =
     (if r = rune_error \<and> length bytes = 1
      then [CHR 0x5C, CHR ''x'', hex_digit (byte_of (hd bytes) div 16), hex_digit (byte_of (hd bytes) mod 16)]
      else if r < 0xA0 then [CHR 0x5C, CHR ''u'', CHR ''0'', CHR ''0'', hex_digit (r div 16), hex_digit (r mod 16)]
      else bytes)"

function quote_body :: "string \<Rightarrow> string" where
  "quote_body [] = []"
| "quote_body (c # s) =
     (if byte_of c < 128 then quote_ascii c @ quote_body s
      else (case decode_rune (c # s) of (r, n) \<Rightarrow> quote_rune r (take n (c # s)) @ quote_body (drop n (c # s))))"
  by pat_completeness auto
termination
  by (relation "measure length") (auto dest: decode_rune_pos)

declare quote_body.simps(2) [simp del]

definition quote :: "string \<Rightarrow> string" where
  "quote s = CHR 0x22 # quote_body s @ [CHR 0x22]"

section \<open>Requests\<close>

datatype json_error = JsonEOF | JsonSyntax int | JsonType string | JsonOther string

record createRuleRequest =
  cr_URL :: string
  cr_Alias :: string
  cr_TTLSeconds :: int
  cr_MaxUsages :: int

definition no_request :: createRuleRequest where
  "no_request = \<lparr>cr_URL = [], cr_Alias = [], cr_TTLSeconds = 0, cr_MaxUsages = 0\<rparr>"

text \<open>
  \<open>foldName\<close>: upper case in ASCII; U+017F folds to \<open>S\<close> and U+212A to \<open>K\<close>, every other rune
  outside ASCII to one outside ASCII, which no field name has.
\<close>

fun fold_name :: "string \<Rightarrow> string" where
  "fold_name [] = []"
| "fold_name (a # s) =
     (if a = CHR 0xC5 \<and> s \<noteq> [] \<and> hd s = CHR 0xBF then CHR ''S'' # fold_name (tl s)
      else if a = CHR 0xE2 \<and> take 2 s = [CHR 0x84, CHR 0xAA] then CHR ''K'' # fold_name (drop 2 s)
      else (if 97 \<le> byte_of a \<and> byte_of a \<le> 122 then char_of (byte_of a - 32) else a) # fold_name s)"

definition field_names :: "string list" where
  "field_names = [''url'', ''alias'', ''ttl_seconds'', ''max_usages'']"

definition find_field :: "string \<Rightarrow> string option" where
  "find_field key =
     (if key \<in> set field_names then Some key else find (\<lambda>f. fold_name f = fold_name key) field_names)"

text \<open>\<open>decodeState\<close>: the struct so far and the first error that was saved.\<close>

type_synonym decode_state = "createRuleRequest \<times> json_error option"

definition save_error :: "json_error \<Rightarrow> decode_state \<Rightarrow> decode_state" where
  "save_error e d = (case snd d of None \<Rightarrow> (fst d, Some e) | Some _ \<Rightarrow> d)"

definition set_text :: "string \<Rightarrow> string \<Rightarrow> createRuleRequest \<Rightarrow> createRuleRequest" where
  "set_text f s q = (if f = ''url'' then q\<lparr>cr_URL := s\<rparr> else q\<lparr>cr_Alias := s\<rparr>)"

definition set_number :: "string \<Rightarrow> int \<Rightarrow> createRuleRequest \<Rightarrow> createRuleRequest" where
  "set_number f n q = (if f = ''ttl_seconds'' then q\<lparr>cr_TTLSeconds := n\<rparr> else q\<lparr>cr_MaxUsages := n\<rparr>)"

definition store_field :: "string \<Rightarrow> json \<Rightarrow> decode_state \<Rightarrow> decode_state" where
  "store_field f v d =
     (case v of
        JNull \<Rightarrow> d
      | JString s \<Rightarrow>
          if f = ''url'' \<or> f = ''alias'' then (set_text f s (fst d), snd d) else save_error (JsonType f) d
      | JNumber t \<Rightarrow>
          if f = ''url'' \<or> f = ''alias'' then save_error (JsonType f) d
          else (case parse_int64 t of Some n \<Rightarrow> (set_number f n (fst d), snd d) | None \<Rightarrow> save_error (JsonType f) d)
      | _ \<Rightarrow> save_error (JsonType f) d)"

definition store_member :: "string \<times> json \<Rightarrow> decode_state \<Rightarrow> decode_state" where
  "store_member m d =
     (case find_field (fst m) of
        Some f \<Rightarrow> store_field f (snd m) d
      | None \<Rightarrow> save_error (JsonOther (''json: unknown field '' @ quote (fst m))) d)"

definition unmarshal :: "json \<Rightarrow> json_error + createRuleRequest" where
  "unmarshal v =
     (case v of
        JNull \<Rightarrow> Inr no_request
      | JObject ms \<Rightarrow>
          (case fold store_member ms (no_request, None) of (q, None) \<Rightarrow> Inr q | (q, Some e) \<Rightarrow> Inl e)
      | _ \<Rightarrow> Inl (JsonType []))"

definition jsonBodyLimit :: int where
  "jsonBodyLimit = 1048576"

text \<open>\<open>http.MaxBytesReader\<close>: the bytes that come through, and the error after them.\<close>

definition limited :: "string \<Rightarrow> string" where
  "limited body = (if int (length body) \<le> jsonBodyLimit then body else take (nat jsonBodyLimit) body)"

definition limit_error :: "string \<Rightarrow> json_error option" where
  "limit_error body = (if jsonBodyLimit < int (length body) then Some (JsonOther ''http: request body too large'') else None)"

text \<open>The first \<open>Decode\<close>, into a request, and whether the second gives \<open>io.EOF\<close>.\<close>

definition decode_first :: "string \<Rightarrow> json_error + createRuleRequest" where
  "decode_first body =
     (case read_value (limit_error body) (limited body) of
        Decoded v rest \<Rightarrow> unmarshal v
      | Malformed n \<Rightarrow> Inl (JsonSyntax n)
      | ReadFailed e \<Rightarrow> Inl e
      | NoInput \<Rightarrow> Inl JsonEOF
      | CutShort \<Rightarrow> Inl (JsonOther ''unexpected EOF''))"

definition decode_at_end :: "string \<Rightarrow> bool" where
  "decode_at_end body =
     (case read_value (limit_error body) (limited body) of
        Decoded v rest \<Rightarrow> (case read_value (limit_error body) rest of NoInput \<Rightarrow> True | _ \<Rightarrow> False)
      | _ \<Rightarrow> False)"

text \<open>The JSON a client writes by the tags of the struct: \<open>omitempty\<close> leaves zero values out.\<close>

definition request_value :: "createRuleRequest \<Rightarrow> json" where
  "request_value q = JObject
     ([(''url'', JString (cr_URL q))]
      @ (if cr_Alias q = [] then [] else [(''alias'', JString (cr_Alias q))])
      @ (if cr_TTLSeconds q = 0 then [] else [(''ttl_seconds'', JNumber (show_int (cr_TTLSeconds q)))])
      @ (if cr_MaxUsages q = 0 then [] else [(''max_usages'', JNumber (show_int (cr_MaxUsages q)))]))"

definition request_json :: "createRuleRequest \<Rightarrow> string" where
  "request_json q = json_text (request_value q) @ [CHR 0x0A]"

lemma unmarshal_request:
  assumes "in_int64 (cr_TTLSeconds q)" "in_int64 (cr_MaxUsages q)"
  shows "unmarshal (request_value q) = Inr q"
  using parse_show_int [OF assms(1)] parse_show_int [OF assms(2)]
  by (cases q) (simp add: unmarshal_def request_value_def store_member_def find_field_def field_names_def
      store_field_def set_text_def set_number_def no_request_def)

lemma text_ok_names: "text_ok ''url''" "text_ok ''alias''" "text_ok ''ttl_seconds''" "text_ok ''max_usages''"
  by (rule text_ok_ascii, simp)+

lemma request_json_ok:
  assumes "text_ok (cr_URL q)" "text_ok (cr_Alias q)"
  shows "json_ok (request_value q)" "int (nesting (request_value q)) \<le> max_nesting"
  using assms by (auto simp: request_value_def text_ok_names max_nesting_def)

theorem decode_request_json:
  assumes "text_ok (cr_URL q)" "text_ok (cr_Alias q)" "in_int64 (cr_TTLSeconds q)" "in_int64 (cr_MaxUsages q)"
    "int (length (request_json q)) \<le> jsonBodyLimit"
  shows "decode_first (request_json q) = Inr q" "decode_at_end (request_json q)"
proof -
  note r = read_json_text [OF request_json_ok [OF assms(1,2)], of None "[]", folded request_json_def]
  have l: "limited (request_json q) = request_json q" "limit_error (request_json q) = None"
    using assms(5) by (simp_all add: limited_def limit_error_def)
  have e: "read_value None [CHR 0x0A] = NoInput" by (simp add: read_value_def begin_value_def json_space_def)
  show "decode_first (request_json q) = Inr q"
    by (simp add: decode_first_def l r unmarshal_request [OF assms(3,4)])
  show "decode_at_end (request_json q)" by (simp add: decode_at_end_def l r e)
qed

lemma decode_too_large: "jsonBodyLimit < int (length body) \<Longrightarrow> \<not> decode_at_end body"
  by (auto simp: decode_at_end_def limit_error_def read_value_def split: decode_result.splits scan_result.splits)

end
