(* ===== verification/Spans.thy ===== *)
theory Spans
  imports GoStrings
begin

text \<open>
  What the source uses of a span of OpenTelemetry: its name, attributes, recorded errors and the
  description of the status \<open>codes.Error\<close>, once it is set (a later description replaces it). No key is
  set twice by the source, so the attributes are a list. Ids and exporting belong to the library.
\<close>

datatype attribute =
    BoolAttr string bool
  | Int64Attr string int
  | StringAttr string string

record span =
  sp_Name :: string
  sp_Attributes :: "attribute list"
  sp_Errors :: "string list"
  sp_Status :: "string option"

definition new_span :: "string \<Rightarrow> span" where
  "new_span name = \<lparr>sp_Name = name, sp_Attributes = [], sp_Errors = [], sp_Status = None\<rparr>"

definition SetAttributes :: "attribute list \<Rightarrow> span \<Rightarrow> span" where
  "SetAttributes as sp = sp\<lparr>sp_Attributes := sp_Attributes sp @ as\<rparr>"

definition RecordError :: "string \<Rightarrow> span \<Rightarrow> span" where
  "RecordError e sp = sp\<lparr>sp_Errors := sp_Errors sp @ [e]\<rparr>"

definition SetError :: "string \<Rightarrow> span \<Rightarrow> span" where
  "SetError description sp = sp\<lparr>sp_Status := Some description\<rparr>"

lemma span_simps [simp]:
  "sp_Name (new_span name) = name" "sp_Attributes (new_span name) = []"
  "sp_Errors (new_span name) = []" "sp_Status (new_span name) = None"
  "sp_Name (SetAttributes as sp) = sp_Name sp" "sp_Attributes (SetAttributes as sp) = sp_Attributes sp @ as"
  "sp_Errors (SetAttributes as sp) = sp_Errors sp" "sp_Status (SetAttributes as sp) = sp_Status sp"
  "sp_Name (RecordError e sp) = sp_Name sp" "sp_Attributes (RecordError e sp) = sp_Attributes sp"
  "sp_Errors (RecordError e sp) = sp_Errors sp @ [e]" "sp_Status (RecordError e sp) = sp_Status sp"
  "sp_Name (SetError d sp) = sp_Name sp" "sp_Attributes (SetError d sp) = sp_Attributes sp"
  "sp_Errors (SetError d sp) = sp_Errors sp" "sp_Status (SetError d sp) = Some d"
  by (simp_all add: new_span_def SetAttributes_def RecordError_def SetError_def)

text \<open>\<open>http.StatusText\<close> of the statuses of errors.\<close>

definition status_texts :: "(int \<times> string) list" where
  "status_texts =
     [(400, ''Bad Request''), (401, ''Unauthorized''), (402, ''Payment Required''), (403, ''Forbidden''),
      (404, ''Not Found''), (405, ''Method Not Allowed''), (406, ''Not Acceptable''),
      (407, ''Proxy Authentication Required''), (408, ''Request Timeout''), (409, ''Conflict''), (410, ''Gone''),
      (411, ''Length Required''), (412, ''Precondition Failed''), (413, ''Request Entity Too Large''),
      (414, ''Request URI Too Long''), (415, ''Unsupported Media Type''),
      (416, ''Requested Range Not Satisfiable''), (417, ''Expectation Failed''), (418, ''I'' @ CHR 0x27 # ''m a teapot''),
      (421, ''Misdirected Request''), (422, ''Unprocessable Entity''), (423, ''Locked''),
      (424, ''Failed Dependency''), (425, ''Too Early''), (426, ''Upgrade Required''),
      (428, ''Precondition Required''), (429, ''Too Many Requests''), (431, ''Request Header Fields Too Large''),
      (451, ''Unavailable For Legal Reasons''), (500, ''Internal Server Error''), (501, ''Not Implemented''),
      (502, ''Bad Gateway''), (503, ''Service Unavailable''), (504, ''Gateway Timeout''),
      (505, ''HTTP Version Not Supported''), (506, ''Variant Also Negotiates''), (507, ''Insufficient Storage''),
      (508, ''Loop Detected''), (510, ''Not Extended''), (511, ''Network Authentication Required'')]"

definition StatusText :: "int \<Rightarrow> string" where
  "StatusText status = (case map_of status_texts status of None \<Rightarrow> [] | Some s \<Rightarrow> s)"

end
