(* ===== verification/Http.thy ===== *)
theory Http
  imports Shortener RateLimit Config Metrics JsonBody Spans
begin

text \<open>
  What \<open>net/http\<close> gives to the handlers of \<open>internal/server/server.go\<close> and takes from them:
  requests, the response writer with its status recorders, and handlers as functions on the
  writer and the state of the process.
\<close>

section \<open>Requests\<close>

text \<open>
  A request carries the bytes of its body. The field \<open>q_Now\<close> is the clock during the request,
  \<open>q_Elapsed\<close> what it takes, \<open>q_Random\<close> the random bytes of a new request id, and \<open>q_NewSpan\<close> the ids
  of trace and span that the tracer gives to a span started for it (none when nothing is traced).
  \<open>q_RequestID\<close> and \<open>q_Span\<close> are what the middleware puts into its context.
\<close>

record request =
  q_Method :: string
  q_Path :: string
  q_RawPath :: string
  q_RawQuery :: string
  q_Header :: "string \<Rightarrow> string"
  q_RemoteAddr :: string
  q_Host :: string
  q_TLS :: bool
  q_Body :: string
  q_PathCode :: string
  q_RequestID :: string
  q_Now :: instant
  q_Elapsed :: duration
  q_Random :: "nat list option"
  q_NewSpan :: "(string \<times> string) option"
  q_Span :: "(string \<times> string) option"

section \<open>Responses\<close>

record ruleResponse =
  rr_Code :: string
  rr_ShortURL :: string
  rr_URL :: string
  rr_CreatedAt :: instant
  rr_ExpiresAt :: "instant option"
  rr_MaxUsages :: "int option"
  rr_UsedCount :: int
  rr_LastUsedAt :: "instant option"
  rr_IsExpired :: bool
  rr_ExpiredReason :: string

record healthResponse =
  hr_Status :: string
  hr_Service :: string
  hr_Environment :: string
  hr_Version :: string
  hr_Commit :: string
  hr_BuildTime :: string
  hr_Time :: instant
  hr_Checks :: "(string \<times> string) list"

datatype payload =
    LandingHTML
  | ScalarHTML
  | OpenAPI
  | MetricsText metrics
  | Problem string string
  | RuleBody ruleResponse
  | HealthBody healthResponse
  | PlainText string

text \<open>
  The response writer. The first status that is written is sent with the header of that
  moment; writing a body sends 200 when none was sent. The status recorders that wrap the
  writer, innermost first, each keep the last status written through them.
\<close>

record writer =
  rw_Header :: "string \<rightharpoonup> string"
  rw_Sent :: "(int \<times> (string \<rightharpoonup> string)) option"
  rw_Body :: "payload list"
  rw_Recorders :: "int list"

definition fresh_writer :: writer where
  "fresh_writer = \<lparr>rw_Header = Map.empty, rw_Sent = None, rw_Body = [], rw_Recorders = []\<rparr>"

definition set_header :: "string \<Rightarrow> string \<Rightarrow> writer \<Rightarrow> writer" where
  "set_header k v w = w\<lparr>rw_Header := (rw_Header w)(k \<mapsto> v)\<rparr>"

definition send :: "int \<Rightarrow> writer \<Rightarrow> writer" where
  "send status w =
     (case rw_Sent w of None \<Rightarrow> w\<lparr>rw_Sent := Some (status, rw_Header w)\<rparr> | Some _ \<Rightarrow> w)"

text \<open>\<open>(*statusRecorder).WriteHeader\<close>, for all recorders around the writer, then the writer's own.\<close>

definition WriteHeader :: "int \<Rightarrow> writer \<Rightarrow> writer" where
  "WriteHeader status w = send status (w\<lparr>rw_Recorders := map (\<lambda>_. status) (rw_Recorders w)\<rparr>)"

definition write_body :: "payload \<Rightarrow> writer \<Rightarrow> writer" where
  "write_body p w = (send 200 w)\<lparr>rw_Body := rw_Body w @ [p]\<rparr>"

definition push_recorder :: "writer \<Rightarrow> writer" where
  "push_recorder w = w\<lparr>rw_Recorders := 200 # rw_Recorders w\<rparr>"

definition pop_recorder :: "writer \<Rightarrow> int \<times> writer" where
  "pop_recorder w = (hd (rw_Recorders w), w\<lparr>rw_Recorders := tl (rw_Recorders w)\<rparr>)"

section \<open>Handlers\<close>

datatype log_entry =
    LogRequestFailed string string string svc_error
  | LogLimiterFailed string string
  | LogPanic string string string string
  | LogCompleted string string string string string int duration string string
  | LogCleanupFailed svc_error
  | LogCleanupDeleted int

record ('s, 'l) world =
  w_store :: 's
  w_entropy :: entropy
  w_limiter :: 'l
  w_metrics :: metrics
  w_log :: "log_entry list"
  w_open :: "span list"
  w_spans :: "span list"

datatype outcome = Returned | Panicked string

type_synonym ('s, 'l) handler =
  "request \<Rightarrow> writer \<Rightarrow> ('s, 'l) world \<Rightarrow> outcome \<times> writer \<times> ('s, 'l) world"

definition add_log :: "log_entry \<Rightarrow> ('s, 'l) world \<Rightarrow> ('s, 'l) world" where
  "add_log e st = st\<lparr>w_log := w_log st @ [e]\<rparr>"

definition upd_metrics :: "(metrics \<Rightarrow> metrics) \<Rightarrow> ('s, 'l) world \<Rightarrow> ('s, 'l) world" where
  "upd_metrics f st = st\<lparr>w_metrics := f (w_metrics st)\<rparr>"

text \<open>
  The spans of requests: those that are open, the innermost first, and those that have ended.
\<close>

definition start_span :: "string \<Rightarrow> ('s, 'l) world \<Rightarrow> ('s, 'l) world" where
  "start_span name st = st\<lparr>w_open := new_span name # w_open st\<rparr>"

definition on_span :: "(span \<Rightarrow> span) \<Rightarrow> ('s, 'l) world \<Rightarrow> ('s, 'l) world" where
  "on_span f st = (case w_open st of [] \<Rightarrow> st | sp # sps \<Rightarrow> st\<lparr>w_open := f sp # sps\<rparr>)"

definition end_span :: "('s, 'l) world \<Rightarrow> ('s, 'l) world" where
  "end_span st =
     (case w_open st of [] \<Rightarrow> st | sp # sps \<Rightarrow> st\<lparr>w_open := sps, w_spans := w_spans st @ [sp]\<rparr>)"

section \<open>Facts\<close>

lemma send_simps [simp]:
  "rw_Recorders (send n w) = rw_Recorders w" "rw_Body (send n w) = rw_Body w" "rw_Header (send n w) = rw_Header w"
  "rw_Sent (send n w) = (case rw_Sent w of None \<Rightarrow> Some (n, rw_Header w) | Some s \<Rightarrow> Some s)"
  by (simp_all add: send_def split: option.split)

lemma WriteHeader_simps [simp]:
  "rw_Recorders (WriteHeader n w) = map (\<lambda>_. n) (rw_Recorders w)" "rw_Body (WriteHeader n w) = rw_Body w"
  "rw_Header (WriteHeader n w) = rw_Header w"
  "rw_Sent (WriteHeader n w) = (case rw_Sent w of None \<Rightarrow> Some (n, rw_Header w) | Some s \<Rightarrow> Some s)"
  by (simp_all add: WriteHeader_def split: option.split)

lemma write_body_simps [simp]:
  "rw_Recorders (write_body p w) = rw_Recorders w" "rw_Body (write_body p w) = rw_Body w @ [p]"
  "rw_Header (write_body p w) = rw_Header w"
  "rw_Sent (write_body p w) = (case rw_Sent w of None \<Rightarrow> Some (200, rw_Header w) | Some s \<Rightarrow> Some s)"
  by (simp_all add: write_body_def split: option.split)

lemma set_header_simps [simp]:
  "rw_Recorders (set_header k v w) = rw_Recorders w" "rw_Body (set_header k v w) = rw_Body w"
  "rw_Header (set_header k v w) = (rw_Header w)(k \<mapsto> v)" "rw_Sent (set_header k v w) = rw_Sent w"
  by (simp_all add: set_header_def)

lemma push_recorder_simps [simp]:
  "rw_Recorders (push_recorder w) = 200 # rw_Recorders w" "rw_Body (push_recorder w) = rw_Body w"
  "rw_Header (push_recorder w) = rw_Header w" "rw_Sent (push_recorder w) = rw_Sent w"
  by (simp_all add: push_recorder_def)

lemma add_log_simps [simp]:
  "w_store (add_log e st) = w_store st" "w_entropy (add_log e st) = w_entropy st"
  "w_limiter (add_log e st) = w_limiter st" "w_metrics (add_log e st) = w_metrics st"
  "w_log (add_log e st) = w_log st @ [e]" "w_spans (add_log e st) = w_spans st" "w_open (add_log e st) = w_open st"
  by (simp_all add: add_log_def)

lemma upd_metrics_simps [simp]:
  "w_store (upd_metrics f st) = w_store st" "w_entropy (upd_metrics f st) = w_entropy st"
  "w_limiter (upd_metrics f st) = w_limiter st" "w_metrics (upd_metrics f st) = f (w_metrics st)"
  "w_log (upd_metrics f st) = w_log st" "w_spans (upd_metrics f st) = w_spans st"
  "w_open (upd_metrics f st) = w_open st"
  by (simp_all add: upd_metrics_def)

lemma span_world_simps [simp]:
  "w_store (start_span n st) = w_store st" "w_entropy (start_span n st) = w_entropy st"
  "w_limiter (start_span n st) = w_limiter st" "w_metrics (start_span n st) = w_metrics st"
  "w_log (start_span n st) = w_log st" "w_spans (start_span n st) = w_spans st"
  "w_open (start_span n st) = new_span n # w_open st"
  "w_store (on_span f st) = w_store st" "w_entropy (on_span f st) = w_entropy st"
  "w_limiter (on_span f st) = w_limiter st" "w_metrics (on_span f st) = w_metrics st"
  "w_log (on_span f st) = w_log st" "w_spans (on_span f st) = w_spans st"
  "w_open (on_span f st) = (case w_open st of [] \<Rightarrow> [] | sp # sps \<Rightarrow> f sp # sps)"
  "w_store (end_span st) = w_store st" "w_entropy (end_span st) = w_entropy st"
  "w_limiter (end_span st) = w_limiter st" "w_metrics (end_span st) = w_metrics st"
  "w_log (end_span st) = w_log st" "w_open (end_span st) = tl (w_open st)"
  "w_spans (end_span st) = w_spans st @ take 1 (w_open st)"
  by (simp_all add: start_span_def on_span_def end_span_def split: list.split)

end
