(* ===== verification/Mux.thy ===== *)
theory Mux
  imports Http
begin

text \<open>
  \<open>http.ServeMux\<close> of Go 1.25 with the patterns that \<open>NewHandler\<close> of \<open>internal/server/server.go\<close>
  registers. The mux works on the escaped path of the request: a path that is not clean is
  redirected to the clean one; otherwise the segments are unescaped one by one and matched. A
  literal segment is more specific than a wildcard, and \<open>GET /\<close> matches every path that nothing
  else matches; \<open>GET\<close> patterns also match \<open>HEAD\<close>. A path that matches with another method only is
  answered with 405 by the mux. The configured metrics path is taken as a literal one: wildcards
  and a slash at its end are not modelled.
\<close>

datatype route =
    RLanding | RDocs | ROpenAPI | RLive | RReady | RGenerate | RCreate
  | RGet string | RDelete string | RRedirect string | RMetrics | RMethodNotAllowed
  | RClean string

section \<open>Paths\<close>

fun join_byte :: "char \<Rightarrow> string list \<Rightarrow> string" where
  "join_byte c [] = []"
| "join_byte c [s] = s"
| "join_byte c (s # ss) = s @ c # join_byte c ss"

text \<open>\<open>path.Clean\<close> of a rooted path, as the stack of its elements, and \<open>cleanPath\<close>.\<close>

definition clean_step :: "string \<Rightarrow> string list \<Rightarrow> string list" where
  "clean_step s acc = (if s = [] \<or> s = ''.'' then acc else if s = ''..'' then butlast acc else acc @ [s])"

definition clean_elements :: "string \<Rightarrow> string list" where
  "clean_elements p = fold clean_step (split_byte (CHR ''/'') p) []"

definition clean_path :: "string \<Rightarrow> string" where
  "clean_path p =
     (if p = [] then ''/''
      else
        (let np = CHR ''/'' # join_byte (CHR ''/'') (clean_elements p) in
         if last p = CHR ''/'' \<and> np \<noteq> ''/'' then np @ ''/'' else np))"

text \<open>The segments of a rooted path; one that does not unescape is kept.\<close>

definition path_unescape :: "string \<Rightarrow> string" where
  "path_unescape s = (case unescape s EncPath of Some t \<Rightarrow> t | None \<Rightarrow> s)"

definition path_segments :: "string \<Rightarrow> string list" where
  "path_segments p = map path_unescape (split_byte (CHR ''/'') (tl p))"

section \<open>Patterns\<close>

definition fixed_get_paths :: "(string list \<times> route) list" where
  "fixed_get_paths =
     [([''docs''], RDocs), ([''openapi.yaml''], ROpenAPI), ([''health'', ''live''], RLive),
      ([''health'', ''ready''], RReady), ([''api'', ''v1'', ''generate''], RGenerate)]"

text \<open>The segments that \<open>/api/v1/rules/{code}\<close> and \<open>/r/{code}\<close> match.\<close>

definition wildcard :: "string \<Rightarrow> string option" where
  "wildcard s = (if s = [] \<or> s = ''/'' then None else Some s)"

definition rule_code_of :: "string list \<Rightarrow> string option" where
  "rule_code_of segs =
     (case segs of
        [api_seg, v1, rules, code] \<Rightarrow> if api_seg = ''api'' \<and> v1 = ''v1'' \<and> rules = ''rules'' then wildcard code else None
      | _ \<Rightarrow> None)"

definition redirect_code_of :: "string list \<Rightarrow> string option" where
  "redirect_code_of segs = (case segs of [r, code] \<Rightarrow> if r = ''r'' then wildcard code else None | _ \<Rightarrow> None)"

definition match_route :: "string \<Rightarrow> string \<Rightarrow> string list \<Rightarrow> route" where
  "match_route metricsPath m segs =
     (if m = ''GET'' \<or> m = ''HEAD'' then
        (if segs = path_segments metricsPath then RMetrics
         else case map_of fixed_get_paths segs of
           Some rt \<Rightarrow> rt
         | None \<Rightarrow>
             (case rule_code_of segs of
                Some code \<Rightarrow> RGet code
              | None \<Rightarrow> (case redirect_code_of segs of Some code \<Rightarrow> RRedirect code | None \<Rightarrow> RLanding)))
      else if m = ''POST'' \<and> segs = [''api'', ''v1'', ''rules''] then RCreate
      else if m = ''DELETE'' then (case rule_code_of segs of Some code \<Rightarrow> RDelete code | None \<Rightarrow> RMethodNotAllowed)
      else RMethodNotAllowed)"

definition request_path :: "request \<Rightarrow> string" where
  "request_path r = escaped_path (empty_url\<lparr>u_Path := q_Path r, u_RawPath := q_RawPath r\<rparr>)"

definition route_of :: "string \<Rightarrow> request \<Rightarrow> route" where
  "route_of metricsPath r =
     (let path = request_path r in
      if q_Method r = ''CONNECT'' then RMethodNotAllowed
      else if clean_path path \<noteq> path
        then RClean (url_string (empty_url\<lparr>u_Path := clean_path path, u_RawQuery := q_RawQuery r\<rparr>))
      else match_route metricsPath (q_Method r) (path_segments path))"

text \<open>The methods of the patterns that match the path, in the order of their names.\<close>

definition allowed_methods :: "request \<Rightarrow> string" where
  "allowed_methods r =
     (let segs = path_segments (request_path r) in
      (if rule_code_of segs \<noteq> None then ''DELETE, '' else []) @ ''GET, HEAD''
      @ (if segs = [''api'', ''v1'', ''rules''] then '', POST'' else []))"

lemma route_of_context [simp]:
  "route_of p (r\<lparr>q_RequestID := i\<rparr>) = route_of p r" "route_of p (r\<lparr>q_Span := sp\<rparr>) = route_of p r"
  by (simp_all add: route_of_def request_path_def Let_def)

text \<open>The patterns whose registration panics: one that is taken, or whose path is not clean.\<close>

definition pattern_refused :: "string \<Rightarrow> bool" where
  "pattern_refused path \<longleftrightarrow> clean_path path \<noteq> path \<or> path = ''/'' \<or> map_of fixed_get_paths (path_segments path) \<noteq> None"

section \<open>Cleaning is done once\<close>

lemma split_join:
  "ss \<noteq> [] \<Longrightarrow> list_all (\<lambda>s. c \<notin> set s) ss \<Longrightarrow> split_byte c (join_byte c ss) = ss"
proof (induction c ss rule: join_byte.induct)
  case (2 c s)
  then show ?case by (induction s) auto
next
  case (3 c s s' ss)
  have "split_byte c (s @ c # t) = s # split_byte c t" if "c \<notin> set s" for t
    using that by (induction s) auto
  with 3 show ?case by simp
qed simp

definition tidy_element :: "string \<Rightarrow> bool" where
  "tidy_element s \<longleftrightarrow> s \<noteq> [] \<and> s \<noteq> ''.'' \<and> s \<noteq> ''..'' \<and> CHR ''/'' \<notin> set s"

lemma split_byte_free: "s \<in> set (split_byte c p) \<Longrightarrow> c \<notin> set s"
  by (induction p arbitrary: s) (auto split: if_splits list.splits)

lemma fold_clean_tidy:
  "list_all tidy_element acc \<Longrightarrow> \<forall>s \<in> set ss. CHR ''/'' \<notin> set s \<Longrightarrow> list_all tidy_element (fold clean_step ss acc)"
proof (induction ss arbitrary: acc)
  case (Cons s ss)
  have "list_all tidy_element (clean_step s acc)"
    using Cons.prems by (auto simp: clean_step_def tidy_element_def list_all_iff dest: in_set_butlastD)
  with Cons show ?case by simp
qed simp

lemma clean_elements_tidy: "list_all tidy_element (clean_elements p)"
  unfolding clean_elements_def by (rule fold_clean_tidy) (auto dest: split_byte_free)

lemma fold_clean_id: "list_all tidy_element ss \<Longrightarrow> fold clean_step ss acc = acc @ ss"
  by (induction ss arbitrary: acc) (auto simp: clean_step_def tidy_element_def)

lemma clean_elements_join:
  assumes "list_all tidy_element ss"
  shows "clean_elements (CHR ''/'' # join_byte (CHR ''/'') ss) = ss"
    "clean_elements (CHR ''/'' # join_byte (CHR ''/'') ss @ ''/'') = ss"
proof -
  have free: "list_all (\<lambda>s. CHR ''/'' \<notin> set s) ss" using assms by (auto simp: list_all_iff tidy_element_def)
  have e: "clean_step [] acc = acc" for acc by (simp add: clean_step_def)
  show "clean_elements (CHR ''/'' # join_byte (CHR ''/'') ss) = ss"
    using split_join [OF _ free] fold_clean_id [OF assms, of "[]"] by (cases "ss = []") (simp_all add: clean_elements_def e)
  have "split_byte c (s @ [c]) = split_byte c s @ [[]]" for c s by (induction s) (auto split: list.splits)
  then show "clean_elements (CHR ''/'' # join_byte (CHR ''/'') ss @ ''/'') = ss"
    using split_join [OF _ free] fold_clean_id [OF assms, of "[]"] by (cases "ss = []") (simp_all add: clean_elements_def e)
qed

lemma join_tidy_last: "list_all tidy_element ss \<Longrightarrow> ss \<noteq> [] \<Longrightarrow> join_byte (CHR ''/'') ss \<noteq> [] \<and> last (join_byte (CHR ''/'') ss) \<noteq> CHR ''/''"
proof (induction "CHR ''/''" ss rule: join_byte.induct)
  case (2 s)
  then have "last s \<in> set s" "CHR ''/'' \<notin> set s" "s \<noteq> []" by (simp_all add: tidy_element_def)
  then show ?case by (metis join_byte.simps(2))
qed auto

definition tidy_path :: "string \<Rightarrow> bool" where
  "tidy_path q \<longleftrightarrow> (\<exists>ss. list_all tidy_element ss \<and> (q = CHR ''/'' # join_byte (CHR ''/'') ss
     \<or> ss \<noteq> [] \<and> q = CHR ''/'' # join_byte (CHR ''/'') ss @ ''/''))"

lemma tidy_clean_path: "tidy_path (clean_path p)"
proof -
  have "join_byte (CHR ''/'') [] = []" by simp
  then have "tidy_path ''/''" unfolding tidy_path_def by (intro exI [of _ "[]"]) simp
  then show ?thesis
    using clean_elements_tidy [of p] by (auto simp: clean_path_def Let_def tidy_path_def intro!: exI [of _ "clean_elements p"])
qed

lemma clean_tidy_path:
  assumes "tidy_path q"
  shows "clean_path q = q"
proof -
  obtain ss where ss: "list_all tidy_element ss" "q = CHR ''/'' # join_byte (CHR ''/'') ss
     \<or> ss \<noteq> [] \<and> q = CHR ''/'' # join_byte (CHR ''/'') ss @ ''/''" using assms by (auto simp: tidy_path_def)
  show ?thesis
  proof (cases "ss = []")
    case True
    then have "q = ''/''" using ss(2) by simp
    then show ?thesis by (simp, code_simp)
  next
    case False
    then show ?thesis
      using ss(2) clean_elements_join [OF ss(1)] join_tidy_last [OF ss(1)] by (auto simp: clean_path_def Let_def)
  qed
qed

theorem clean_path_idem: "clean_path (clean_path p) = clean_path p"
  by (rule clean_tidy_path [OF tidy_clean_path])

section \<open>Redirected once\<close>

text \<open>Escaping a path keeps its elements apart.\<close>

definition escape_byte :: "char \<Rightarrow> string" where
  "escape_byte c = (if should_escape c EncPath then percent c else [c])"

lemma escape_path: "escape s EncPath = concat (map escape_byte s)"
  by (simp add: escape_def escape_byte_def [abs_def])

lemma upper_hex_plain: "0 \<le> n \<Longrightarrow> n < 16 \<Longrightarrow> upper_hex n \<noteq> CHR ''/'' \<and> upper_hex n \<noteq> CHR ''.''"
proof -
  assume n: "0 \<le> n" "n < (16 :: int)"
  have "list_all (\<lambda>n. upper_hex n \<noteq> CHR ''/'' \<and> upper_hex n \<noteq> CHR ''.'') [0..15]" by code_simp
  then show ?thesis using n by (simp add: list_all_iff)
qed

lemma escape_byte_cases: "escape_byte c = [c] \<or> (escape_byte c \<noteq> [] \<and> hd (escape_byte c) = CHR ''%'' \<and> CHR ''/'' \<notin> set (escape_byte c))"
proof -
  have "0 \<le> (of_char c :: int)" "(of_char c :: int) < 256" 
    using nat_of_char_less_256 [of c] by (auto simp: of_char_int simp del: nat_of_char_less_256)
  then have "upper_hex (of_char c div 16) \<noteq> CHR ''/''" "upper_hex (of_char c mod 16) \<noteq> CHR ''/''"
    using upper_hex_plain by simp_all
  then show ?thesis by (simp add: escape_byte_def percent_def)
qed

lemma escape_byte_slash: "escape_byte (CHR ''/'') = ''/''"
  by code_simp

lemma escape_marked: "escape s EncPath = s \<or> CHR ''%'' \<in> set (escape s EncPath)"
proof (induction s)
  case (Cons c s)
  have "escape_byte c = [c] \<or> CHR ''%'' \<in> set (escape_byte c)"
    using escape_byte_cases [of c] hd_in_set [of "escape_byte c"] by metis
  moreover have "escape (c # s) EncPath = escape_byte c @ escape s EncPath" by (simp add: escape_path)
  ultimately show ?case using Cons by (metis append_Cons append_Nil in_set_conv_decomp set_append UnCI)
qed (simp add: escape_path)

lemma escape_tidy: "tidy_element s \<Longrightarrow> tidy_element (escape s EncPath)"
proof -
  assume t: "tidy_element s"
  have b: "CHR ''/'' \<notin> set (escape_byte c)" if "c \<noteq> CHR ''/''" for c
    using escape_byte_cases [of c] that by auto
  have "CHR ''/'' \<notin> set s" using t by (simp add: tidy_element_def)
  then have f: "CHR ''/'' \<notin> set (escape s EncPath)"
  proof (induction s)
    case (Cons c s)
    then have "c \<noteq> CHR ''/''" "CHR ''/'' \<notin> set (escape s EncPath)" by (metis list.set_intros(1), metis list.set_intros(2))
    from b [OF this(1)] this(2) show ?case by (simp add: escape_path)
  qed (simp add: escape_path)
  show ?thesis
  proof (cases "escape s EncPath = s")
    case False
    then have m: "CHR ''%'' \<in> set (escape s EncPath)" using escape_marked [of s] by blast
    have "CHR ''%'' \<notin> set x" if "x \<in> {[], ''.'', ''..''}" for x using that by (elim insertE) simp_all
    with m have "escape s EncPath \<notin> {[], ''.'', ''..''}" by blast
    then show ?thesis using f unfolding tidy_element_def by blast
  qed (use t in simp)
qed

lemma escape_join: "escape (join_byte (CHR ''/'') ss) EncPath = join_byte (CHR ''/'') (map (\<lambda>s. escape s EncPath) ss)"
  by (induction "CHR ''/''" ss rule: join_byte.induct) (simp_all add: escape_path escape_byte_slash)

lemma escape_tidy_path:
  assumes "tidy_path q"
  shows "tidy_path (escape q EncPath)"
proof -
  obtain ss where ss: "list_all tidy_element ss" "q = CHR ''/'' # join_byte (CHR ''/'') ss
     \<or> ss \<noteq> [] \<and> q = CHR ''/'' # join_byte (CHR ''/'') ss @ ''/''" using assms by (auto simp: tidy_path_def)
  have e: "escape (CHR ''/'' # s) EncPath = CHR ''/'' # escape s EncPath" "escape (s @ ''/'') EncPath = escape s EncPath @ ''/''" for s
    by (simp_all add: escape_path escape_byte_slash)
  show ?thesis unfolding tidy_path_def
    by (rule exI [of _ "map (\<lambda>s. escape s EncPath) ss"])
      (use ss in \<open>auto simp: e escape_join escape_path [of "[]"] list_all_iff intro: escape_tidy\<close>)
qed

lemma clean_redirect:
  assumes "route_of m r = RClean loc"
  obtains v where "loc = url_string v" "v = empty_url\<lparr>u_Path := clean_path (request_path r), u_RawQuery := q_RawQuery r\<rparr>"
    "clean_path (escaped_path v) = escaped_path v" "clean_path (request_path r) \<noteq> request_path r"
proof -
  let ?v = "empty_url\<lparr>u_Path := clean_path (request_path r), u_RawQuery := q_RawQuery r\<rparr>"
  have "clean_path (request_path r) \<noteq> ''*''"
    using tidy_clean_path [of "request_path r"] by (auto simp: tidy_path_def)
  then have "escaped_path ?v = escape (clean_path (request_path r)) EncPath"
    by (simp add: escaped_path_def empty_url_def)
  then have "clean_path (escaped_path ?v) = escaped_path ?v"
    using clean_tidy_path [OF escape_tidy_path [OF tidy_clean_path]] by simp
  moreover have "loc = url_string ?v \<and> clean_path (request_path r) \<noteq> request_path r"
    using assms by (auto simp: route_of_def match_route_def Let_def fixed_get_paths_def split: if_splits option.splits)
  ultimately show thesis using that by blast
qed

end
