(* ===== verification/Server.thy ===== *)
theory Server
  imports Mux
begin

text \<open>
  \<open>internal/server/server.go\<close>: the handlers, the middleware around them and what the mux calls. A
  handler is a function on the response writer and the state of the process; a call that can
  panic returns the panic as its outcome. Of the spans, those of requests are here; Tracing has those
  of the service's methods.
\<close>

record ('s, 'l) api =
  a_cfg :: config
  a_service :: "'s service"
  a_limiter :: "'l limiter_ops"

section \<open>Clients and proxies\<close>

definition forwardedHeadersTrusted :: "prefix list \<Rightarrow> request \<Rightarrow> bool" where
  "forwardedHeadersTrusted proxies r =
     (if proxies = [] then False
      else
        (let host = (case split_host_port (q_RemoteAddr r) of
               Some (h, _) \<Rightarrow> h | None \<Rightarrow> q_RemoteAddr r)
         in case parse_addr (trim_space host) of
              None \<Rightarrow> False
            | Some addr \<Rightarrow> list_ex (\<lambda>p. prefix_contains p addr) proxies))"

definition clientIP :: "prefix list \<Rightarrow> request \<Rightarrow> string" where
  "clientIP proxies r =
     (let forwarded = trim_space (hd (split_byte (CHR '','') (q_Header r ''X-Forwarded-For'')));
          realIP = trim_space (q_Header r ''X-Real-Ip'')
      in if forwardedHeadersTrusted proxies r \<and> forwarded \<noteq> [] then forwarded
         else if forwardedHeadersTrusted proxies r \<and> realIP \<noteq> [] then realIP
         else
           (case split_host_port (q_RemoteAddr r) of
              Some (host, _) \<Rightarrow> if host \<noteq> [] then host else q_RemoteAddr r
            | None \<Rightarrow> q_RemoteAddr r))"

definition publicBaseURL :: "config \<Rightarrow> request \<Rightarrow> string" where
  "publicBaseURL cfg r =
     (if c_BaseURL cfg \<noteq> [] then c_BaseURL cfg
      else
        (let scheme0 = (if q_TLS r then ''https'' else ''http'');
             host0 = q_Host r;
             forwardedProto = trim_space (q_Header r ''X-Forwarded-Proto'');
             forwardedHost = trim_space (q_Header r ''X-Forwarded-Host'');
             trusted = forwardedHeadersTrusted (c_TrustedProxies cfg) r;
             scheme = (if trusted \<and> forwardedProto \<noteq> [] then forwardedProto else scheme0);
             host = (if trusted \<and> forwardedHost \<noteq> [] then forwardedHost else host0)
         in scheme @ ''://'' @ host))"

section \<open>Writing answers\<close>

definition writeJSON :: "int \<Rightarrow> payload \<Rightarrow> writer \<Rightarrow> writer" where
  "writeJSON status p w =
     write_body p (WriteHeader status (set_header ''Content-Type'' ''application/json; charset=utf-8'' w))"

definition writeProblem :: "int \<Rightarrow> string \<Rightarrow> string \<Rightarrow> writer \<Rightarrow> writer" where
  "writeProblem status code message w = writeJSON status (Problem code message) w"

definition decodeJSONError :: "json_error \<Rightarrow> string" where
  "decodeJSONError err =
     (case err of
        JsonEOF \<Rightarrow> ''request body is required''
      | JsonSyntax offset \<Rightarrow> ''invalid JSON at byte '' @ show_int offset
      | JsonType field \<Rightarrow>
          if field \<noteq> [] then ''field '' @ quote field @ '' has the wrong type''
          else ''request body contains an invalid value''
      | JsonOther e \<Rightarrow> if has_prefix e ''json: unknown field '' then trim_prefix e ''json: '' else e)"

definition writeServiceError ::
  "('s, 'l) api \<Rightarrow> request \<Rightarrow> svc_error \<Rightarrow> writer \<Rightarrow> ('s, 'l) world \<Rightarrow> writer \<times> ('s, 'l) world" where
  "writeServiceError a r err w st =
     (case err of
        ValidationError f m \<Rightarrow> (writeProblem 400 ''validation_error'' (error_text err) w, st)
      | ExpiredError rule reason \<Rightarrow>
          (writeProblem 410 ''rule_expired''
             (''rule '' @ quote (r_Code rule) @ '' expired because '' @ reason) w, st)
      | ErrNotFound \<Rightarrow> (writeProblem 404 ''not_found'' ''rule not found'' w, st)
      | ErrAlreadyExists \<Rightarrow> (writeProblem 409 ''already_exists'' ''rule alias already exists'' w, st)
      | OtherError m \<Rightarrow>
          (writeProblem 500 ''internal_error'' ''internal server error'' w,
           add_log (LogRequestFailed (q_Path r) (q_RequestID r)
             (clientIP (c_TrustedProxies (a_cfg a)) r) err) st))"

definition ruleResponse_of :: "('s, 'l) api \<Rightarrow> request \<Rightarrow> rule \<Rightarrow> ruleResponse" where
  "ruleResponse_of a r rule =
     (let (isExpired, reason) = Expired rule (svc_Now (a_service a) (q_Now r)) in
      \<lparr>rr_Code = r_Code rule, rr_ShortURL = BuildShortURL (publicBaseURL (a_cfg a) r) (r_Code rule),
       rr_URL = r_URL rule, rr_CreatedAt = r_CreatedAt rule, rr_ExpiresAt = r_ExpiresAt rule,
       rr_MaxUsages = r_MaxUsages rule, rr_UsedCount = r_UsedCount rule,
       rr_LastUsedAt = r_LastUsedAt rule, rr_IsExpired = isExpired, rr_ExpiredReason = reason\<rparr>)"

definition healthResponse_of ::
  "('s, 'l) api \<Rightarrow> request \<Rightarrow> string \<Rightarrow> (string \<times> string) list \<Rightarrow> healthResponse" where
  "healthResponse_of a r status checks =
     \<lparr>hr_Status = status, hr_Service = c_ServiceName (a_cfg a), hr_Environment = c_Environment (a_cfg a),
      hr_Version = bi_Version buildinfo_Current, hr_Commit = bi_Commit buildinfo_Current,
      hr_BuildTime = bi_BuildTime buildinfo_Current, hr_Time = q_Now r, hr_Checks = checks\<rparr>"

section \<open>Handlers\<close>

definition handleLanding :: "('s, 'l) handler" where
  "handleLanding r w st =
     (Returned, write_body LandingHTML (WriteHeader 200 (set_header ''Content-Type'' ''text/html; charset=utf-8'' w)), st)"

definition handleDocs :: "('s, 'l) handler" where
  "handleDocs r w st =
     (Returned, write_body ScalarHTML (WriteHeader 200 (set_header ''Content-Type'' ''text/html; charset=utf-8'' w)), st)"

definition handleOpenAPI :: "('s, 'l) handler" where
  "handleOpenAPI r w st =
     (Returned, write_body OpenAPI (WriteHeader 200 (set_header ''Content-Type'' ''application/yaml; charset=utf-8'' w)), st)"

definition handleLive :: "('s, 'l) api \<Rightarrow> ('s, 'l) handler" where
  "handleLive a r w st =
     (Returned, writeJSON 200 (HealthBody (healthResponse_of a r ''ok'' [(''process'', ''alive'')])) w, st)"

definition handleReady :: "('s, 'l) api \<Rightarrow> ('s, 'l) handler" where
  "handleReady a r w st =
     (case svc_Ping (a_service a) (w_store st) of
        (Inl e, s') \<Rightarrow>
          (Returned, writeJSON 503 (HealthBody (healthResponse_of a r ''degraded'' [(''store'', error_text e)])) w,
           st\<lparr>w_store := s'\<rparr>)
      | (Inr _, s') \<Rightarrow>
          (case lim_Ping (a_limiter a) (w_limiter st) of
             (Inl e, l') \<Rightarrow>
               (Returned, writeJSON 503 (HealthBody (healthResponse_of a r ''degraded'' [(''rate_limiter'', e)])) w,
                st\<lparr>w_store := s', w_limiter := l'\<rparr>)
           | (Inr _, l') \<Rightarrow>
               (Returned, writeJSON 200
                  (HealthBody (healthResponse_of a r ''ok'' [(''store'', ''reachable''), (''rate_limiter'', ''reachable'')])) w,
                st\<lparr>w_store := s', w_limiter := l'\<rparr>)))"

definition createRule :: "('s, 'l) api \<Rightarrow> createRuleRequest \<Rightarrow> ('s, 'l) handler" where
  "createRule a req r w st =
     (case svc_CreateRule (a_service a) (q_Now r)
             \<lparr>in_URL = cr_URL req, in_Alias = cr_Alias req, in_TTLSeconds = cr_TTLSeconds req,
              in_MaxUsages = cr_MaxUsages req\<rparr> (w_store st, w_entropy st) of
        (Inl e, (s', src')) \<Rightarrow>
          (case writeServiceError a r e w (st\<lparr>w_store := s', w_entropy := src'\<rparr>) of
             (w', st') \<Rightarrow> (Returned, w', st'))
      | (Inr rule, (s', src')) \<Rightarrow>
          (Returned, writeJSON 201 (RuleBody (ruleResponse_of a r rule)) w,
           st\<lparr>w_store := s', w_entropy := src'\<rparr>))"

text \<open>An optional integer of the query: \<open>None\<close> where the text is not one.\<close>

definition query_int :: "string \<Rightarrow> int option" where
  "query_int raw = (let s = trim_space raw in if s = [] then Some 0 else parse_int64 s)"

definition requestFromQuery :: "request \<Rightarrow> string + createRuleRequest" where
  "requestFromQuery r =
     (let q = q_RawQuery r in
      case query_int (query_get q ''ttl_seconds'') of
        None \<Rightarrow> Inl ''ttl_seconds must be an integer''
      | Some ttl \<Rightarrow>
          (case query_int (query_get q ''max_usages'') of
             None \<Rightarrow> Inl ''max_usages must be an integer''
           | Some usages \<Rightarrow>
               Inr \<lparr>cr_URL = trim_space (query_get q ''url''), cr_Alias = trim_space (query_get q ''alias''),
                 cr_TTLSeconds = ttl, cr_MaxUsages = usages\<rparr>))"

definition handleGenerate :: "('s, 'l) api \<Rightarrow> ('s, 'l) handler" where
  "handleGenerate a r w st =
     (case requestFromQuery r of
        Inl e \<Rightarrow> (Returned, writeProblem 400 ''invalid_request'' e w, st)
      | Inr req \<Rightarrow> createRule a req r w st)"

definition handleCreateRule :: "('s, 'l) api \<Rightarrow> ('s, 'l) handler" where
  "handleCreateRule a r w st =
     (case decode_first (q_Body r) of
        Inl e \<Rightarrow> (Returned, writeProblem 400 ''invalid_json'' (decodeJSONError e) w, st)
      | Inr req \<Rightarrow>
          if \<not> decode_at_end (q_Body r)
          then (Returned, writeProblem 400 ''invalid_json'' ''request body must contain a single JSON object'' w, st)
          else createRule a req r w st)"

definition handleGetRule :: "('s, 'l) api \<Rightarrow> ('s, 'l) handler" where
  "handleGetRule a r w st =
     (case svc_GetRule (a_service a) (q_PathCode r) (w_store st) of
        (Inl e, s') \<Rightarrow>
          (case writeServiceError a r e w (st\<lparr>w_store := s'\<rparr>) of (w', st') \<Rightarrow> (Returned, w', st'))
      | (Inr rule, s') \<Rightarrow>
          (Returned, writeJSON 200 (RuleBody (ruleResponse_of a r rule)) w, st\<lparr>w_store := s'\<rparr>))"

definition handleDeleteRule :: "('s, 'l) api \<Rightarrow> ('s, 'l) handler" where
  "handleDeleteRule a r w st =
     (case svc_DeleteRule (a_service a) (q_PathCode r) (w_store st) of
        (Inl e, s') \<Rightarrow>
          (case writeServiceError a r e w (st\<lparr>w_store := s'\<rparr>) of (w', st') \<Rightarrow> (Returned, w', st'))
      | (Inr _, s') \<Rightarrow> (Returned, WriteHeader 204 w, st\<lparr>w_store := s'\<rparr>))"

text \<open>\<open>http.Redirect\<close> to an absolute URL, with the escaping of bytes outside ASCII.\<close>

definition lower_hex :: "int \<Rightarrow> char" where
  "lower_hex n = (if n < 10 then char_of (n + 48) else char_of (n + 87))"

definition hex_byte :: "int \<Rightarrow> string" where
  "hex_byte n = [lower_hex (n div 16), lower_hex (n mod 16)]"

definition hexEscapeNonASCII :: "string \<Rightarrow> string" where
  "hexEscapeNonASCII s =
     concat (map (\<lambda>c. if 128 \<le> (of_char c :: int) then CHR ''%'' # hex_byte (of_char c) else [c]) s)"

definition http_Redirect :: "request \<Rightarrow> string \<Rightarrow> int \<Rightarrow> writer \<Rightarrow> writer" where
  "http_Redirect r url code w =
     (let hadCT = rw_Header w ''Content-Type'' \<noteq> None;
          w1 = set_header ''Location'' (hexEscapeNonASCII url) w;
          body_wanted = (q_Method r = ''GET'' \<or> q_Method r = ''HEAD'');
          w2 = (if \<not> hadCT \<and> body_wanted then set_header ''Content-Type'' ''text/html; charset=utf-8'' w1 else w1);
          w3 = WriteHeader code w2
      in if \<not> hadCT \<and> q_Method r = ''GET'' then write_body (PlainText url) w3 else w3)"

definition redirect_result :: "svc_error \<Rightarrow> string" where
  "redirect_result err =
     (case err of ExpiredError _ _ \<Rightarrow> ''expired'' | ErrNotFound \<Rightarrow> ''not_found'' | _ \<Rightarrow> ''error'')"

definition handleRedirect :: "('s, 'l) api \<Rightarrow> ('s, 'l) handler" where
  "handleRedirect a r w st =
     (case svc_ResolveRule (a_service a) (q_Now r) (q_PathCode r) (w_store st) of
        (Inl e, s') \<Rightarrow>
          (case writeServiceError a r e w (upd_metrics (IncRedirect (redirect_result e)) (st\<lparr>w_store := s'\<rparr>)) of
             (w', st') \<Rightarrow> (Returned, w', st'))
      | (Inr rule, s') \<Rightarrow>
          (Returned, http_Redirect r (r_URL rule) 302 w,
           upd_metrics (IncRedirect ''success'') (st\<lparr>w_store := s'\<rparr>)))"

definition handleMetrics :: "('s, 'l) handler" where
  "handleMetrics r w st =
     (Returned, write_body (MetricsText (w_metrics st)) (set_header ''Content-Type'' ''text/plain'' w), st)"

section \<open>Middleware\<close>

definition withRateLimit :: "('s, 'l) api \<Rightarrow> string \<Rightarrow> ('s, 'l) handler \<Rightarrow> ('s, 'l) handler" where
  "withRateLimit a route next_h r w st =
     (case lim_Allow (a_limiter a) (q_Now r) (clientIP (c_TrustedProxies (a_cfg a)) r) (w_limiter st) of
        (Inl e, l') \<Rightarrow>
          (Returned, writeProblem 503 ''rate_limiter_unavailable'' ''rate limiter backend is unavailable'' w,
           add_log (LogLimiterFailed (q_RequestID r) e) (st\<lparr>w_limiter := l'\<rparr>))
      | (Inr allowed, l') \<Rightarrow>
          if \<not> allowed
          then (Returned, writeProblem 429 ''rate_limited'' ''generation rate limit exceeded'' w,
                upd_metrics (IncRateLimited route) (st\<lparr>w_limiter := l'\<rparr>))
          else next_h r w (st\<lparr>w_limiter := l'\<rparr>))"

definition admin_token_of :: "request \<Rightarrow> string" where
  "admin_token_of r =
     (let token = trim_space (trim_prefix (q_Header r ''Authorization'') ''Bearer '') in
      if token = [] then trim_space (q_Header r ''X-Api-Key'') else token)"

definition withAdminAuth :: "('s, 'l) api \<Rightarrow> ('s, 'l) handler \<Rightarrow> ('s, 'l) handler" where
  "withAdminAuth a next_h =
     (if c_AdminToken (a_cfg a) = [] then next_h
      else (\<lambda>r w st.
        if admin_token_of r \<noteq> c_AdminToken (a_cfg a)
        then (Returned,
              writeProblem 401 ''admin_auth_required'' ''valid admin token is required''
                (set_header ''Www-Authenticate'' (''Bearer realm='' @ quote ''i8sl-admin'') w),
              upd_metrics IncAdminAuthFailure st)
        else next_h r w st))"

definition instrument :: "string \<Rightarrow> ('s, 'l) handler \<Rightarrow> ('s, 'l) handler" where
  "instrument route next_h r w st =
     (case next_h r (push_recorder w) st of
        (Panicked p, w', st') \<Rightarrow> (Panicked p, snd (pop_recorder w'), st')
      | (Returned, w', st') \<Rightarrow>
          (Returned, snd (pop_recorder w'),
           upd_metrics (ObserveHTTPRequest route (q_Method r) (fst (pop_recorder w')) (q_Elapsed r)) st'))"

definition sanitizeRequestID :: "string \<Rightarrow> string" where
  "sanitizeRequestID value0 =
     (let value = trim_space value0 in
      if value = [] then [] else if 128 < length value then take 128 value else value)"

text \<open>\<open>strconv.FormatInt(n, 16)\<close>.\<close>

function show_hex_nat :: "int \<Rightarrow> string" where
  "show_hex_nat n = (if n < 16 then [lower_hex n] else show_hex_nat (n div 16) @ [lower_hex (n mod 16)])"
  by pat_completeness auto
termination by (relation "measure nat") auto

declare show_hex_nat.simps [simp del]

definition newRequestID :: "request \<Rightarrow> string" where
  "newRequestID r =
     (case q_Random r of
        Some bytes \<Rightarrow> concat (map (\<lambda>b. hex_byte (int b)) bytes)
      | None \<Rightarrow> if q_Now r < 0 then CHR ''-'' # show_hex_nat (- q_Now r) else show_hex_nat (q_Now r))"

definition withRequestID :: "('s, 'l) handler \<Rightarrow> ('s, 'l) handler" where
  "withRequestID next_h r w st =
     (let id0 = sanitizeRequestID (q_Header r ''X-Request-Id'');
          requestID = (if id0 = [] then newRequestID r else id0)
      in next_h (r\<lparr>q_RequestID := requestID\<rparr>) (set_header ''X-Request-Id'' requestID w) st)"

text \<open>The ids of the span in the context; a span that is not recorded has none.\<close>

definition traceIDFromContext :: "request \<Rightarrow> string" where
  "traceIDFromContext r = (case q_Span r of None \<Rightarrow> [] | Some (trace_id, span_id) \<Rightarrow> trace_id)"

definition spanIDFromContext :: "request \<Rightarrow> string" where
  "spanIDFromContext r = (case q_Span r of None \<Rightarrow> [] | Some (trace_id, span_id) \<Rightarrow> span_id)"

definition withLogging :: "('s, 'l) api \<Rightarrow> ('s, 'l) handler \<Rightarrow> ('s, 'l) handler" where
  "withLogging a next_h r w st =
     (case next_h r (push_recorder w) st of
        (Panicked p, w', st') \<Rightarrow> (Panicked p, snd (pop_recorder w'), st')
      | (Returned, w', st') \<Rightarrow>
          (Returned, snd (pop_recorder w'),
           add_log (LogCompleted (q_RequestID r) (traceIDFromContext r) (spanIDFromContext r) (q_Method r) (q_Path r)
             (fst (pop_recorder w')) (q_Elapsed r)
             (clientIP (c_TrustedProxies (a_cfg a)) r) (q_Header r ''User-Agent'')) st'))"

definition withRecovery :: "('s, 'l) api \<Rightarrow> ('s, 'l) handler \<Rightarrow> ('s, 'l) handler" where
  "withRecovery a next_h r w st =
     (case next_h r w st of
        (Returned, w', st') \<Rightarrow> (Returned, w', st')
      | (Panicked p, w', st') \<Rightarrow>
          (let st1 = on_span (\<lambda>sp. SetError ''panic recovered'' (RecordError (''panic: '' @ p) sp)) st' in
           (Returned, writeProblem 500 ''internal_error'' ''internal server error'' w',
            add_log (LogPanic (q_RequestID r) (q_Path r) (clientIP (c_TrustedProxies (a_cfg a)) r) p) st1)))"

text \<open>The attributes of the span of a request.\<close>

definition http_attributes :: "request \<Rightarrow> int \<Rightarrow> attribute list" where
  "http_attributes r status =
     [StringAttr ''http.method'' (q_Method r), StringAttr ''http.route'' (q_Path r),
      StringAttr ''http.request_id'' (q_RequestID r), Int64Attr ''http.status_code'' status]"

definition withTracing :: "('s, 'l) handler \<Rightarrow> ('s, 'l) handler" where
  "withTracing next_h r w st =
     (case next_h (r\<lparr>q_Span := q_NewSpan r\<rparr>) (push_recorder w) (start_span (q_Method r @ '' '' @ q_Path r) st) of
        (Panicked p, w', st') \<Rightarrow> (Panicked p, snd (pop_recorder w'), end_span st')
      | (Returned, w', st') \<Rightarrow>
          (let status = fst (pop_recorder w');
               st1 = on_span (SetAttributes (http_attributes r status)) st';
               st2 = (if 400 \<le> status then on_span (SetError (StatusText status)) st1 else st1)
           in (Returned, snd (pop_recorder w'), end_span st2)))"

section \<open>Routing\<close>

text \<open>A path that is not clean is sent on by the mux itself, outside the counters of the routes.\<close>

definition handleClean :: "string \<Rightarrow> ('s, 'l) handler" where
  "handleClean loc r w st = (Returned, http_Redirect r loc 301 w, st)"

definition methodNotAllowed :: "('s, 'l) handler" where
  "methodNotAllowed r w st =
     (Returned, write_body (PlainText ''Method Not Allowed'') (WriteHeader 405
        (set_header ''X-Content-Type-Options'' ''nosniff'' (set_header ''Content-Type'' ''text/plain; charset=utf-8''
          (set_header ''Allow'' (allowed_methods r) w)))), st)"

definition handler_of :: "('s, 'l) api \<Rightarrow> route \<Rightarrow> ('s, 'l) handler" where
  "handler_of a rt =
     (case rt of
        RLanding \<Rightarrow> instrument ''landing'' handleLanding
      | RDocs \<Rightarrow> instrument ''docs'' handleDocs
      | ROpenAPI \<Rightarrow> instrument ''openapi'' handleOpenAPI
      | RLive \<Rightarrow> instrument ''health_live'' (handleLive a)
      | RReady \<Rightarrow> instrument ''health_ready'' (handleReady a)
      | RGenerate \<Rightarrow> instrument ''generate_query'' (withRateLimit a ''generate_query'' (handleGenerate a))
      | RCreate \<Rightarrow> instrument ''create_rule'' (withRateLimit a ''create_rule'' (handleCreateRule a))
      | RGet _ \<Rightarrow> instrument ''get_rule'' (handleGetRule a)
      | RDelete _ \<Rightarrow> instrument ''delete_rule'' (withAdminAuth a (handleDeleteRule a))
      | RRedirect _ \<Rightarrow> instrument ''redirect'' (handleRedirect a)
      | RMetrics \<Rightarrow> instrument ''metrics'' handleMetrics
      | RMethodNotAllowed \<Rightarrow> methodNotAllowed
      | RClean loc \<Rightarrow> handleClean loc)"

definition path_code :: "route \<Rightarrow> string" where
  "path_code rt = (case rt of RGet c \<Rightarrow> c | RDelete c \<Rightarrow> c | RRedirect c \<Rightarrow> c | _ \<Rightarrow> [])"

definition mux :: "('s, 'l) api \<Rightarrow> ('s, 'l) handler" where
  "mux a r w st =
     (let rt = route_of (c_MetricsPath (a_cfg a)) r in
      handler_of a rt (r\<lparr>q_PathCode := path_code rt\<rparr>) w st)"

definition serve :: "('s, 'l) api \<Rightarrow> ('s, 'l) handler" where
  "serve a = withRequestID (withTracing (withRecovery a (withLogging a (mux a))))"

text \<open>
  \<open>NewHandler\<close>, with the limiter it goes on with: a limiter that is not given (\<open>nil\<close>) is one in
  memory. Registering a pattern twice, or one that no request can match, panics: a metrics path
  that is already taken or not clean ends the process at its start.
\<close>

definition NewHandler ::
  "'b bucket_ops \<Rightarrow> config \<Rightarrow> 's service \<Rightarrow> 'b any_limiter option
    \<Rightarrow> string + ('s, 'b any_limiter) api \<times> 'b any_limiter \<times> metrics" where
  "NewHandler bk cfg0 service given =
     (let cfg = (if c_MetricsPath cfg0 = [] then cfg0\<lparr>c_MetricsPath := ''/metrics''\<rparr> else cfg0);
          rateLimiter = (case given of
            None \<Rightarrow> MemoryLimiter (NewMemory (c_GenerationRatePerMinute cfg) (c_GenerationBurst cfg) (10 * minute))
          | Some l \<Rightarrow> l)
      in if pattern_refused (c_MetricsPath cfg)
         then Inl (''pattern refused: GET '' @ c_MetricsPath cfg)
         else Inr (\<lparr>a_cfg = cfg, a_service = service, a_limiter = any_limiter_ops bk\<rparr>, rateLimiter, metrics_New))"

lemmas handler_defs [http_defs] = handleLanding_def handleDocs_def handleOpenAPI_def handleLive_def
  handleReady_def handleGenerate_def handleCreateRule_def createRule_def handleGetRule_def
  handleDeleteRule_def handleRedirect_def handleMetrics_def methodNotAllowed_def handleClean_def

lemmas middleware_defs [http_defs] = withRateLimit_def withAdminAuth_def instrument_def
  withRequestID_def withLogging_def withRecovery_def withTracing_def

end
