(* ===== verification/ServerFacts.thy ===== *)
theory ServerFacts
  imports Server
begin

text \<open>
  What the handlers and the middleware answer: every request is answered once, with a status
  out of a fixed set, the recorders agree with the status that is sent, and the guards run
  before anything that changes the store.
\<close>

section \<open>One answer per request\<close>

text \<open>
  \<open>answered S w res\<close>: from the writer \<open>w\<close> the result \<open>res\<close> is a return that has sent one status
  of \<open>S\<close>, which all recorders around the writer show, with the request id kept in the header.
\<close>

definition answered :: "int set \<Rightarrow> writer \<Rightarrow> outcome \<times> writer \<times> ('s, 'l) world \<Rightarrow> bool" where
  "answered S w res \<longleftrightarrow> (case res of (oc, w', st') \<Rightarrow> oc = Returned \<and>
     (\<exists>n hdr. rw_Sent w' = Some (n, hdr) \<and> n \<in> S \<and> rw_Recorders w' = map (\<lambda>_. n) (rw_Recorders w)
        \<and> hdr ''X-Request-Id'' = rw_Header w ''X-Request-Id''))"

definition answers :: "int set \<Rightarrow> ('s, 'l) handler \<Rightarrow> bool" where
  "answers S h \<longleftrightarrow> (\<forall>r w st. rw_Sent w = None \<longrightarrow> set (rw_Recorders w) \<subseteq> {200} \<longrightarrow> answered S w (h r w st))"

lemma answersI:
  assumes "\<And>r w st. rw_Sent w = None \<Longrightarrow> set (rw_Recorders w) \<subseteq> {200} \<Longrightarrow> answered S w (h r w st)"
  shows "answers S h"
  using assms by (simp add: answers_def)

lemma answersD:
  "answers S h \<Longrightarrow> rw_Sent w = None \<Longrightarrow> set (rw_Recorders w) \<subseteq> {200} \<Longrightarrow> answered S w (h r w st)"
  by (simp add: answers_def)

lemma answeredI:
  "rw_Sent w' = Some (n, hdr) \<Longrightarrow> n \<in> S \<Longrightarrow> rw_Recorders w' = map (\<lambda>_. n) (rw_Recorders w) \<Longrightarrow>
   hdr ''X-Request-Id'' = rw_Header w ''X-Request-Id'' \<Longrightarrow> answered S w (Returned, w', st')"
  by (simp add: answered_def)

lemma answered_mono: "answered S w res \<Longrightarrow> S \<subseteq> T \<Longrightarrow> answered T w res"
  unfolding answered_def by (cases res) auto

lemma answers_mono: "answers S h \<Longrightarrow> S \<subseteq> T \<Longrightarrow> answers T h"
  using answered_mono unfolding answers_def by blast

lemma writeJSON_simps [simp]:
  "rw_Recorders (writeJSON n p w) = map (\<lambda>_. n) (rw_Recorders w)"
  "rw_Body (writeJSON n p w) = rw_Body w @ [p]"
  "rw_Sent w = None \<Longrightarrow> rw_Sent (writeJSON n p w)
     = Some (n, (rw_Header w)(''Content-Type'' \<mapsto> ''application/json; charset=utf-8''))"
  by (simp_all add: writeJSON_def)

lemma writeProblem_simps [simp]:
  "rw_Recorders (writeProblem n c m w) = map (\<lambda>_. n) (rw_Recorders w)"
  "rw_Body (writeProblem n c m w) = rw_Body w @ [Problem c m]"
  "rw_Sent w = None \<Longrightarrow> rw_Sent (writeProblem n c m w)
     = Some (n, (rw_Header w)(''Content-Type'' \<mapsto> ''application/json; charset=utf-8''))"
  by (simp_all add: writeProblem_def)

text \<open>The status of each error, and the answer that carries it.\<close>

definition error_status :: "svc_error \<Rightarrow> int" where
  "error_status e = (case e of ValidationError _ _ \<Rightarrow> 400 | ErrNotFound \<Rightarrow> 404 | ErrAlreadyExists \<Rightarrow> 409
     | ExpiredError _ _ \<Rightarrow> 410 | OtherError _ \<Rightarrow> 500)"

lemma writeServiceError_writer:
  assumes "rw_Sent w = None" "writeServiceError a r e w st = (w', st')"
  shows "rw_Sent w' = Some (error_status e, (rw_Header w)(''Content-Type'' \<mapsto> ''application/json; charset=utf-8''))"
    "rw_Recorders w' = map (\<lambda>_. error_status e) (rw_Recorders w)"
    "w_store st' = w_store st" "w_entropy st' = w_entropy st" "w_limiter st' = w_limiter st" "w_metrics st' = w_metrics st"
  using assms by (auto simp: writeServiceError_def error_status_def split: svc_error.splits)

lemma error_status_range: "error_status e \<in> {400, 404, 409, 410, 500}"
  by (simp add: error_status_def split: svc_error.split)

section \<open>The handlers\<close>

lemma all_200: "set xs \<subseteq> {200} \<Longrightarrow> xs = map (\<lambda>_. 200) xs"
  by (induction xs) auto

lemma answers_static:
  "answers {200} handleLanding" "answers {200} handleDocs" "answers {200} handleOpenAPI"
  "answers {200} handleMetrics" "answers {200} (handleLive a)" "answers {405} methodNotAllowed"
  by (auto simp: answers_def answered_def http_defs dest: all_200)

lemma answered_json [simp]:
  "rw_Sent w = None \<Longrightarrow> n \<in> S \<Longrightarrow> answered S w (Returned, writeJSON n p w, st)"
  "rw_Sent w = None \<Longrightarrow> n \<in> S \<Longrightarrow> answered S w (Returned, writeProblem n c m w, st)"
  by (simp_all add: answered_def)

lemma answered_error:
  assumes "rw_Sent w = None" "error_status e \<in> S"
  shows "answered S w (Returned, writeServiceError a r e w st)"
proof -
  obtain w' st' where w: "writeServiceError a r e w st = (w', st')" by fastforce
  from writeServiceError_writer(1,2) [OF assms(1) w] assms(2) w show ?thesis by (simp add: answered_def)
qed

lemma answers_handleReady: "answers {200, 503} (handleReady a)"
  by (rule answersI) (simp add: handleReady_def split: prod.split sum.split)

text \<open>The errors that creation can return: never a missing or an expired rule.\<close>

definition store_create_sane :: "'s store_ops \<Rightarrow> bool" where
  "store_create_sane ops \<longleftrightarrow> (\<forall>r s e s'. op_CreateRule ops r s = (Inl e, s') \<longrightarrow>
     (\<exists>m. e = OtherError m) \<or> e = ErrAlreadyExists)"

definition store_read_sane :: "'s store_ops \<Rightarrow> bool" where
  "store_read_sane ops \<longleftrightarrow>
     (\<forall>c s e s'. op_GetRule ops c s = (Inl e, s') \<longrightarrow> (\<exists>m. e = OtherError m) \<or> e = ErrNotFound)
   \<and> (\<forall>c s e s'. op_DeleteRule ops c s = (Inl e, s') \<longrightarrow> (\<exists>m. e = OtherError m) \<or> e = ErrNotFound)
   \<and> (\<forall>c n s e s'. op_ResolveRule ops c n s = (Inl e, s') \<longrightarrow>
        (\<exists>m. e = OtherError m) \<or> e = ErrNotFound \<or> (\<exists>r t. e = ExpiredError r t))"

lemma error_status_simps [simp]:
  "error_status (ValidationError f m) = 400" "error_status ErrNotFound = 404"
  "error_status ErrAlreadyExists = 409" "error_status (ExpiredError r t) = 410" "error_status (OtherError m) = 500"
  by (simp_all add: error_status_def)

lemma store_create_saneD:
  "store_create_sane ops \<Longrightarrow> op_CreateRule ops r s = (Inl e, s') \<Longrightarrow> error_status e \<in> {409, 500}
     \<and> (e \<noteq> ErrAlreadyExists \<longrightarrow> error_status e = 500)"
  unfolding store_create_sane_def by fastforce

lemma store_read_saneD:
  assumes "store_read_sane ops"
  shows "op_GetRule ops c s = (Inl e, s') \<Longrightarrow> error_status e \<in> {404, 500}"
    "op_DeleteRule ops c s = (Inl e, s') \<Longrightarrow> error_status e \<in> {404, 500}"
    "op_ResolveRule ops c n s = (Inl e, s') \<Longrightarrow> error_status e \<in> {404, 410, 500}"
  using assms unfolding store_read_sane_def by fastforce+

lemma create_generated_errors:
  "store_create_sane (svc_store svc) \<Longrightarrow> create_generated k svc r w = (Inl e, w') \<Longrightarrow> error_status e = 500"
proof (induction k svc r w arbitrary: e w' rule: create_generated.induct)
  case (2 k svc r s src)
  then show ?case
    by (auto dest: store_create_saneD split: prod.splits sum.splits if_splits)
qed auto

lemma svc_create_errors:
  assumes "store_create_sane (svc_store svc)" "svc_CreateRule svc wall input w = (Inl e, w')"
  shows "error_status e \<in> {400, 409, 500}"
proof (cases "ruleFromInput (svc_rejectPrivateTargets svc) input (svc_Now svc wall)")
  case (Inl e')
  then show ?thesis using assms(2) ruleFromInput_Inl [OF Inl] by (auto simp: svc_CreateRule_def)
next
  case (Inr r)
  show ?thesis
  proof (cases "r_Code r = []")
    case True
    then have "create_generated 10 svc r w = (Inl e, w')" using assms(2) Inr by (simp add: svc_CreateRule_def)
    then show ?thesis using create_generated_errors [OF assms(1)] by simp
  next
    case False
    then show ?thesis using assms(2) Inr
      by (auto simp: svc_CreateRule_def dest!: store_create_saneD [OF assms(1)] split: prod.splits sum.splits)
  qed
qed

lemma svc_code_errors:
  assumes "store_read_sane (svc_store svc)"
  shows "svc_GetRule svc raw s = (Inl e, s') \<Longrightarrow> error_status e \<in> {400, 404, 500}"
    "svc_DeleteRule svc raw s = (Inl e, s') \<Longrightarrow> error_status e \<in> {400, 404, 500}"
    "svc_ResolveRule svc wall raw s = (Inl e, s') \<Longrightarrow> error_status e \<in> {400, 404, 410, 500}"
  using validateCode_Inl [of raw]
  by (auto simp: svc_GetRule_def svc_DeleteRule_def svc_ResolveRule_def
      dest!: store_read_saneD [OF assms] split: sum.splits)

lemma answers_createRule:
  assumes "store_create_sane (svc_store (a_service a))"
  shows "answers {201, 400, 409, 500} (createRule a req)"
proof (rule answersI)
  fix r :: request and w :: writer and st :: "('a, 'b) world"
  assume w: "rw_Sent w = None"
  obtain res s' src' where c: "svc_CreateRule (a_service a) (q_Now r)
      \<lparr>in_URL = cr_URL req, in_Alias = cr_Alias req, in_TTLSeconds = cr_TTLSeconds req,
       in_MaxUsages = cr_MaxUsages req\<rparr> (w_store st, w_entropy st) = (res, (s', src'))"
    by (metis prod.exhaust)
  show "answered {201, 400, 409, 500} w (createRule a req r w st)"
  proof (cases res)
    case (Inl e)
    then have "error_status e \<in> {201, 400, 409, 500}" using svc_create_errors [OF assms] c by blast
    with c Inl show ?thesis by (simp add: createRule_def) (rule answered_error [OF w], simp)
  next
    case (Inr rule)
    then show ?thesis using w c by (simp add: createRule_def)
  qed
qed

lemma answers_handleGenerate:
  assumes "store_create_sane (svc_store (a_service a))"
  shows "answers {201, 400, 409, 500} (handleGenerate a)"
  using answersD [OF answers_createRule [OF assms]]
  by (intro answersI) (simp add: handleGenerate_def split: sum.split)

lemma answers_handleCreateRule:
  assumes "store_create_sane (svc_store (a_service a))"
  shows "answers {201, 400, 409, 500} (handleCreateRule a)"
  using answersD [OF answers_createRule [OF assms]]
  by (intro answersI) (simp add: handleCreateRule_def split: sum.split)

lemma answers_handleGetRule:
  assumes "store_read_sane (svc_store (a_service a))"
  shows "answers {200, 400, 404, 500} (handleGetRule a)"
proof (rule answersI)
  fix r :: request and w :: writer and st :: "('a, 'b) world"
  assume w: "rw_Sent w = None"
  obtain res s' where c: "svc_GetRule (a_service a) (q_PathCode r) (w_store st) = (res, s')" by fastforce
  show "answered {200, 400, 404, 500} w (handleGetRule a r w st)"
  proof (cases res)
    case (Inl e)
    then have "error_status e \<in> {200, 400, 404, 500}" using svc_code_errors(1) [OF assms] c by blast
    with c Inl show ?thesis by (simp add: handleGetRule_def) (rule answered_error [OF w], simp)
  next
    case (Inr rule)
    then show ?thesis using w c by (simp add: handleGetRule_def)
  qed
qed

lemma answers_handleDeleteRule:
  assumes "store_read_sane (svc_store (a_service a))"
  shows "answers {204, 400, 404, 500} (handleDeleteRule a)"
proof (rule answersI)
  fix r :: request and w :: writer and st :: "('a, 'b) world"
  assume w: "rw_Sent w = None"
  obtain res s' where c: "svc_DeleteRule (a_service a) (q_PathCode r) (w_store st) = (res, s')" by fastforce
  show "answered {204, 400, 404, 500} w (handleDeleteRule a r w st)"
  proof (cases res)
    case (Inl e)
    then have "error_status e \<in> {204, 400, 404, 500}" using svc_code_errors(2) [OF assms] c by blast
    with c Inl show ?thesis by (simp add: handleDeleteRule_def) (rule answered_error [OF w], simp)
  next
    case (Inr u)
    then show ?thesis using w c by (simp add: handleDeleteRule_def answered_def)
  qed
qed

lemma redirect_writer:
  assumes "rw_Sent w = None"
  shows "rw_Sent (http_Redirect r url n w) = Some (n, (rw_Header w)(''Location'' \<mapsto> hexEscapeNonASCII url,
      ''Content-Type'' := (if rw_Header w ''Content-Type'' = None \<and> (q_Method r = ''GET'' \<or> q_Method r = ''HEAD'')
        then Some ''text/html; charset=utf-8'' else rw_Header w ''Content-Type'')))"
    "rw_Recorders (http_Redirect r url n w) = map (\<lambda>_. n) (rw_Recorders w)"
proof -
  have same: "(rw_Header w)(''Location'' \<mapsto> hexEscapeNonASCII url)
    = (rw_Header w)(''Location'' \<mapsto> hexEscapeNonASCII url, ''Content-Type'' := rw_Header w ''Content-Type'')"
    by (simp add: fun_eq_iff)
  show "rw_Sent (http_Redirect r url n w) = Some (n, (rw_Header w)(''Location'' \<mapsto> hexEscapeNonASCII url,
      ''Content-Type'' := (if rw_Header w ''Content-Type'' = None \<and> (q_Method r = ''GET'' \<or> q_Method r = ''HEAD'')
        then Some ''text/html; charset=utf-8'' else rw_Header w ''Content-Type'')))"
    using assms same
    by (cases "rw_Header w ''Content-Type''"; cases "q_Method r = ''GET''"; cases "q_Method r = ''HEAD''")
      (simp_all add: http_Redirect_def Let_def del: fun_upd_apply)
  show "rw_Recorders (http_Redirect r url n w) = map (\<lambda>_. n) (rw_Recorders w)"
    by (simp add: http_Redirect_def Let_def)
qed

lemma answered_redirect: "rw_Sent w = None \<Longrightarrow> n \<in> S \<Longrightarrow> answered S w (Returned, http_Redirect r url n w, st)"
  by (rule answeredI [OF redirect_writer(1)]) (simp_all add: redirect_writer(2))

lemma answers_handleClean: "answers {301} (handleClean loc)"
  by (rule answersI) (simp add: handleClean_def answered_redirect)

lemma answers_handleRedirect:
  assumes "store_read_sane (svc_store (a_service a))"
  shows "answers {302, 400, 404, 410, 500} (handleRedirect a)"
proof (rule answersI)
  fix r :: request and w :: writer and st :: "('a, 'b) world"
  assume w: "rw_Sent w = None"
  obtain res s' where c: "svc_ResolveRule (a_service a) (q_Now r) (q_PathCode r) (w_store st) = (res, s')" by fastforce
  show "answered {302, 400, 404, 410, 500} w (handleRedirect a r w st)"
  proof (cases res)
    case (Inl e)
    then have "error_status e \<in> {302, 400, 404, 410, 500}" using svc_code_errors(3) [OF assms] c by blast
    with c Inl show ?thesis by (simp add: handleRedirect_def) (rule answered_error [OF w], simp)
  next
    case (Inr rule)
    then show ?thesis using w c by (simp add: handleRedirect_def answered_redirect)
  qed
qed

section \<open>The middleware\<close>

lemma answers_withRateLimit: "answers S h \<Longrightarrow> answers (S \<union> {429, 503}) (withRateLimit a route h)"
proof (rule answersI)
  fix r :: request and w :: writer and st :: "('a, 'b) world"
  assume h: "answers S h" and w: "rw_Sent w = None" "set (rw_Recorders w) \<subseteq> {200}"
  have "answered (S \<union> {429, 503}) w (h r w st')" for st'
    by (rule answersD [OF answers_mono [OF h] w]) blast
  then show "answered (S \<union> {429, 503}) w (withRateLimit a route h r w st)"
    using w(1) by (simp add: withRateLimit_def split: prod.split sum.split)
qed

lemma answers_withAdminAuth: "answers S h \<Longrightarrow> answers (S \<union> {401}) (withAdminAuth a h)"
proof (rule answersI)
  fix r :: request and w :: writer and st :: "('a, 'b) world"
  assume h: "answers S h" and w: "rw_Sent w = None" "set (rw_Recorders w) \<subseteq> {200}"
  have "answered (S \<union> {401}) w (h r w st)" by (rule answersD [OF answers_mono [OF h] w]) blast
  then show "answered (S \<union> {401}) w (withAdminAuth a h r w st)"
    using w by (simp add: withAdminAuth_def answered_def)
qed

text \<open>A recorder sees the status that is sent, and so does whatever is done with it.\<close>

lemma answered_push:
  fixes h :: "('s, 'l) handler"
  assumes "answers S h" "rw_Sent w = None" "set (rw_Recorders w) \<subseteq> {200}"
  obtains w' st' n where "h r (push_recorder w) st = (Returned, w', st')" "n \<in> S"
    "fst (pop_recorder w') = n" "\<forall>s :: ('s, 'l) world. answered {n} w (Returned, snd (pop_recorder w'), s)"
proof -
  have "answered S (push_recorder w) (h r (push_recorder w) st)"
    by (rule answersD [OF assms(1)]) (use assms(2,3) in auto)
  then obtain w' st' n hdr where "h r (push_recorder w) st = (Returned, w', st')" "rw_Sent w' = Some (n, hdr)" "n \<in> S"
    "rw_Recorders w' = n # map (\<lambda>_. n) (rw_Recorders w)" "hdr ''X-Request-Id'' = rw_Header w ''X-Request-Id''"
    by (cases "h r (push_recorder w) st") (auto simp: answered_def)
  then show thesis by (intro that) (auto simp: answered_def pop_recorder_def)
qed

lemma answered_state: "answered S w (oc, w', st) \<Longrightarrow> answered S w (oc, w', st')"
  by (simp add: answered_def)

lemma answers_instrument: "answers S h \<Longrightarrow> answers S (instrument route h)"
proof (rule answersI)
  fix r :: request and w :: writer and st :: "('a, 'b) world"
  assume h: "answers S h" and w: "rw_Sent w = None" "set (rw_Recorders w) \<subseteq> {200}"
  obtain w' st' n where "h r (push_recorder w) st = (Returned, w', st')" "n \<in> S"
    "fst (pop_recorder w') = n" "\<forall>s :: ('a, 'b) world. answered {n} w (Returned, snd (pop_recorder w'), s)"
    by (rule answered_push [OF h w, where r = r and st = st])
  then show "answered S w (instrument route h r w st)"
    by (simp add: instrument_def) (blast intro: answered_mono)
qed

lemma answers_withLogging: "answers S h \<Longrightarrow> answers S (withLogging a h)"
proof (rule answersI)
  fix r :: request and w :: writer and st :: "('a, 'b) world"
  assume h: "answers S h" and w: "rw_Sent w = None" "set (rw_Recorders w) \<subseteq> {200}"
  obtain w' st' n where "h r (push_recorder w) st = (Returned, w', st')" "n \<in> S"
    "fst (pop_recorder w') = n" "\<forall>s :: ('a, 'b) world. answered {n} w (Returned, snd (pop_recorder w'), s)"
    by (rule answered_push [OF h w, where r = r and st = st])
  then show "answered S w (withLogging a h r w st)"
    by (simp add: withLogging_def) (blast intro: answered_mono)
qed

lemma answers_withTracing: "answers S h \<Longrightarrow> answers S (withTracing h)"
proof (rule answersI)
  fix r :: request and w :: writer and st :: "('a, 'b) world"
  assume h: "answers S h" and w: "rw_Sent w = None" "set (rw_Recorders w) \<subseteq> {200}"
  obtain w' st' n where "h (r\<lparr>q_Span := q_NewSpan r\<rparr>) (push_recorder w) (start_span (q_Method r @ '' '' @ q_Path r) st)
      = (Returned, w', st')" "n \<in> S"
    "fst (pop_recorder w') = n" "\<forall>s :: ('a, 'b) world. answered {n} w (Returned, snd (pop_recorder w'), s)"
    by (rule answered_push [OF h w, where r = "r\<lparr>q_Span := q_NewSpan r\<rparr>" and st = "start_span (q_Method r @ '' '' @ q_Path r) st"])
  then show "answered S w (withTracing h r w st)"
    by (simp add: withTracing_def Let_def) (blast intro: answered_mono)
qed

lemma answers_withRecovery: "answers S h \<Longrightarrow> answers S (withRecovery a h)"
proof (rule answersI)
  fix r :: request and w :: writer and st :: "('a, 'b) world"
  assume h: "answers S h" and w: "rw_Sent w = None" "set (rw_Recorders w) \<subseteq> {200}"
  obtain w' st' where "h r w st = (Returned, w', st')"
    using answersD [OF h w, of r st] by (cases "h r w st") (simp add: answered_def)
  with answersD [OF h w, of r st] show "answered S w (withRecovery a h r w st)" by (simp add: withRecovery_def)
qed

section \<open>The whole server\<close>

text \<open>The statuses that each route answers with: those that \<open>api/openapi.yaml\<close> documents, and the mux's own.\<close>

definition route_statuses :: "route \<Rightarrow> int set" where
  "route_statuses rt =
     (case rt of
        RGenerate \<Rightarrow> {201, 400, 409, 429, 500, 503}
      | RCreate \<Rightarrow> {201, 400, 409, 429, 500, 503}
      | RGet _ \<Rightarrow> {200, 400, 404, 500}
      | RDelete _ \<Rightarrow> {204, 400, 401, 404, 500}
      | RRedirect _ \<Rightarrow> {302, 400, 404, 410, 500}
      | RReady \<Rightarrow> {200, 503}
      | RMethodNotAllowed \<Rightarrow> {405}
      | RClean _ \<Rightarrow> {301}
      | _ \<Rightarrow> {200})"

lemma answers_handler_of:
  assumes "store_create_sane (svc_store (a_service a))" "store_read_sane (svc_store (a_service a))"
  shows "answers (route_statuses rt) (handler_of a rt)"
proof -
  note c = answers_handleGenerate [OF assms(1), THEN answers_withRateLimit]
    answers_handleCreateRule [OF assms(1), THEN answers_withRateLimit]
    answers_handleDeleteRule [OF assms(2), THEN answers_withAdminAuth]
  show ?thesis
    by (cases rt)
      (auto simp: handler_of_def route_statuses_def answers_static answers_handleReady answers_handleClean
        answers_handleGetRule [OF assms(2)] answers_handleRedirect [OF assms(2)]
        intro!: answers_instrument intro: c [THEN answers_mono])
qed

lemma answers_mux:
  assumes "store_create_sane (svc_store (a_service a))" "store_read_sane (svc_store (a_service a))"
    "rw_Sent w = None" "set (rw_Recorders w) \<subseteq> {200}"
  shows "answered (route_statuses (route_of (c_MetricsPath (a_cfg a)) r)) w (mux a r w st)"
  unfolding mux_def Let_def by (rule answersD [OF answers_handler_of [OF assms(1,2)] assms(3,4)])

end
