(* ===== verification/Serve.thy ===== *)
theory Serve
  imports ServerFacts Demo
begin

text \<open>
  Whole requests: the chain of \<open>NewHandler\<close> around the routes, what each guard lets through,
  and what a client sees of the links in the store.
\<close>

section \<open>The stores return the errors the server expects\<close>

lemma rs_sane:
  "store_create_sane (rs_ops key mk scanRule etext uniq cond upd)"
  "store_read_sane (rs_ops key mk scanRule etext uniq cond upd)"
  unfolding store_create_sane_def store_read_sane_def rs_ops_simps rs_CreateRule_def rs_GetRule_def
    rs_DeleteRule_def rs_ResolveRule_def
  by (auto split: prod.splits sum.splits option.splits if_splits)

lemma sqlite_sane: "store_create_sane sqlite_ops" "store_read_sane sqlite_ops"
  unfolding sqlite_ops_rs by (rule rs_sane)+

lemma postgres_sane: "store_create_sane (postgres_ops ts)" "store_read_sane (postgres_ops ts)"
  unfolding postgres_ops_rs by (rule rs_sane)+

section \<open>Through the chain\<close>

text \<open>The request, the state and the writer as the routed handler gets them.\<close>

definition request_id_of :: "request \<Rightarrow> string" where
  "request_id_of r =
     (let id0 = sanitizeRequestID (q_Header r ''X-Request-Id'') in if id0 = [] then newRequestID r else id0)"

definition route_for :: "('s, 'l) api \<Rightarrow> request \<Rightarrow> route" where
  "route_for a r = route_of (c_MetricsPath (a_cfg a)) r"

definition routed :: "('s, 'l) api \<Rightarrow> request \<Rightarrow> request" where
  "routed a r = r\<lparr>q_RequestID := request_id_of r, q_Span := q_NewSpan r, q_PathCode := path_code (route_for a r)\<rparr>"

definition entered :: "request \<Rightarrow> ('s, 'l) world \<Rightarrow> ('s, 'l) world" where
  "entered r st = start_span (q_Method r @ '' '' @ q_Path r) st"

lemma entered_simps [simp]:
  "w_store (entered r st) = w_store st" "w_entropy (entered r st) = w_entropy st"
  "w_limiter (entered r st) = w_limiter st" "w_metrics (entered r st) = w_metrics st"
  "w_log (entered r st) = w_log st" "w_spans (entered r st) = w_spans st"
  "w_open (entered r st) = new_span (q_Method r @ '' '' @ q_Path r) # w_open st"
  by (simp_all add: entered_def)

definition inner_writer :: "request \<Rightarrow> writer" where
  "inner_writer r = push_recorder (push_recorder (set_header ''X-Request-Id'' (request_id_of r) fresh_writer))"

lemma fresh_writer_simps [simp]:
  "rw_Header fresh_writer = Map.empty" "rw_Sent fresh_writer = None" "rw_Body fresh_writer = []"
  "rw_Recorders fresh_writer = []"
  by (simp_all add: fresh_writer_def)

lemma inner_writer_simps [simp]:
  "rw_Header (inner_writer r) = [''X-Request-Id'' \<mapsto> request_id_of r]" "rw_Sent (inner_writer r) = None"
  "rw_Body (inner_writer r) = []" "rw_Recorders (inner_writer r) = [200, 200]"
  by (simp_all add: inner_writer_def)

lemma routed_simps [simp]:
  "q_Method (routed a r) = q_Method r" "q_Path (routed a r) = q_Path r" "q_RawPath (routed a r) = q_RawPath r"
  "q_Header (routed a r) = q_Header r"
  "q_RawQuery (routed a r) = q_RawQuery r" "q_RemoteAddr (routed a r) = q_RemoteAddr r" "q_Host (routed a r) = q_Host r"
  "q_TLS (routed a r) = q_TLS r" "q_Body (routed a r) = q_Body r" "q_Now (routed a r) = q_Now r"
  "q_Elapsed (routed a r) = q_Elapsed r" "q_RequestID (routed a r) = request_id_of r" "q_Span (routed a r) = q_NewSpan r"
  "q_PathCode (routed a r) = path_code (route_for a r)"
  by (simp_all add: routed_def)

text \<open>The span of a request that is answered with a status.\<close>

definition request_span :: "request \<Rightarrow> int \<Rightarrow> span" where
  "request_span r status =
     \<lparr>sp_Name = q_Method r @ '' '' @ q_Path r,
      sp_Attributes =
        [StringAttr ''http.method'' (q_Method r), StringAttr ''http.route'' (q_Path r),
         StringAttr ''http.request_id'' (request_id_of r), Int64Attr ''http.status_code'' status],
      sp_Errors = [], sp_Status = (if 400 \<le> status then Some (StatusText status) else None)\<rparr>"

text \<open>The ids that the log gives to the span of a request.\<close>

definition trace_id_of :: "request \<Rightarrow> string" where
  "trace_id_of r = traceIDFromContext (r\<lparr>q_Span := q_NewSpan r\<rparr>)"

definition span_id_of :: "request \<Rightarrow> string" where
  "span_id_of r = spanIDFromContext (r\<lparr>q_Span := q_NewSpan r\<rparr>)"

text \<open>The client, the public address and the token do not depend on what the chain adds.\<close>

lemma trusted_cong: "q_RemoteAddr r' = q_RemoteAddr r \<Longrightarrow>
    forwardedHeadersTrusted ps r' = forwardedHeadersTrusted ps r"
  by (simp add: forwardedHeadersTrusted_def cong: option.case_cong)

lemma clientIP_cong: "q_RemoteAddr r' = q_RemoteAddr r \<Longrightarrow> q_Header r' = q_Header r \<Longrightarrow> clientIP ps r' = clientIP ps r"
  using trusted_cong [of r' r ps] by (simp add: clientIP_def Let_def cong: option.case_cong if_cong)

lemma trusted_routed [simp]: "forwardedHeadersTrusted ps (routed a r) = forwardedHeadersTrusted ps r"
  by (rule trusted_cong) simp

lemma clientIP_routed [simp]: "clientIP ps (routed a r) = clientIP ps r"
  by (rule clientIP_cong) simp_all

lemma publicBaseURL_routed [simp]: "publicBaseURL cfg (routed a r) = publicBaseURL cfg r"
  by (simp add: publicBaseURL_def Let_def cong: if_cong)

lemma admin_token_routed [simp]: "admin_token_of (routed a r) = admin_token_of r"
  by (simp add: admin_token_of_def Let_def cong: if_cong)

lemma ruleResponse_routed [simp]: "ruleResponse_of b (routed a r) rule = ruleResponse_of b r rule"
  by (simp add: ruleResponse_of_def)

text \<open>
  What the routed handler does to the store, the random source, the limiter and the counters
  is what the request does; its answer goes out as it is, and is logged with its status.
\<close>

lemma serve_through:
  fixes st :: "('s, 'l) world"
  assumes "handler_of a (route_for a r) (routed a r) (inner_writer r) (entered r st) = (Returned, w1, st1)"
  obtains w2 st2 where "serve a r fresh_writer st = (Returned, w2, st2)"
    "rw_Sent w2 = rw_Sent w1" "rw_Body w2 = rw_Body w1" "rw_Recorders w2 = tl (tl (rw_Recorders w1))"
    "w_store st2 = w_store st1" "w_entropy st2 = w_entropy st1" "w_limiter st2 = w_limiter st1"
    "w_metrics st2 = w_metrics st1"
    "w_log st2 = w_log st1 @ [LogCompleted (request_id_of r) (trace_id_of r) (span_id_of r) (q_Method r) (q_Path r) (hd (rw_Recorders w1))
       (q_Elapsed r) (clientIP (c_TrustedProxies (a_cfg a)) r) (q_Header r ''User-Agent'')]"
    "w_open st1 = w_open (entered r st) \<Longrightarrow>
       w_open st2 = w_open st \<and> w_spans st2 = w_spans st1 @ [request_span r (hd (tl (rw_Recorders w1)))]"
proof -
  define r' where "r' = r\<lparr>q_RequestID := request_id_of r, q_Span := q_NewSpan r\<rparr>"
  define log where "log = LogCompleted (request_id_of r) (trace_id_of r) (span_id_of r) (q_Method r) (q_Path r)
      (hd (rw_Recorders w1)) (q_Elapsed r) (clientIP (c_TrustedProxies (a_cfg a)) r) (q_Header r ''User-Agent'')"
  have m: "mux a r' (inner_writer r) (entered r st) = (Returned, w1, st1)"
    using assms by (simp add: mux_def Let_def route_for_def routed_def r'_def)
  have ip: "clientIP ps r' = clientIP ps r" for ps
    by (rule clientIP_cong) (simp_all add: r'_def)
  have l: "withLogging a (mux a) r' (push_recorder (set_header ''X-Request-Id'' (request_id_of r) fresh_writer)) (entered r st)
      = (Returned, snd (pop_recorder w1), add_log log st1)"
    using m ip [unfolded r'_def] by (simp add: withLogging_def inner_writer_def log_def r'_def trace_id_of_def span_id_of_def
        traceIDFromContext_def spanIDFromContext_def pop_recorder_def)
  obtain st2 where "withTracing (withRecovery a (withLogging a (mux a))) (r\<lparr>q_RequestID := request_id_of r\<rparr>)
      (set_header ''X-Request-Id'' (request_id_of r) fresh_writer) st = (Returned, w1\<lparr>rw_Recorders := tl (tl (rw_Recorders w1))\<rparr>, st2)"
    "w_store st2 = w_store st1" "w_entropy st2 = w_entropy st1" "w_limiter st2 = w_limiter st1"
    "w_metrics st2 = w_metrics st1" "w_log st2 = w_log st1 @ [log]"
    "w_open st1 = w_open (entered r st) \<Longrightarrow>
       w_open st2 = w_open st \<and> w_spans st2 = w_spans st1 @ [request_span r (hd (tl (rw_Recorders w1)))]"
    using l by (simp add: withTracing_def withRecovery_def Let_def pop_recorder_def entered_def r'_def http_attributes_def
        request_span_def new_span_def SetAttributes_def SetError_def)
  moreover have "serve a r fresh_writer st = withTracing (withRecovery a (withLogging a (mux a)))
      (r\<lparr>q_RequestID := request_id_of r\<rparr>) (set_header ''X-Request-Id'' (request_id_of r) fresh_writer) st"
    by (simp add: serve_def withRequestID_def request_id_of_def Let_def)
  ultimately show thesis by (intro that [of "w1\<lparr>rw_Recorders := tl (tl (rw_Recorders w1))\<rparr>" st2]) (simp_all add: log_def)
qed

lemma answers_routed:
  fixes st :: "('s, 'l) world"
  assumes "store_create_sane (svc_store (a_service a))" "store_read_sane (svc_store (a_service a))"
  obtains w1 st1 n hdr where "handler_of a (route_for a r) (routed a r) (inner_writer r) (entered r st) = (Returned, w1, st1)"
    "rw_Sent w1 = Some (n, hdr)" "n \<in> route_statuses (route_for a r)" "rw_Recorders w1 = [n, n]"
    "hdr ''X-Request-Id'' = Some (request_id_of r)"
proof -
  have "answered (route_statuses (route_for a r)) (inner_writer r)
      (handler_of a (route_for a r) (routed a r) (inner_writer r) (entered r st))"
    by (rule answersD [OF answers_handler_of [OF assms]]) simp_all
  then show thesis
    by (cases "handler_of a (route_for a r) (routed a r) (inner_writer r) (entered r st)") (auto simp: answered_def intro: that)
qed

section \<open>The request id\<close>

lemma sanitizeRequestID_length: "length (sanitizeRequestID v) \<le> 128"
  by (simp add: sanitizeRequestID_def Let_def)

lemma hex_bytes_length: "length (concat (map (\<lambda>b. hex_byte (int b)) bytes)) = 2 * length bytes"
  by (induction bytes) (simp_all add: hex_byte_def)

lemma request_id_of_ok:
  assumes "q_Random r = Some bytes" "length bytes = 16"
  shows "request_id_of r \<noteq> []" "length (request_id_of r) \<le> 128"
proof -
  have "length (newRequestID r) = 32"
    using hex_bytes_length [of bytes] assms by (simp add: newRequestID_def)
  then show "request_id_of r \<noteq> []" "length (request_id_of r) \<le> 128"
    using sanitizeRequestID_length [of "q_Header r ''X-Request-Id''"]
    by (auto simp: request_id_of_def Let_def)
qed

section \<open>The handlers leave the spans alone\<close>

definition spanless :: "('s, 'l) handler \<Rightarrow> bool" where
  "spanless h \<longleftrightarrow> (\<forall>r w st. case h r w st of (oc, w', st') \<Rightarrow> w_open st' = w_open st \<and> w_spans st' = w_spans st)"

lemma spanlessD:
  assumes "spanless h" "h r w st = (oc, w', st')"
  shows "w_open st' = w_open st \<and> w_spans st' = w_spans st"
proof -
  have "case h r w st of (oc, w', st') \<Rightarrow> w_open st' = w_open st \<and> w_spans st' = w_spans st"
    using assms(1) [unfolded spanless_def, THEN spec, THEN spec, THEN spec] .
  with assms(2) show ?thesis by simp
qed

lemma spanless_createRule: "spanless (createRule a req)"
  by (auto simp: spanless_def createRule_def writeServiceError_def split: prod.splits sum.splits svc_error.splits)

lemma spanless_handlers:
  "spanless handleLanding" "spanless handleDocs" "spanless handleOpenAPI" "spanless handleMetrics"
  "spanless (handleLive a)" "spanless (handleReady a)" "spanless (handleGetRule a)"
  "spanless (handleDeleteRule a)" "spanless (handleRedirect a)" "spanless methodNotAllowed" "spanless (handleClean loc)"
  by (auto simp: spanless_def http_defs writeServiceError_def split: prod.splits sum.splits svc_error.splits)

lemma spanless_creating: "spanless (handleGenerate a)" "spanless (handleCreateRule a)"
  using spanless_createRule [of a]
  by (auto simp: spanless_def handleGenerate_def handleCreateRule_def split: sum.splits if_splits)

lemma spanless_guards:
  "spanless h \<Longrightarrow> spanless (withRateLimit a route h)" "spanless h \<Longrightarrow> spanless (withAdminAuth a h)"
  "spanless h \<Longrightarrow> spanless (instrument route h)"
  by (auto simp: spanless_def withRateLimit_def withAdminAuth_def instrument_def
      split: prod.splits sum.splits if_splits outcome.splits)

lemma spanless_handler_of: "spanless (handler_of a rt)"
  by (cases rt) (simp_all add: handler_of_def spanless_handlers spanless_creating spanless_guards)

section \<open>Every request is answered and counted\<close>

lemma serve_answered:
  fixes st :: "('s, 'l) world"
  assumes "store_create_sane (svc_store (a_service a))" "store_read_sane (svc_store (a_service a))"
  obtains w2 st2 n hdr where "serve a r fresh_writer st = (Returned, w2, st2)" "rw_Sent w2 = Some (n, hdr)"
    "n \<in> route_statuses (route_for a r)" "rw_Recorders w2 = []" "hdr ''X-Request-Id'' = Some (request_id_of r)"
    "\<exists>log. w_log st2 = log @ [LogCompleted (request_id_of r) (trace_id_of r) (span_id_of r) (q_Method r) (q_Path r) n
       (q_Elapsed r) (clientIP (c_TrustedProxies (a_cfg a)) r) (q_Header r ''User-Agent'')]"
    "w_open st2 = w_open st" "w_spans st2 = w_spans st @ [request_span r n]"
proof -
  obtain w1 st1 n hdr where h: "handler_of a (route_for a r) (routed a r) (inner_writer r) (entered r st) = (Returned, w1, st1)"
    "rw_Sent w1 = Some (n, hdr)" "n \<in> route_statuses (route_for a r)" "rw_Recorders w1 = [n, n]"
    "hdr ''X-Request-Id'' = Some (request_id_of r)"
    by (rule answers_routed [OF assms])
  note spans = spanlessD [OF spanless_handler_of h(1)]
  show thesis
  proof (rule serve_through [OF h(1)], goal_cases)
    case (1 w2 st2)
    then show ?case using h(2-5) spans by (intro that [of w2 st2 n hdr]) auto
  qed
qed

text \<open>The label of each route in the metrics.\<close>

fun route_label :: "route \<Rightarrow> string option" where
  "route_label RLanding = Some ''landing''"
| "route_label RDocs = Some ''docs''"
| "route_label ROpenAPI = Some ''openapi''"
| "route_label RLive = Some ''health_live''"
| "route_label RReady = Some ''health_ready''"
| "route_label RGenerate = Some ''generate_query''"
| "route_label RCreate = Some ''create_rule''"
| "route_label (RGet _) = Some ''get_rule''"
| "route_label (RDelete _) = Some ''delete_rule''"
| "route_label (RRedirect _) = Some ''redirect''"
| "route_label RMetrics = Some ''metrics''"
| "route_label RMethodNotAllowed = None"
| "route_label (RClean _) = None"

text \<open>Handlers do not count requests themselves.\<close>

definition uncounted :: "('s, 'l) handler \<Rightarrow> bool" where
  "uncounted h \<longleftrightarrow> (\<forall>r w st oc w' st'. h r w st = (oc, w', st') \<longrightarrow>
     m_httpRequestsTotal (w_metrics st') = m_httpRequestsTotal (w_metrics st))"

lemma Inc_simps [simp]:
  "m_httpRequestsTotal (IncRedirect k m) = m_httpRequestsTotal m"
  "m_httpRequestsTotal (IncRateLimited k m) = m_httpRequestsTotal m"
  "m_httpRequestsTotal (IncAdminAuthFailure m) = m_httpRequestsTotal m"
  "m_httpRequestsTotal (ObserveHTTPRequest rt meth n d m)
     = count_up (rt, meth, show_int n) (m_httpRequestsTotal m)"
  "m_rateLimitedTotal (IncRateLimited k m) = count_up k (m_rateLimitedTotal m)"
  "m_rateLimitedTotal (ObserveHTTPRequest rt meth n d m) = m_rateLimitedTotal m"
  "m_redirectsTotal (IncRedirect k m) = count_up k (m_redirectsTotal m)"
  "m_redirectsTotal (ObserveHTTPRequest rt meth n d m) = m_redirectsTotal m"
  "m_adminAuthFailures (IncAdminAuthFailure m) = m_adminAuthFailures m + 1"
  "m_adminAuthFailures (ObserveHTTPRequest rt meth n d m) = m_adminAuthFailures m"
  by (simp_all add: IncRedirect_def IncRateLimited_def IncAdminAuthFailure_def ObserveHTTPRequest_def)

lemma writeServiceError_metrics [simp]:
  "w_metrics (snd (writeServiceError a r e w st)) = w_metrics st"
  "w_store (snd (writeServiceError a r e w st)) = w_store st"
  "w_entropy (snd (writeServiceError a r e w st)) = w_entropy st"
  "w_limiter (snd (writeServiceError a r e w st)) = w_limiter st"
  by (simp_all add: writeServiceError_def split: svc_error.split)

lemma uncounted_createRule: "uncounted (createRule a req)"
  by (auto simp: uncounted_def createRule_def writeServiceError_def split: prod.splits sum.splits svc_error.splits)

lemma uncounted_handlers:
  "uncounted handleLanding" "uncounted handleDocs" "uncounted handleOpenAPI" "uncounted handleMetrics"
  "uncounted (handleLive a)" "uncounted (handleReady a)" "uncounted (handleGetRule a)"
  "uncounted (handleDeleteRule a)" "uncounted (handleRedirect a)"
  by (auto simp: uncounted_def http_defs writeServiceError_def split: prod.splits sum.splits svc_error.splits)

lemma uncounted_creating: "uncounted (handleGenerate a)" "uncounted (handleCreateRule a)"
  using uncounted_createRule [of a]
  by (auto simp: uncounted_def handleGenerate_def handleCreateRule_def split: sum.splits if_splits)

lemma uncounted_guards:
  "uncounted h \<Longrightarrow> uncounted (withRateLimit a route h)" "uncounted h \<Longrightarrow> uncounted (withAdminAuth a h)"
  by (auto simp: uncounted_def withRateLimit_def withAdminAuth_def split: prod.splits sum.splits if_splits)

lemma instrument_counts:
  assumes "uncounted h" "answers S h" "rw_Sent w = None" "set (rw_Recorders w) \<subseteq> {200}"
  obtains w' st' n hdr where "instrument route h r w st = (Returned, w', st')" "rw_Sent w' = Some (n, hdr)"
    "m_httpRequestsTotal (w_metrics st')
       = count_up (route, q_Method r, show_int n) (m_httpRequestsTotal (w_metrics st))"
proof -
  obtain w' st' n where h: "h r (push_recorder w) st = (Returned, w', st')" "fst (pop_recorder w') = n"
    "\<forall>s. answered {n} w (Returned, snd (pop_recorder w'), s :: ('a, 'b) world)"
    by (rule answered_push [OF assms(2-4), where r = r and st = st]) blast
  from h(3) obtain hdr where "rw_Sent (snd (pop_recorder w')) = Some (n, hdr)" by (auto simp: answered_def)
  moreover have "m_httpRequestsTotal (w_metrics st') = m_httpRequestsTotal (w_metrics st)"
    using assms(1) h(1) by (auto simp: uncounted_def)
  ultimately show thesis using h(1,2) by (intro that) (auto simp: instrument_def)
qed

lemma handler_of_label:
  assumes "store_create_sane (svc_store (a_service a))" "store_read_sane (svc_store (a_service a))"
    "route_label rt = Some label"
  obtains h where "handler_of a rt = instrument label h" "uncounted h" "answers (route_statuses rt) h"
proof -
  note c = answers_handleGenerate [OF assms(1), THEN answers_withRateLimit]
    answers_handleCreateRule [OF assms(1), THEN answers_withRateLimit]
    answers_handleDeleteRule [OF assms(2), THEN answers_withAdminAuth]
  note u = uncounted_handlers uncounted_creating uncounted_guards
  show thesis
    using assms(3)
    by (cases rt)
      (auto simp: handler_of_def route_statuses_def answers_static answers_handleReady
        answers_handleGetRule [OF assms(2)] answers_handleRedirect [OF assms(2)] intro!: that u
        intro: c [THEN answers_mono])
qed

lemma serve_instrument:
  fixes st :: "('s, 'l) world"
  assumes "handler_of a (route_for a r) = instrument label h"
    "h (routed a r) (push_recorder (inner_writer r)) (entered r st) = (Returned, w1, st1)"
  obtains w2 st2 where "serve a r fresh_writer st = (Returned, w2, st2)"
    "rw_Sent w2 = rw_Sent w1" "rw_Body w2 = rw_Body w1"
    "w_store st2 = w_store st1" "w_entropy st2 = w_entropy st1" "w_limiter st2 = w_limiter st1"
    "w_metrics st2 = ObserveHTTPRequest label (q_Method r) (hd (rw_Recorders w1)) (q_Elapsed r) (w_metrics st1)"
proof -
  have "handler_of a (route_for a r) (routed a r) (inner_writer r) (entered r st)
    = (Returned, snd (pop_recorder w1), upd_metrics (ObserveHTTPRequest label (q_Method r) (hd (rw_Recorders w1)) (q_Elapsed r)) st1)"
    using assms(2) by (simp add: assms(1) instrument_def pop_recorder_def)
  then show thesis by (rule serve_through) (erule that, simp_all add: pop_recorder_def)
qed

section \<open>The guards\<close>

text \<open>The routes that can create a link, their labels and their handlers behind the limit.\<close>

definition creating :: "route \<Rightarrow> bool" where
  "creating rt \<longleftrightarrow> rt = RGenerate \<or> rt = RCreate"

lemma creating_handler:
  assumes "creating rt"
  obtains label h where "route_label rt = Some label" "handler_of a rt = instrument label (withRateLimit a label h)"
  using assms by (auto simp: creating_def handler_of_def)

text \<open>A client over its limit, and a limiter that fails: nothing else of the state is touched.\<close>

lemma serve_rate_limited:
  fixes st :: "('s, 'l) world"
  assumes "creating (route_for a r)" "route_label (route_for a r) = Some label"
    "lim_Allow (a_limiter a) (q_Now r) (clientIP (c_TrustedProxies (a_cfg a)) r) (w_limiter st) = (Inr False, l')"
  obtains w2 st2 hdr where "serve a r fresh_writer st = (Returned, w2, st2)" "rw_Sent w2 = Some (429, hdr)"
    "rw_Body w2 = [Problem ''rate_limited'' ''generation rate limit exceeded'']"
    "w_store st2 = w_store st" "w_entropy st2 = w_entropy st" "w_limiter st2 = l'"
    "m_rateLimitedTotal (w_metrics st2) = count_up label (m_rateLimitedTotal (w_metrics st))"
proof -
  obtain h where h: "handler_of a (route_for a r) = instrument label (withRateLimit a label h)"
    using creating_handler [OF assms(1), of a] assms(2) by fastforce
  show thesis
    by (rule serve_instrument [OF h, where st = st])
      (simp add: withRateLimit_def assms(3), erule that, simp_all)
qed

lemma serve_limiter_down:
  fixes st :: "('s, 'l) world"
  assumes "creating (route_for a r)"
    "lim_Allow (a_limiter a) (q_Now r) (clientIP (c_TrustedProxies (a_cfg a)) r) (w_limiter st) = (Inl e, l')"
  obtains w2 st2 hdr where "serve a r fresh_writer st = (Returned, w2, st2)" "rw_Sent w2 = Some (503, hdr)"
    "w_store st2 = w_store st" "w_entropy st2 = w_entropy st" "w_limiter st2 = l'"
proof -
  obtain label h where h: "handler_of a (route_for a r) = instrument label (withRateLimit a label h)"
    using creating_handler [OF assms(1), of a] by metis
  show thesis
    by (rule serve_instrument [OF h, where st = st])
      (simp add: withRateLimit_def assms(2), erule that, simp_all)
qed

text \<open>A deletion without the admin token.\<close>

lemma serve_not_admin:
  fixes st :: "('s, 'l) world"
  assumes "route_for a r = RDelete c" "c_AdminToken (a_cfg a) \<noteq> []" "admin_token_of r \<noteq> c_AdminToken (a_cfg a)"
  obtains w2 st2 hdr where "serve a r fresh_writer st = (Returned, w2, st2)" "rw_Sent w2 = Some (401, hdr)"
    "hdr ''Www-Authenticate'' = Some (''Bearer realm='' @ quote ''i8sl-admin'')"
    "w_store st2 = w_store st" "w_entropy st2 = w_entropy st" "w_limiter st2 = w_limiter st"
    "m_adminAuthFailures (w_metrics st2) = m_adminAuthFailures (w_metrics st) + 1"
proof -
  have h: "handler_of a (route_for a r) = instrument ''delete_rule'' (withAdminAuth a (handleDeleteRule a))"
    by (simp add: assms(1) handler_of_def)
  show thesis
    by (rule serve_instrument [OF h, where st = st])
      (simp add: withAdminAuth_def assms(2,3), erule that, simp, simp_all)
qed

text \<open>A request whose peer is not a trusted proxy names its client and its host alone.\<close>

lemma untrusted_headers:
  assumes "\<not> forwardedHeadersTrusted (c_TrustedProxies cfg) r"
  shows "clientIP (c_TrustedProxies cfg) (r\<lparr>q_Header := hdrs\<rparr>) = clientIP (c_TrustedProxies cfg) r"
    "publicBaseURL cfg (r\<lparr>q_Header := hdrs\<rparr>) = publicBaseURL cfg r"
proof -
  have t: "\<not> forwardedHeadersTrusted (c_TrustedProxies cfg) (r\<lparr>q_Header := hdrs\<rparr>)"
    using assms trusted_cong [of "r\<lparr>q_Header := hdrs\<rparr>" r] by simp
  show "clientIP (c_TrustedProxies cfg) (r\<lparr>q_Header := hdrs\<rparr>) = clientIP (c_TrustedProxies cfg) r"
    using assms t by (simp add: clientIP_def Let_def cong: option.case_cong if_cong)
  show "publicBaseURL cfg (r\<lparr>q_Header := hdrs\<rparr>) = publicBaseURL cfg r"
    using assms t by (simp add: publicBaseURL_def Let_def cong: if_cong)
qed

text \<open>A panic inside the chain: the client gets 500 unless an answer was already on its way.\<close>

lemma withRecovery_panic:
  assumes "h r w st = (Panicked p, w1, st1)"
  obtains w2 st2 where "withRecovery a h r w st = (Returned, w2, st2)"
    "rw_Sent w2 = (case rw_Sent w1 of
       None \<Rightarrow> Some (500, (rw_Header w1)(''Content-Type'' \<mapsto> ''application/json; charset=utf-8'')) | Some s \<Rightarrow> Some s)"
    "w_store st2 = w_store st1" "w_metrics st2 = w_metrics st1"
  using assms
  by (cases "withRecovery a h r w st")
    (auto simp: withRecovery_def writeProblem_def writeJSON_def split: option.split intro: that)

section \<open>Creating a link\<close>

text \<open>What a request asks to create, when it can be read.\<close>

definition asked :: "route \<Rightarrow> request \<Rightarrow> createRuleRequest option" where
  "asked rt r =
     (if rt = RGenerate then (case requestFromQuery r of Inl _ \<Rightarrow> None | Inr req \<Rightarrow> Some req)
      else if rt = RCreate then
        (case decode_first (q_Body r) of
           Inl _ \<Rightarrow> None | Inr req \<Rightarrow> if decode_at_end (q_Body r) then Some req else None)
      else None)"

definition input_of :: "createRuleRequest \<Rightarrow> create_input" where
  "input_of req = \<lparr>in_URL = cr_URL req, in_Alias = cr_Alias req, in_TTLSeconds = cr_TTLSeconds req,
     in_MaxUsages = cr_MaxUsages req\<rparr>"

lemma asked_routed [simp]: "asked rt (routed a r) = asked rt r"
  by (simp add: asked_def requestFromQuery_def Let_def cong: option.case_cong sum.case_cong)

lemma creating_inner:
  assumes "creating rt"
  obtains label h where "route_label rt = Some label" "handler_of a rt = instrument label (withRateLimit a label h)"
    "\<And>r w st. asked rt r = None \<Longrightarrow> \<exists>code m. h r w st = (Returned, writeProblem 400 code m w, st)"
    "\<And>r w st req. asked rt r = Some req \<Longrightarrow> h r w st = createRule a req r w st"
proof (cases "rt = RGenerate")
  case True
  then show thesis
    by (intro that [of "''generate_query''" "handleGenerate a"])
      (auto simp: handler_of_def handleGenerate_def asked_def split: sum.splits)
next
  case False
  then have "rt = RCreate" using assms by (simp add: creating_def)
  then show thesis
    by (intro that [of "''create_rule''" "handleCreateRule a"])
      (auto simp: handler_of_def handleCreateRule_def asked_def split: sum.splits if_splits)
qed

text \<open>One request that passes the limit, and the answer to it.\<close>

lemma serve_creates:
  fixes st :: "('s, 'l) world"
  assumes "creating (route_for a r)" "asked (route_for a r) r = Some req"
    "lim_Allow (a_limiter a) (q_Now r) (clientIP (c_TrustedProxies (a_cfg a)) r) (w_limiter st) = (Inr True, l')"
    "svc_CreateRule (a_service a) (q_Now r) (input_of req) (w_store st, w_entropy st) = (res, (s', src'))"
  obtains w2 st2 hdr where "serve a r fresh_writer st = (Returned, w2, st2)"
    "rw_Sent w2 = Some (case res of Inl e \<Rightarrow> error_status e | Inr _ \<Rightarrow> 201, hdr)"
    "\<And>rule. res = Inr rule \<Longrightarrow> rw_Body w2 = [RuleBody (ruleResponse_of a r rule)]"
    "w_store st2 = s'" "w_entropy st2 = src'" "w_limiter st2 = l'"
proof -
  obtain label h where h: "handler_of a (route_for a r) = instrument label (withRateLimit a label h)"
    "\<And>r' w st. asked (route_for a r) r' = Some req \<Longrightarrow> h r' w st = createRule a req r' w st"
    using creating_inner [OF assms(1), where a = a] by metis
  obtain w1 st1 where e: "withRateLimit a label h (routed a r) (push_recorder (inner_writer r)) (entered r st) = (Returned, w1, st1)"
    "rw_Sent w1 = Some (case res of Inl e \<Rightarrow> error_status e | Inr _ \<Rightarrow> 201,
       [''X-Request-Id'' \<mapsto> request_id_of r, ''Content-Type'' \<mapsto> ''application/json; charset=utf-8''])"
    "\<And>rule. res = Inr rule \<Longrightarrow> rw_Body w1 = [RuleBody (ruleResponse_of a r rule)]"
    "w_store st1 = s'" "w_entropy st1 = src'" "w_limiter st1 = l'"
  proof (cases res)
    case (Inl e)
    obtain w1 st1 where w: "writeServiceError a (routed a r) e (push_recorder (inner_writer r))
        ((entered r st)\<lparr>w_limiter := l', w_store := s', w_entropy := src'\<rparr>) = (w1, st1)" by fastforce
    have "withRateLimit a label h (routed a r) (push_recorder (inner_writer r)) (entered r st) = (Returned, w1, st1)"
      using Inl assms(2-4) w by (simp add: withRateLimit_def h(2) createRule_def input_of_def)
    then show thesis using that writeServiceError_writer [OF _ w] Inl by simp
  next
    case (Inr rule)
    then show thesis using assms(2-4)
      by (intro that [of "writeJSON 201 (RuleBody (ruleResponse_of a r rule)) (push_recorder (inner_writer r))"
            "(entered r st)\<lparr>w_limiter := l', w_store := s', w_entropy := src'\<rparr>"])
        (simp_all add: withRateLimit_def h(2) createRule_def input_of_def)
  qed
  show thesis by (rule serve_instrument [OF h(1) e(1)]) (erule that, simp_all add: e)
qed

lemma serve_unreadable:
  fixes st :: "('s, 'l) world"
  assumes "creating (route_for a r)" "asked (route_for a r) r = None"
    "lim_Allow (a_limiter a) (q_Now r) (clientIP (c_TrustedProxies (a_cfg a)) r) (w_limiter st) = (Inr True, l')"
  obtains w2 st2 hdr where "serve a r fresh_writer st = (Returned, w2, st2)" "rw_Sent w2 = Some (400, hdr)"
    "w_store st2 = w_store st" "w_entropy st2 = w_entropy st" "w_limiter st2 = l'"
proof -
  obtain label h where h: "handler_of a (route_for a r) = instrument label (withRateLimit a label h)"
    "\<And>r' w st. asked (route_for a r) r' = None \<Longrightarrow> \<exists>code m. h r' w st = (Returned, writeProblem 400 code m w, st)"
    using creating_inner [OF assms(1), where a = a] by metis
  obtain code m where e: "h (routed a r) (push_recorder (inner_writer r)) ((entered r st)\<lparr>w_limiter := l'\<rparr>)
      = (Returned, writeProblem 400 code m (push_recorder (inner_writer r)), (entered r st)\<lparr>w_limiter := l'\<rparr>)"
    using h(2) assms(2) by (metis asked_routed)
  show thesis
    by (rule serve_instrument [OF h(1), where st = st])
      (simp add: withRateLimit_def assms(3) e, erule that, simp_all)
qed

text \<open>An answer 201 comes from a creation that succeeded, and shows the rule that was created.\<close>

lemma serve_201:
  fixes st :: "('s, 'l) world"
  assumes "creating (route_for a r)" "serve a r fresh_writer st = (oc, w2, st2)" "rw_Sent w2 = Some (201, hdr)"
  obtains req rule where "asked (route_for a r) r = Some req"
    "svc_CreateRule (a_service a) (q_Now r) (input_of req) (w_store st, w_entropy st)
       = (Inr rule, (w_store st2, w_entropy st2))"
    "rw_Body w2 = [RuleBody (ruleResponse_of a r rule)]"
proof -
  obtain allowed l' where al:
    "lim_Allow (a_limiter a) (q_Now r) (clientIP (c_TrustedProxies (a_cfg a)) r) (w_limiter st) = (allowed, l')"
    by fastforce
  obtain label where label: "route_label (route_for a r) = Some label"
    using creating_handler [OF assms(1)] by metis
  consider e where "allowed = Inl e" | "allowed = Inr False" | "allowed = Inr True" "asked (route_for a r) r = None"
    | req where "allowed = Inr True" "asked (route_for a r) r = Some req"
    by (metis (full_types) not_None_eq sumE)
  then show thesis
  proof cases
    case 1
    then show thesis using serve_limiter_down [OF assms(1)] al assms(2,3) by (metis Pair_inject option.inject numeral_eq_iff num.distinct num.inject)
  next
    case 2
    then show thesis using serve_rate_limited [OF assms(1) label] al assms(2,3)
      by (metis Pair_inject option.inject numeral_eq_iff num.distinct num.inject)
  next
    case 3
    then show thesis using serve_unreadable [OF assms(1)] al assms(2,3)
      by (metis Pair_inject option.inject numeral_eq_iff num.distinct num.inject)
  next
    case 4
    obtain res s' src' where c: "svc_CreateRule (a_service a) (q_Now r) (input_of req) (w_store st, w_entropy st)
        = (res, (s', src'))" by (metis prod.exhaust)
    obtain hdr' where w: "rw_Sent w2 = Some (case res of Inl e \<Rightarrow> error_status e | Inr _ \<Rightarrow> 201, hdr')"
      "\<And>rule. res = Inr rule \<Longrightarrow> rw_Body w2 = [RuleBody (ruleResponse_of a r rule)]"
      "w_store st2 = s'" "w_entropy st2 = src'"
      using serve_creates [OF assms(1) 4(2) al [unfolded 4(1)] c] assms(2) by (metis Pair_inject)
    have "\<exists>rule. res = Inr rule"
      using w(1) assms(3) error_status_range by (cases res) (fastforce simp: error_status_def split: svc_error.splits)+
    then show thesis using that 4(2) c w by blast
  qed
qed

section \<open>Links as a client sees them\<close>

context rule_store
begin

text \<open>A redirection on a store that does not fail.\<close>

lemma serve_redirect:
  fixes st :: "('s, 'l) world"
  assumes "svc_store (a_service a) = ops" "wf (w_store st)" "quiet (w_store st)"
    "timely (svc_Now (a_service a) (q_Now r))" "roomy 1 (look (w_store st))"
    "route_for a r = RRedirect c" "alias_pattern c"
  obtains w2 st2 n hdr where "serve a r fresh_writer st = (Returned, w2, st2)" "rw_Sent w2 = Some (n, hdr)"
    "n = (case look (w_store st) c of None \<Rightarrow> 404
       | Some rule \<Rightarrow> if fst (Expired rule (svc_Now (a_service a) (q_Now r))) then 410 else 302)"
    "n = 302 \<Longrightarrow> hdr ''Location'' = Some (hexEscapeNonASCII (r_URL (the (look (w_store st) c))))"
    "n = 302 \<Longrightarrow> look (w_store st2) = (look (w_store st))
       (c \<mapsto> keeps (used (the (look (w_store st) c)) (svc_Now (a_service a) (q_Now r))))"
    "n \<noteq> 302 \<Longrightarrow> look (w_store st2) = look (w_store st)"
proof -
  let ?now = "svc_Now (a_service a) (q_Now r)"
  have h: "handler_of a (route_for a r) = instrument ''redirect'' (handleRedirect a)"
    by (simp add: assms(6) handler_of_def)
  obtain res s' where c: "op_ResolveRule ops c ?now (w_store st) = (res, s')" by fastforce
  then have svc: "svc_ResolveRule (a_service a) (q_Now r) (q_PathCode (routed a r)) (w_store st) = (res, s')"
    using assms(1) by (simp add: svc_ResolveRule_def assms(6) path_code_def validateCode_alias [OF assms(7)])
  note q = resolve_quiet [OF assms(2-5) c]
  show thesis
  proof (cases res)
    case (Inl e)
    obtain w1 st1 where w: "writeServiceError a (routed a r) e (push_recorder (inner_writer r))
        (upd_metrics (IncRedirect (redirect_result e)) ((entered r st)\<lparr>w_store := s'\<rparr>)) = (w1, st1)" by fastforce
    have run: "handleRedirect a (routed a r) (push_recorder (inner_writer r)) (entered r st) = (Returned, w1, st1)"
      using svc Inl w by (simp add: handleRedirect_def)
    have same: "look s' = look (w_store st)"
    proof -
      have "e = ErrNotFound \<or> (\<exists>r0 reason. e = ExpiredError r0 reason)"
        using q Inl by (auto split: option.splits if_splits)
      then show ?thesis
        using c Inl resolve_NotFound [OF assms(2), of c ?now s'] resolve_Expired [OF assms(2), of c ?now _ _ s'] by blast
    qed
    have status: "error_status e = (case look (w_store st) c of None \<Rightarrow> 404
       | Some rule \<Rightarrow> if fst (Expired rule ?now) then 410 else 302)" "error_status e \<noteq> 302"
      using q Inl by (auto split: option.splits if_splits)
    note w' = writeServiceError_writer [OF _ w]
    show thesis
      by (rule serve_instrument [OF h run]) (erule that [where n = "error_status e"], simp add: w', rule status(1), simp_all add: status(2) same w')
  next
    case (Inr rule)
    have run: "handleRedirect a (routed a r) (push_recorder (inner_writer r)) (entered r st)
      = (Returned, http_Redirect (routed a r) (r_URL rule) 302 (push_recorder (inner_writer r)),
         upd_metrics (IncRedirect ''success'') ((entered r st)\<lparr>w_store := s'\<rparr>))"
      using svc Inr by (simp add: handleRedirect_def)
    obtain r0 where r0: "look (w_store st) c = Some r0" "\<not> fst (Expired r0 ?now)" "rule = used r0 ?now"
      "look s' = (look (w_store st))(c \<mapsto> keeps (used r0 ?now))"
      using resolve_Inr [OF assms(2,4,5)] c Inr by blast
    show thesis
      by (rule serve_instrument [OF h run]) (erule that [where n = 302], simp add: redirect_writer, simp_all add: redirect_writer r0)
  qed
qed

text \<open>Requests for anything else leave every link as it is.\<close>

lemma serve_reads:
  fixes st :: "('s, 'l) world"
  assumes "svc_store (a_service a) = ops" "wf (w_store st)" "\<not> creating (route_for a r)"
    "\<And>c. route_for a r \<noteq> RDelete c" "\<And>c. route_for a r \<noteq> RRedirect c"
    "serve a r fresh_writer st = (oc, w2, st2)"
  shows "look (w_store st2) = look (w_store st) \<and> wf (w_store st2)"
proof -
  let ?r = "routed a r" and ?w = "inner_writer r"
  let ?kept = "\<lambda>st1. look (w_store st1) = look (w_store st) \<and> wf (w_store st1)"
  have "\<exists>w1 st1. handler_of a (route_for a r) ?r ?w (entered r st) = (Returned, w1, st1) \<and> ?kept st1"
  proof (cases "route_label (route_for a r)")
    case None
    then show ?thesis
      by (cases "route_for a r") (simp_all add: handler_of_def methodNotAllowed_def handleClean_def assms(2))
  next
    case (Some label)
    have inner: ?thesis if "handler_of a (route_for a r) = instrument l h"
      "h ?r (push_recorder ?w) (entered r st) = (Returned, w', st')" "?kept st'" for l h w' st'
      using that by (simp add: instrument_def)
    show ?thesis
    proof (cases "route_for a r")
      case RReady
      obtain u s' where p: "op_Ping ops (w_store st) = (u, s')" by fastforce
      obtain v l' where q: "lim_Ping (a_limiter a) (w_limiter st) = (v, l')" by fastforce
      have k: "look s' = look (w_store st)" "wf s'" using ping [OF assms(2) p] by auto
      show ?thesis using RReady assms(1) p q k
        by (cases u; cases v) (simp_all add: handler_of_def instrument_def handleReady_def svc_Ping_def)
    next
      case (RGet c)
      obtain res s' where g: "svc_GetRule (a_service a) (q_PathCode ?r) (w_store st) = (res, s')" by fastforce
      have k: "look s' = look (w_store st)" "wf s'"
        using g get_state [OF assms(2), of _ res s'] assms(1,2) by (auto simp: svc_GetRule_def split: sum.splits)
      obtain w' st' where e: "handleGetRule a ?r (push_recorder ?w) (entered r st) = (Returned, w', st')" "w_store st' = s'"
      proof (cases res)
        case (Inl e)
        obtain w' st' where w: "writeServiceError a ?r e (push_recorder ?w) ((entered r st)\<lparr>w_store := s'\<rparr>) = (w', st')" by fastforce
        then show thesis using that [of w' st'] g Inl writeServiceError_metrics(2) [of a ?r e "push_recorder ?w" "(entered r st)\<lparr>w_store := s'\<rparr>"]
          by (simp add: handleGetRule_def)
      qed (use g that in \<open>simp add: handleGetRule_def\<close>)
      show ?thesis by (rule inner [of "''get_rule''" "handleGetRule a", OF _ e(1)]) (simp_all add: RGet handler_of_def e(2) k)
    qed (use Some assms(2-5) in \<open>auto simp: creating_def handler_of_def instrument_def http_defs\<close>)
  qed
  then obtain w1 st1 where h: "handler_of a (route_for a r) ?r ?w (entered r st) = (Returned, w1, st1)" "?kept st1" by blast
  from serve_through [OF h(1)] assms(6) h(2) show ?thesis by (metis Pair_inject)
qed

text \<open>A link that was deleted is gone.\<close>

lemma serve_delete:
  fixes st :: "('s, 'l) world"
  assumes "svc_store (a_service a) = ops" "wf (w_store st)" "route_for a r = RDelete c" "alias_pattern c"
    "serve a r fresh_writer st = (oc, w2, st2)" "rw_Sent w2 = Some (204, hdr)"
  shows "c_AdminToken (a_cfg a) = [] \<or> admin_token_of r = c_AdminToken (a_cfg a)"
    "look (w_store st) c \<noteq> None" "look (w_store st2) = (look (w_store st))(c := None)" "wf (w_store st2)"
proof -
  show auth: "c_AdminToken (a_cfg a) = [] \<or> admin_token_of r = c_AdminToken (a_cfg a)"
  proof (rule ccontr)
    assume "\<not> ?thesis"
    then obtain w2' hdr' st2' where "serve a r fresh_writer st = (Returned, w2', st2')" "rw_Sent w2' = Some (401, hdr')"
      using serve_not_admin [OF assms(3)] by metis
    then show False using assms(5,6) by simp
  qed
  have h: "handler_of a (route_for a r) = instrument ''delete_rule'' (withAdminAuth a (handleDeleteRule a))"
    by (simp add: assms(3) handler_of_def)
  have pass: "withAdminAuth a (handleDeleteRule a) (routed a r) w (entered r st) = handleDeleteRule a (routed a r) w (entered r st)" for w
    using auth by (auto simp: withAdminAuth_def)
  obtain res s' where d: "op_DeleteRule ops c (w_store st) = (res, s')" by fastforce
  then have svc: "svc_DeleteRule (a_service a) (q_PathCode (routed a r)) (w_store st) = (res, s')"
    using assms(1) by (simp add: svc_DeleteRule_def assms(3) path_code_def validateCode_alias [OF assms(4)])
  have "res = Inr () \<and> w_store st2 = s'"
  proof (cases res)
    case (Inl e)
    obtain w1 st1 where w: "writeServiceError a (routed a r) e (push_recorder (inner_writer r)) ((entered r st)\<lparr>w_store := s'\<rparr>)
        = (w1, st1)" by fastforce
    have run: "withAdminAuth a (handleDeleteRule a) (routed a r) (push_recorder (inner_writer r)) (entered r st) = (Returned, w1, st1)"
      unfolding pass using svc Inl w by (simp add: handleDeleteRule_def)
    have "fst (the (rw_Sent w2)) = error_status e"
      by (rule serve_instrument [OF h run]) (use assms(5) writeServiceError_writer(1) [OF _ w] in simp)
    then show ?thesis using assms(6) by (simp add: error_status_def split: svc_error.splits)
  next
    case (Inr u)
    have run: "withAdminAuth a (handleDeleteRule a) (routed a r) (push_recorder (inner_writer r)) (entered r st)
      = (Returned, WriteHeader 204 (push_recorder (inner_writer r)), (entered r st)\<lparr>w_store := s'\<rparr>)"
      unfolding pass using svc Inr by (simp add: handleDeleteRule_def)
    show ?thesis by (rule serve_instrument [OF h run]) (use assms(5) Inr in simp)
  qed
  then show "look (w_store st) c \<noteq> None" "look (w_store st2) = (look (w_store st))(c := None)" "wf (w_store st2)"
    using delete_Inr [OF assms(2)] delete_wf [OF assms(2)] d by auto
qed

end

section \<open>The counters\<close>

lemma serve_counted:
  fixes st :: "('s, 'l) world"
  assumes "store_create_sane (svc_store (a_service a))" "store_read_sane (svc_store (a_service a))"
    "route_label (route_for a r) = Some label"
  obtains w2 st2 n hdr where "serve a r fresh_writer st = (Returned, w2, st2)" "rw_Sent w2 = Some (n, hdr)"
    "m_httpRequestsTotal (w_metrics st2)
       = count_up (label, q_Method r, show_int n) (m_httpRequestsTotal (w_metrics st))"
proof -
  obtain h where h: "handler_of a (route_for a r) = instrument label h" "uncounted h"
      "answers (route_statuses (route_for a r)) h"
    by (rule handler_of_label [OF assms])
  obtain w1 st1 n hdr where i: "instrument label h (routed a r) (inner_writer r) (entered r st) = (Returned, w1, st1)"
    "rw_Sent w1 = Some (n, hdr)" "m_httpRequestsTotal (w_metrics st1)
       = count_up (label, q_Method (routed a r), show_int n) (m_httpRequestsTotal (w_metrics st))"
    by (rule instrument_counts [OF h(2,3), of "inner_writer r" label "routed a r" "entered r st"]) simp_all
  show thesis by (rule serve_through [OF i(1) [folded h(1)]]) (erule that, simp_all add: i)
qed

end
