(* ===== verification/AnyStore.thy ===== *)
theory AnyStore
  imports Serve
begin

text \<open>
  A value of the interface \<open>Store\<close> as \<open>internal/app/app.go\<close> opens it: one of the two stores,
  whose methods a call dispatches to. Behind the interface each store keeps its contract.
\<close>

datatype any_store = SqliteStore sqlite | PostgresStore postgres

definition on_store ::
  "(sqlite, 'e, 'a) call \<Rightarrow> (postgres, 'e, 'a) call \<Rightarrow> (any_store, 'e, 'a) call" where
  "on_store f g s =
     (case s of
        SqliteStore d \<Rightarrow> (case f d of (res, d') \<Rightarrow> (res, SqliteStore d'))
      | PostgresStore d \<Rightarrow> (case g d of (res, d') \<Rightarrow> (res, PostgresStore d')))"

definition any_store_ops :: "(instant \<Rightarrow> instant) \<Rightarrow> any_store store_ops" where
  "any_store_ops ts =
     \<lparr>op_Ping = on_store sq_Ping pg_Ping, op_Close = on_store sq_Close pg_Close,
      op_CreateRule = (\<lambda>r. on_store (sq_CreateRule r) (pg_CreateRule ts r)),
      op_GetRule = (\<lambda>c. on_store (sq_GetRule c) (pg_GetRule c)),
      op_DeleteRule = (\<lambda>c. on_store (sq_DeleteRule c) (pg_DeleteRule c)),
      op_DeleteExpired = (\<lambda>now. on_store (sq_DeleteExpired now) (pg_DeleteExpired ts now)),
      op_ResolveRule = (\<lambda>c now. on_store (sq_ResolveRule c now) (pg_ResolveRule ts c now))\<rparr>"

definition any_look :: "any_store \<Rightarrow> table" where
  "any_look s = (case s of SqliteStore d \<Rightarrow> sq_look d | PostgresStore d \<Rightarrow> pg_look d)"

definition any_quiet :: "any_store \<Rightarrow> bool" where
  "any_quiet s = (case s of SqliteStore d \<Rightarrow> sq_quiet d | PostgresStore d \<Rightarrow> pg_quiet d)"

definition any_sqlite_wf :: "any_store \<Rightarrow> bool" where
  "any_sqlite_wf s = (case s of SqliteStore d \<Rightarrow> sq_wf d | PostgresStore _ \<Rightarrow> False)"

definition any_postgres_wf :: "(instant \<Rightarrow> instant) \<Rightarrow> any_store \<Rightarrow> bool" where
  "any_postgres_wf ts s = (case s of SqliteStore _ \<Rightarrow> False | PostgresStore d \<Rightarrow> pg_wf ts d)"

section \<open>The contract goes through a wrapper\<close>

text \<open>\<open>wrapped wrap f g\<close>: on wrapped states \<open>g\<close> does what \<open>f\<close> does.\<close>

definition wrapped :: "('s \<Rightarrow> 't) \<Rightarrow> ('s, 'e, 'a) call \<Rightarrow> ('t, 'e, 'a) call \<Rightarrow> bool" where
  "wrapped wrap f g \<longleftrightarrow> (\<forall>d. g (wrap d) = (case f d of (res, d') \<Rightarrow> (res, wrap d')))"

lemma wrappedE:
  assumes "wrapped wrap f g" "g (wrap d) = (res, s')"
  obtains d' where "f d = (res, d')" "s' = wrap d'"
  using assms by (cases "f d") (auto simp: wrapped_def)

lemma rule_store_wrap:
  assumes "rule_store ops ok look keeps storable timely sweeps quiet"
    and w: "\<And>d. ok' (wrap d) = ok d" "\<And>s. ok' s \<Longrightarrow> \<exists>d. s = wrap d"
    and l: "\<And>d. look' (wrap d) = look d" "\<And>d. quiet' (wrap d) = quiet d"
    and o: "wrapped wrap (op_Ping ops) (op_Ping ops')"
      "\<And>r. wrapped wrap (op_CreateRule ops r) (op_CreateRule ops' r)"
      "\<And>c. wrapped wrap (op_GetRule ops c) (op_GetRule ops' c)"
      "\<And>c. wrapped wrap (op_DeleteRule ops c) (op_DeleteRule ops' c)"
      "\<And>now. wrapped wrap (op_DeleteExpired ops now) (op_DeleteExpired ops' now)"
      "\<And>c now. wrapped wrap (op_ResolveRule ops c now) (op_ResolveRule ops' c now)"
  shows "rule_store ops' ok' look' keeps storable timely sweeps quiet'"
proof -
  have state: P if "ok' s" "\<And>d. s = wrap d \<Longrightarrow> ok d \<Longrightarrow> P" for s P
    using w that by metis
  show ?thesis
  proof (unfold_locales, goal_cases)
  case (6 s c r)
  then show ?case using w(2) [of s] rule_store.look_code [OF assms(1)] by (auto simp: w(1) l)
next
  case 7
  then show ?case
    by (elim state, hypsubst, elim wrappedE [OF o(1)], hypsubst) (auto simp: w(1) l dest: rule_store.ping [OF assms(1)])
next
  case 8
  then show ?case
    by (elim state, hypsubst, elim wrappedE [OF o(2)], hypsubst) (auto simp: w(1) l dest: rule_store.create_wf [OF assms(1)])
next
  case 9
  then show ?case
    by (elim state, hypsubst, elim wrappedE [OF o(2)], hypsubst) (auto simp: w(1) l dest: rule_store.create_Inr [OF assms(1)])
next
  case 10
  then show ?case
    by (elim state, hypsubst, elim wrappedE [OF o(2)], hypsubst) (auto simp: w(1) l dest: rule_store.create_Inl [OF assms(1)])
next
  case 11
  then show ?case
    by (elim state, hypsubst, elim wrappedE [OF o(2)], hypsubst) (auto simp: w(1) l dest: rule_store.create_quiet [OF assms(1)])
next
  case 12
  then show ?case
    by (elim state, hypsubst, elim wrappedE [OF o(3)], hypsubst) (auto simp: w(1) l dest: rule_store.get_state [OF assms(1)])
next
  case 13
  then show ?case
    by (elim state, hypsubst, elim wrappedE [OF o(3)], hypsubst) (auto simp: w(1) l dest: rule_store.get_Inr [OF assms(1)])
next
  case 14
  then show ?case
    by (elim state, hypsubst, elim wrappedE [OF o(3)], hypsubst) (auto simp: w(1) l dest: rule_store.get_NotFound [OF assms(1)])
next
  case 15
  then show ?case
    by (elim state, hypsubst, elim wrappedE [OF o(3)], hypsubst) (auto simp: w(1) l dest: rule_store.get_quiet [OF assms(1)])
next
  case 16
  then show ?case
    by (elim state, hypsubst, elim wrappedE [OF o(4)], hypsubst) (auto simp: w(1) l dest: rule_store.delete_wf [OF assms(1)])
next
  case 17
  then show ?case
    by (elim state, hypsubst, elim wrappedE [OF o(4)], hypsubst) (auto simp: w(1) l dest: rule_store.delete_Inr [OF assms(1)])
next
  case 18
  then show ?case
    by (elim state, hypsubst, elim wrappedE [OF o(4)], hypsubst) (auto simp: w(1) l dest: rule_store.delete_Inl [OF assms(1)])
next
  case 19
  then show ?case
    by (elim state, hypsubst, elim wrappedE [OF o(4)], hypsubst) (auto simp: w(1) l dest: rule_store.delete_NotFound [OF assms(1)])
next
  case 20
  then show ?case
    by (elim state, hypsubst, elim wrappedE [OF o(4)], hypsubst) (auto simp: w(1) l dest: rule_store.delete_quiet [OF assms(1)])
next
  case 21
  then show ?case
    by (elim state, hypsubst, elim wrappedE [OF o(5)], hypsubst) (auto simp: w(1) l dest: rule_store.sweep_wf [OF assms(1)])
next
  case 22
  then show ?case
    by (elim state, hypsubst, elim wrappedE [OF o(5)], hypsubst) (auto simp: w(1) l dest: rule_store.sweep_Inr [OF assms(1)])
next
  case 23
  then show ?case
    by (elim state, hypsubst, elim wrappedE [OF o(5)], hypsubst) (auto simp: w(1) l dest: rule_store.sweep_Inl [OF assms(1)])
next
  case 24
  then show ?case
    by (elim state, hypsubst, elim wrappedE [OF o(5)], hypsubst) (auto simp: w(1) l dest: rule_store.sweep_quiet [OF assms(1)])
next
  case 25
  then show ?case
    by (elim state, hypsubst, elim wrappedE [OF o(6)], hypsubst) (auto simp: w(1) l dest: rule_store.resolve_wf [OF assms(1)])
next
  case 26
  then show ?case
    by (elim state, hypsubst, elim wrappedE [OF o(6)], hypsubst) (auto simp: w(1) l dest: rule_store.resolve_Inr [OF assms(1)])
next
  case 27
  then show ?case
    by (elim state, hypsubst, elim wrappedE [OF o(6)], hypsubst) (auto simp: w(1) l dest: rule_store.resolve_Inl [OF assms(1)])
next
  case 28
  then show ?case
    by (elim state, hypsubst, elim wrappedE [OF o(6)], hypsubst) (auto simp: w(1) l dest: rule_store.resolve_NotFound [OF assms(1)])
next
  case 29
  then show ?case
    by (elim state, hypsubst, elim wrappedE [OF o(6)], hypsubst) (auto simp: w(1) l dest: rule_store.resolve_Expired [OF assms(1)])
next
  case 30
  then show ?case
    by (elim state, hypsubst, elim wrappedE [OF o(6)], hypsubst) (auto simp: w(1) l dest: rule_store.resolve_quiet [OF assms(1)])
qed (rule rule_store.keeps_frame [OF assms(1)])+
qed

section \<open>Both stores behind the interface\<close>

lemma any_store_ops_simps [simp]:
  "op_Ping (any_store_ops ts) = on_store sq_Ping pg_Ping"
  "op_CreateRule (any_store_ops ts) r = on_store (sq_CreateRule r) (pg_CreateRule ts r)"
  "op_GetRule (any_store_ops ts) c = on_store (sq_GetRule c) (pg_GetRule c)"
  "op_DeleteRule (any_store_ops ts) c = on_store (sq_DeleteRule c) (pg_DeleteRule c)"
  "op_DeleteExpired (any_store_ops ts) now = on_store (sq_DeleteExpired now) (pg_DeleteExpired ts now)"
  "op_ResolveRule (any_store_ops ts) c now = on_store (sq_ResolveRule c now) (pg_ResolveRule ts c now)"
  by (simp_all add: any_store_ops_def)

lemma on_store_wrapped: "wrapped SqliteStore f (on_store f g)" "wrapped PostgresStore g (on_store f g)"
  by (simp_all add: wrapped_def on_store_def)

lemma any_store_sqlite: "rule_store (any_store_ops ts) any_sqlite_wf any_look (\<lambda>r. r) sq_storable rfc3339_ok
    sq_sweeps any_quiet"
  by (rule rule_store_wrap [OF sq.rule_store_axioms, where wrap = SqliteStore])
    (auto simp: any_sqlite_wf_def any_look_def any_quiet_def sqlite_ops_def intro: on_store_wrapped
      split: any_store.splits)

interpretation asq: rule_store "any_store_ops ts" any_sqlite_wf any_look "\<lambda>r. r" sq_storable rfc3339_ok
  sq_sweeps any_quiet for ts
  by (rule any_store_sqlite)

sublocale driver_time \<subseteq> apg: rule_store "any_store_ops ts" "any_postgres_wf ts" any_look "pg_keeps ts"
  "\<lambda>r. True" "\<lambda>now. True" "pg_sweeps ts" any_quiet
  by (rule rule_store_wrap [OF pg.rule_store_axioms, where wrap = PostgresStore])
    (auto simp: any_postgres_wf_def any_look_def any_quiet_def postgres_ops_def intro: on_store_wrapped
      split: any_store.splits)

context driver_time
begin

lemma any_store_postgres: "rule_store (any_store_ops ts) (any_postgres_wf ts) any_look (pg_keeps ts)
    (\<lambda>r. True) (\<lambda>now. True) (pg_sweeps ts) any_quiet"
  by (rule apg.rule_store_axioms)

end

end
