(* ===== verification/App.thy ===== *)
theory App
  imports AnyStore
begin

text \<open>
  \<open>internal/app/app.go\<close> and \<open>internal/observability/telemetry\<close>: how the process is put together
  from its configuration, what it runs, and what it closes when it ends. The outcomes of the
  world outside (errors of the exporter, the databases at their addresses, the requests and the
  ticks of the cleanup in the order in which they take effect, how the server stops) are the
  fields of a record.
\<close>

section \<open>The store that is opened\<close>

definition postgresLabel :: "string \<Rightarrow> string" where
  "postgresLabel rawURI =
     (case parse_url rawURI of
        None \<Rightarrow> ''postgres''
      | Some parsed \<Rightarrow>
          (let host = hostname parsed in
           if host = [] then ''postgres''
           else
             (let database = (if 1 < length (u_Path parsed) then tl (u_Path parsed) else u_Path parsed) in
              if database = [] then ''postgres@'' @ host
              else ''postgres@'' @ host @ ''/'' @ database)))"

record 'b outside =
  x_env :: environment
  x_exporter :: "string option"
  x_resource :: "string option"
  x_sqlite :: "string \<Rightarrow> sqlite"
  x_postgres :: "string \<Rightarrow> postgres"
  x_redis :: "string \<Rightarrow> string \<Rightarrow> int \<Rightarrow> redis"
  x_buckets :: "'b bucket_ops"
  x_wild :: "f64 \<Rightarrow> int"
  x_time :: "instant \<Rightarrow> instant"

definition openStore :: "'b outside \<Rightarrow> config \<Rightarrow> string + any_store \<times> string" where
  "openStore x cfg =
     (if c_StorageDriver cfg = ''sqlite'' then
        (case sq_NewStore (x_sqlite x (c_SQLitePath cfg)) of
           (Inl e, d) \<Rightarrow> Inl e
         | (Inr _, d) \<Rightarrow> Inr (SqliteStore d, ''sqlite''))
      else if c_StorageDriver cfg = ''postgres'' then
        (case pg_NewStore (x_postgres x (c_DBURI cfg)) of
           (Inl e, d) \<Rightarrow> Inl e
         | (Inr _, d) \<Rightarrow> Inr (PostgresStore d, postgresLabel (c_DBURI cfg)))
      else Inl (''unsupported storage driver '' @ quote (c_StorageDriver cfg)))"

section \<open>What is opened and closed\<close>

datatype resource = Exporter | StoreConn | LimiterConn | Signals | CleanupContext | ShutdownContext

record http_server =
  hs_Addr :: string
  hs_ReadTimeout :: duration
  hs_WriteTimeout :: duration
  hs_IdleTimeout :: duration

datatype exporter_option = WithEndpoint string | WithInsecure

datatype tracer =
    NoopTracer
  | BatchTracer "exporter_option list" "(string \<times> string) list" f64

datatype act =
    Opened resource
  | Closed resource
  | CleanupStarted duration
  | Listening http_server string string
  | ShutdownSignal
  | Stopped
  | PropagatorSet
  | ProviderSet tracer

text \<open>
  \<open>openRateLimiter\<close>: a limiter in Redis that does not answer is closed again.
\<close>

definition openRateLimiter ::
  "'b outside \<Rightarrow> config \<Rightarrow> (string + 'b any_limiter \<times> string) \<times> act list" where
  "openRateLimiter x cfg =
     (if c_RateLimitBackend cfg = ''memory'' then
        (Inr (MemoryLimiter (NewMemory (c_GenerationRatePerMinute cfg) (c_GenerationBurst cfg) (10 * minute)),
              ''memory''), [Opened LimiterConn])
      else if c_RateLimitBackend cfg = ''redis'' then
        (case NewRedis (x_wild x) (c_RedisAddr cfg) (c_GenerationRatePerMinute cfg) (c_GenerationBurst cfg)
                (10 * minute) (c_RedisKeyPrefix cfg) of
           Inl e \<Rightarrow> (Inl e, [])
         | Inr l \<Rightarrow>
             (case redis_Ping (x_redis x (c_RedisAddr cfg) (c_RedisPassword cfg) (c_RedisDB cfg)) of
                (Inl e, r) \<Rightarrow> (Inl e, [Opened LimiterConn, Closed LimiterConn])
              | (Inr _, r) \<Rightarrow> (Inr (RedisLimiter l r, ''redis@'' @ c_RedisAddr cfg), [Opened LimiterConn])))
      else (Inl (''unsupported rate limit backend '' @ quote (c_RateLimitBackend cfg)), []))"

text \<open>
  \<open>telemetry.Setup\<close>: the global propagator, and the tracer provider or no tracing. The exporter that was
  created is not shut down when the resource cannot be.
\<close>

definition telemetry_Setup :: "'b outside \<Rightarrow> config \<Rightarrow> (string + tracer) \<times> act list" where
  "telemetry_Setup x cfg =
     (if \<not> c_TracingEnabled cfg then (Inr NoopTracer, [PropagatorSet, ProviderSet NoopTracer])
      else
        (let opts = (if c_OTLPEndpoint cfg \<noteq> [] then [WithEndpoint (c_OTLPEndpoint cfg)] else [])
               @ (if c_OTLPInsecure cfg then [WithInsecure] else [])
         in case x_exporter x of
              Some e \<Rightarrow> (Inl (''create otlp trace exporter: '' @ e), [PropagatorSet])
            | None \<Rightarrow>
                (case x_resource x of
                   Some e \<Rightarrow> (Inl (''create otel resource: '' @ e), [PropagatorSet, Opened Exporter])
                 | None \<Rightarrow>
                     (let provider = BatchTracer opts
                        [(''service.name'', c_ServiceName cfg), (''deployment.environment'', c_Environment cfg),
                         (''service.version'', bi_Version buildinfo_Current),
                         (''service.commit'', bi_Commit buildinfo_Current)] (c_TraceSampleRatio cfg)
                      in (Inr provider, [PropagatorSet, Opened Exporter, ProviderSet provider])))))"

definition telemetry_shutdown :: "tracer \<Rightarrow> act list" where
  "telemetry_shutdown t = (case t of NoopTracer \<Rightarrow> [] | BatchTracer _ _ _ \<Rightarrow> [Closed Exporter])"

section \<open>The background cleanup\<close>

text \<open>The loop of \<open>runCleanup\<close>: ticks until the context is done.\<close>

datatype cleanup_event = CleanupTick instant | ContextDone

definition cleanup_tick :: "'s service \<Rightarrow> instant \<Rightarrow> ('s, 'l) world \<Rightarrow> ('s, 'l) world" where
  "cleanup_tick svc now st =
     (case svc_DeleteExpired svc now (w_store st) of
        (Inl e, s') \<Rightarrow> add_log (LogCleanupFailed e) (st\<lparr>w_store := s'\<rparr>)
      | (Inr deleted, s') \<Rightarrow>
          if 0 < deleted then add_log (LogCleanupDeleted deleted) (st\<lparr>w_store := s'\<rparr>)
          else st\<lparr>w_store := s'\<rparr>)"

fun runCleanup :: "'s service \<Rightarrow> cleanup_event list \<Rightarrow> ('s, 'l) world \<Rightarrow> ('s, 'l) world" where
  "runCleanup svc [] st = st"
| "runCleanup svc (ContextDone # es) st = st"
| "runCleanup svc (CleanupTick now # es) st = runCleanup svc es (cleanup_tick svc now st)"

text \<open>
  While the process runs, requests and ticks take effect one after the other: the stores make
  each call atomic, and the rest of the state is the metrics, the log and the limiter, each
  behind its own lock.
\<close>

datatype run_event = Request request | Tick instant

fun run_event_step :: "('s, 'l) api \<Rightarrow> run_event \<Rightarrow> ('s, 'l) world \<Rightarrow> ('s, 'l) world" where
  "run_event_step a (Request r) st = snd (snd (serve a r fresh_writer st))"
| "run_event_step a (Tick now) st = cleanup_tick (a_service a) now st"

definition run_events :: "('s, 'l) api \<Rightarrow> run_event list \<Rightarrow> ('s, 'l) world \<Rightarrow> ('s, 'l) world" where
  "run_events a es st = fold (run_event_step a) es st"

section \<open>The process\<close>

datatype listen_error = ErrServerClosed | ListenFailed string

datatype stop = ListenReturned "listen_error option" | SignalReceived

datatype run_result = RunOk | LoadFailed config_error | RunError string | RunPanic string

type_synonym 'b run_outcome = "run_result \<times> (any_store, 'b any_limiter) world option \<times> act list"

text \<open>\<open>defer\<close>: what was opened comes first, and is closed after everything that follows.\<close>

definition deferring :: "act list \<Rightarrow> act list \<Rightarrow> 'b run_outcome \<Rightarrow> 'b run_outcome" where
  "deferring opening closing rest = (case rest of (res, w, acts) \<Rightarrow> (res, w, opening @ acts @ closing))"

definition http_server_of :: "config \<Rightarrow> http_server" where
  "http_server_of cfg = \<lparr>hs_Addr = c_HTTPAddr cfg, hs_ReadTimeout = c_ReadTimeout cfg,
     hs_WriteTimeout = c_WriteTimeout cfg, hs_IdleTimeout = c_IdleTimeout cfg\<rparr>"

definition service_of :: "'b outside \<Rightarrow> config \<Rightarrow> any_store service" where
  "service_of x cfg = NewService (any_store_ops (x_time x)) (NewGenerator (c_CodeLength cfg)) (c_BaseURL cfg)
     [WithPrivateTargetRejection (c_RejectPrivateTargets cfg)]"

text \<open>From the end of serving to the end of \<open>Run\<close>.\<close>

definition shut_down :: "stop \<Rightarrow> string option \<Rightarrow> (any_store, 'b any_limiter) world \<Rightarrow> 'b run_outcome" where
  "shut_down stop shutdown st =
     (let rest = deferring [Opened ShutdownContext] [Closed ShutdownContext]
            (case shutdown of
               Some e \<Rightarrow> (RunError (''shutdown failed: '' @ e), Some st, [])
             | None \<Rightarrow> (RunOk, Some st, [Stopped]))
      in case stop of
           ListenReturned (Some (ListenFailed e)) \<Rightarrow> (RunError (''server stopped unexpectedly: '' @ e), Some st, [])
         | ListenReturned _ \<Rightarrow> rest
         | SignalReceived \<Rightarrow> deferring [ShutdownSignal] [] rest)"

text \<open>From the call of \<open>server.NewHandler\<close> on; a panic runs the deferred calls too.\<close>

definition run_server ::
  "'b outside \<Rightarrow> config \<Rightarrow> any_store \<times> string \<Rightarrow> 'b any_limiter \<times> string \<Rightarrow> entropy
    \<Rightarrow> run_event list \<Rightarrow> stop \<Rightarrow> string option \<Rightarrow> 'b run_outcome" where
  "run_server x cfg store rateLimiter src events stop shutdown =
     (case NewHandler (x_buckets x) cfg (service_of x cfg) (Some (fst rateLimiter)) of
        Inl e \<Rightarrow> (RunPanic e, None, [])
      | Inr (api, limiter0, metrics0) \<Rightarrow>
          (let st = \<lparr>w_store = fst store, w_entropy = src, w_limiter = limiter0, w_metrics = metrics0,
                 w_log = [], w_open = [], w_spans = []\<rparr>;
               cleaning = 0 < c_CleanupInterval cfg;
               st' = run_events api (filter (\<lambda>e. cleaning \<or> (\<forall>now. e \<noteq> Tick now)) events) st
           in deferring [Opened Signals] [Closed Signals]
                (deferring [Opened CleanupContext] [Closed CleanupContext]
                  (deferring (if cleaning then [CleanupStarted (c_CleanupInterval cfg)] else []) []
                    (deferring [Listening (http_server_of cfg) (snd store) (snd rateLimiter)] []
                      (shut_down stop shutdown st'))))))"

definition Run :: "'b outside \<Rightarrow> entropy \<Rightarrow> run_event list \<Rightarrow> stop \<Rightarrow> string option \<Rightarrow> 'b run_outcome" where
  "Run x src events stop shutdown =
     (case Load (x_env x) of
        Inl e \<Rightarrow> (LoadFailed e, None, [])
      | Inr cfg \<Rightarrow>
          (case telemetry_Setup x cfg of
             (Inl e, acts) \<Rightarrow> (RunError (''setup telemetry: '' @ e), None, acts)
           | (Inr tracer, acts) \<Rightarrow>
               deferring acts (telemetry_shutdown tracer)
                 (case openStore x cfg of
                    Inl e \<Rightarrow> (RunError (''open store: '' @ e), None, [])
                  | Inr store \<Rightarrow>
                      deferring [Opened StoreConn] [Closed StoreConn]
                        (case openRateLimiter x cfg of
                           (Inl e, acts') \<Rightarrow> (RunError (''open rate limiter: '' @ e), None, acts')
                         | (Inr rateLimiter, acts') \<Rightarrow>
                             deferring acts' [Closed LimiterConn]
                               (run_server x cfg store rateLimiter src events stop shutdown)))))"

section \<open>Everything is closed\<close>

text \<open>A trace that closes what it opens, the last opened first.\<close>

fun closes_all :: "resource list \<Rightarrow> act list \<Rightarrow> bool" where
  "closes_all rs [] \<longleftrightarrow> rs = []"
| "closes_all rs (Opened r # as) \<longleftrightarrow> closes_all (r # rs) as"
| "closes_all rs (Closed r # as) \<longleftrightarrow> rs \<noteq> [] \<and> hd rs = r \<and> closes_all (tl rs) as"
| "closes_all rs (CleanupStarted d # as) \<longleftrightarrow> closes_all rs as"
| "closes_all rs (Listening h a b # as) \<longleftrightarrow> closes_all rs as"
| "closes_all rs (ShutdownSignal # as) \<longleftrightarrow> closes_all rs as"
| "closes_all rs (Stopped # as) \<longleftrightarrow> closes_all rs as"
| "closes_all rs (PropagatorSet # as) \<longleftrightarrow> closes_all rs as"
| "closes_all rs (ProviderSet t # as) \<longleftrightarrow> closes_all rs as"

lemma closes_all_append: "closes_all rs as \<Longrightarrow> closes_all (rs @ ts) (as @ bs) \<longleftrightarrow> closes_all ts bs"
  by (induction rs as rule: closes_all.induct) auto

text \<open>The outcome of a part of \<open>Run\<close> whose own trace closes what it opens.\<close>

definition tidy :: "'b run_outcome \<Rightarrow> bool" where
  "tidy res \<longleftrightarrow> closes_all [] (snd (snd res))"

lemma deferring_acts [simp]: "snd (snd (deferring opening closing rest)) = opening @ snd (snd rest) @ closing"
  by (cases rest) (simp add: deferring_def)

lemma tidy_resource: "tidy rest \<Longrightarrow> tidy (deferring [Opened r] [Closed r] rest)"
  using closes_all_append [of "[]" "snd (snd rest)" "[r]" "[Closed r]"] by (simp add: tidy_def)

lemma tidy_nothing: "tidy rest \<Longrightarrow> tidy (deferring [] [] rest)"
  by (simp add: tidy_def)

lemma tidy_note:
  "tidy rest \<Longrightarrow> tidy (deferring [CleanupStarted d] [] rest)"
  "tidy rest \<Longrightarrow> tidy (deferring [Listening h l l'] [] rest)"
  "tidy rest \<Longrightarrow> tidy (deferring [ShutdownSignal] [] rest)"
  by (simp_all add: tidy_def)

lemma tidy_plain [simp]: "tidy (res, w, [])" "tidy (res, w, [Stopped])"
  by (simp_all add: tidy_def)

lemmas tidy_rules = tidy_resource tidy_nothing tidy_note

lemma shut_down_tidy: "tidy (shut_down stop shutdown st)"
  by (auto simp: shut_down_def Let_def intro!: tidy_rules split: stop.split option.split listen_error.split)

lemma run_server_tidy: "tidy (run_server x cfg store rateLimiter src events stop shutdown)"
  by (auto simp: run_server_def Let_def shut_down_tidy intro!: tidy_rules split: sum.split)

lemma openRateLimiter_acts:
  "openRateLimiter x cfg = (Inl e, acts) \<Longrightarrow> closes_all [] acts"
  "openRateLimiter x cfg = (Inr l, acts) \<Longrightarrow> acts = [Opened LimiterConn]"
  by (auto simp: openRateLimiter_def split: if_splits sum.splits prod.splits)

lemma openStore_opened:
  "openStore x cfg = Inr (s, l) \<Longrightarrow> c_StorageDriver cfg = ''sqlite'' \<or> c_StorageDriver cfg = ''postgres''"
  by (auto simp: openStore_def split: if_splits)

lemma telemetry_acts:
  "telemetry_Setup x cfg = (Inr t, acts) \<Longrightarrow> tidy rest \<Longrightarrow> tidy (deferring acts (telemetry_shutdown t) rest)"
  "telemetry_Setup x cfg = (Inl e, acts) \<Longrightarrow> x_resource x = None \<or> x_exporter x \<noteq> None \<Longrightarrow> closes_all [] acts"
  using tidy_resource [of rest Exporter]
  by (auto simp: telemetry_Setup_def telemetry_shutdown_def tidy_def Let_def split: if_splits option.splits)

text \<open>Every way \<open>Run\<close> can end closes what was opened, a failing resource of the tracer apart.\<close>

lemma Run_tidy:
  assumes "x_resource x = None \<or> x_exporter x \<noteq> None"
  shows "tidy (Run x src events stop shutdown)"
proof (cases "Load (x_env x)")
  case (Inr cfg)
  obtain res acts where t: "telemetry_Setup x cfg = (res, acts)" by fastforce
  obtain lres lacts where l: "openRateLimiter x cfg = (lres, lacts)" by fastforce
  have lim: "tidy (case openRateLimiter x cfg of
       (Inl e, acts') \<Rightarrow> (RunError (''open rate limiter: '' @ e), None, acts')
     | (Inr rateLimiter, acts') \<Rightarrow>
         deferring acts' [Closed LimiterConn] (run_server x cfg store rateLimiter src events stop shutdown))" for store
    using openRateLimiter_acts [of x cfg] l
    by (cases lres) (auto simp: tidy_def [of "(_, _, lacts)"] intro!: tidy_rules run_server_tidy)
  show ?thesis
  proof (cases res)
    case (Inl e)
    then have "closes_all [] acts" using telemetry_acts(2) t assms by blast
    with Inl Inr t show ?thesis by (simp add: Run_def tidy_def)
  next
    case (Inr tracer)
    have "tidy (case openStore x cfg of
        Inl e \<Rightarrow> (RunError (''open store: '' @ e), None, [])
      | Inr store \<Rightarrow> deferring [Opened StoreConn] [Closed StoreConn]
          (case openRateLimiter x cfg of
             (Inl e, acts') \<Rightarrow> (RunError (''open rate limiter: '' @ e), None, acts')
           | (Inr rateLimiter, acts') \<Rightarrow>
               deferring acts' [Closed LimiterConn] (run_server x cfg store rateLimiter src events stop shutdown)))"
      using lim by (auto split: sum.split intro!: tidy_rules)
    then have "tidy (deferring acts (telemetry_shutdown tracer) (case openStore x cfg of
        Inl e \<Rightarrow> (RunError (''open store: '' @ e), None, [])
      | Inr store \<Rightarrow> deferring [Opened StoreConn] [Closed StoreConn]
          (case openRateLimiter x cfg of
             (Inl e, acts') \<Rightarrow> (RunError (''open rate limiter: '' @ e), None, acts')
           | (Inr rateLimiter, acts') \<Rightarrow>
               deferring acts' [Closed LimiterConn] (run_server x cfg store rateLimiter src events stop shutdown))))"
      using telemetry_acts(1) [of x cfg tracer acts] t Inr by blast
    with \<open>Load (x_env x) = Inr cfg\<close> t Inr show ?thesis by (simp add: Run_def)
  qed
qed (simp add: Run_def)

text \<open>The exporter that is left open.\<close>

lemma Run_leaks_exporter:
  assumes "Load (x_env x) = Inr cfg" "c_TracingEnabled cfg" "x_exporter x = None" "x_resource x = Some e"
  shows "Run x src events stop shutdown
    = (RunError (''setup telemetry: create otel resource: '' @ e), None, [PropagatorSet, Opened Exporter])"
  using assms by (simp add: Run_def telemetry_Setup_def Let_def)

section \<open>The store of the process\<close>

lemma on_store_Inl:
  "on_store f g s = (Inl e, s') \<Longrightarrow> (\<exists>d d'. f d = (Inl e, d')) \<or> (\<exists>d d'. g d = (Inl e, d'))"
  by (auto simp: on_store_def split: any_store.splits prod.splits)

lemma any_store_sane: "store_create_sane (any_store_ops ts)" "store_read_sane (any_store_ops ts)"
proof -
  show "store_create_sane (any_store_ops ts)"
    using sqlite_sane(1) postgres_sane(1) [of ts]
    by (simp add: store_create_sane_def sqlite_ops_def postgres_ops_def) (metis on_store_Inl)
  note sq = sqlite_sane(2) [unfolded store_read_sane_def sqlite_ops_def, simplified, THEN conjunct1]
      sqlite_sane(2) [unfolded store_read_sane_def sqlite_ops_def, simplified, THEN conjunct2]
    and pg = postgres_sane(2) [of ts, unfolded store_read_sane_def postgres_ops_def, simplified, THEN conjunct1]
      postgres_sane(2) [of ts, unfolded store_read_sane_def postgres_ops_def, simplified, THEN conjunct2]
  show "store_read_sane (any_store_ops ts)"
    unfolding store_read_sane_def any_store_ops_simps
  proof (intro conjI allI impI)
    fix c s e s' assume "on_store (sq_GetRule c) (pg_GetRule c) s = (Inl e, s')"
    from on_store_Inl [OF this] show "(\<exists>m. e = OtherError m) \<or> e = ErrNotFound" using sq pg by metis
  next
    fix c s e s' assume "on_store (sq_DeleteRule c) (pg_DeleteRule c) s = (Inl e, s')"
    from on_store_Inl [OF this] show "(\<exists>m. e = OtherError m) \<or> e = ErrNotFound" using sq pg by metis
  next
    fix c n s e s' assume "on_store (sq_ResolveRule c n) (pg_ResolveRule ts c n) s = (Inl e, s')"
    from on_store_Inl [OF this] show "(\<exists>m. e = OtherError m) \<or> e = ErrNotFound \<or> (\<exists>r t. e = ExpiredError r t)"
      using sq pg by metis
  qed
qed

lemma service_of_simps [simp]:
  "svc_store (service_of x cfg) = any_store_ops (x_time x)"
  "svc_generator (service_of x cfg) = NewGenerator (c_CodeLength cfg)"
  "svc_Now (service_of x cfg) wall = wall"
  "svc_rejectPrivateTargets (service_of x cfg) = c_RejectPrivateTargets cfg"
  by (simp_all add: service_of_def NewService_def WithPrivateTargetRejection_def svc_Now_def)

section \<open>The cleanup loop\<close>

text \<open>The ticks before the context is done, whatever each of them returns.\<close>

fun ticks :: "cleanup_event list \<Rightarrow> instant list" where
  "ticks [] = []"
| "ticks (ContextDone # es) = []"
| "ticks (CleanupTick now # es) = now # ticks es"

lemma runCleanup_ticks: "runCleanup svc es st = fold (cleanup_tick svc) (ticks es) st"
  by (induction svc es st rule: runCleanup.induct) auto

lemma run_events_ticks: "run_events a (map Tick ts) st = fold (cleanup_tick (a_service a)) ts st"
proof -
  have "run_event_step a (Tick now) = cleanup_tick (a_service a) now" for now by (rule ext) simp
  then show ?thesis by (simp add: run_events_def fold_map comp_def)
qed

lemma cleanup_tick_store: "w_store (cleanup_tick svc now st) = snd (svc_DeleteExpired svc now (w_store st))"
  by (simp add: cleanup_tick_def split: prod.split sum.split)

end
