(* ===== verification/Process.thy ===== *)
theory Process
  imports App
begin

text \<open>
  A whole run of the process: any sequence of requests and cleanup ticks on one store, with
  whatever database calls fail. What each of them can do to the links, and the limit of a link
  over the run.
\<close>

section \<open>What one request does to the store\<close>

lemma serve_creating_store:
  fixes st :: "('s, 'l) world"
  assumes "creating (route_for a r)" "serve a r fresh_writer st = (oc, w2, st2)"
  shows "w_store st2 = w_store st
    \<or> (\<exists>req res src'. asked (route_for a r) r = Some req
        \<and> svc_CreateRule (a_service a) (q_Now r) (input_of req) (w_store st, w_entropy st) = (res, (w_store st2, src')))"
proof -
  obtain allowed l' where al:
    "lim_Allow (a_limiter a) (q_Now r) (clientIP (c_TrustedProxies (a_cfg a)) r) (w_limiter st) = (allowed, l')"
    by fastforce
  obtain label where label: "route_label (route_for a r) = Some label"
    using creating_handler [OF assms(1)] by metis
  consider e where "allowed = Inl e" | "allowed = Inr False" | "allowed = Inr True" "asked (route_for a r) r = None"
    | req where "allowed = Inr True" "asked (route_for a r) r = Some req"
    by (metis (full_types) not_None_eq sumE)
  then show ?thesis
  proof cases
    case 1
    then show ?thesis using serve_limiter_down [OF assms(1)] al assms(2) by (metis Pair_inject)
  next
    case 2
    then show ?thesis using serve_rate_limited [OF assms(1) label] al assms(2) by (metis Pair_inject)
  next
    case 3
    then show ?thesis using serve_unreadable [OF assms(1)] al assms(2) by (metis Pair_inject)
  next
    case 4
    obtain res s' src' where c: "svc_CreateRule (a_service a) (q_Now r) (input_of req) (w_store st, w_entropy st)
        = (res, (s', src'))" by (metis prod.exhaust)
    have "w_store st2 = s'"
      using serve_creates [OF assms(1) 4(2) al [unfolded 4(1)] c] assms(2) by (metis Pair_inject)
    then show ?thesis using 4(2) c by blast
  qed
qed

lemma serve_redirect_store:
  fixes st :: "('s, 'l) world"
  assumes "route_for a r = RRedirect raw" "serve a r fresh_writer st = (oc, w2, st2)"
  obtains res where "svc_ResolveRule (a_service a) (q_Now r) raw (w_store st) = (res, w_store st2)"
    "map_option fst (rw_Sent w2) = Some 302 \<longleftrightarrow> is_ok res"
proof -
  have h: "handler_of a (route_for a r) = instrument ''redirect'' (handleRedirect a)"
    by (simp add: assms(1) handler_of_def)
  obtain res s' where svc: "svc_ResolveRule (a_service a) (q_Now r) raw (w_store st) = (res, s')" by fastforce
  show thesis
  proof (cases res)
    case (Inl e)
    obtain w1 st1 where w: "writeServiceError a (routed a r) e (push_recorder (inner_writer r))
        (upd_metrics (IncRedirect (redirect_result e)) ((entered r st)\<lparr>w_store := s'\<rparr>)) = (w1, st1)" by fastforce
    have run: "handleRedirect a (routed a r) (push_recorder (inner_writer r)) (entered r st) = (Returned, w1, st1)"
      using svc Inl w by (simp add: handleRedirect_def assms(1) path_code_def)
    note w' = writeServiceError_writer [OF _ w]
    have "error_status e \<noteq> 302" using error_status_range [of e] by auto
    show thesis
      by (rule serve_instrument [OF h run])
        (rule that [of res], use assms(2) svc Inl \<open>error_status e \<noteq> 302\<close> in \<open>simp_all add: w'\<close>)
  next
    case (Inr rule)
    have run: "handleRedirect a (routed a r) (push_recorder (inner_writer r)) (entered r st)
      = (Returned, http_Redirect (routed a r) (r_URL rule) 302 (push_recorder (inner_writer r)),
         upd_metrics (IncRedirect ''success'') ((entered r st)\<lparr>w_store := s'\<rparr>))"
      using svc Inr by (simp add: handleRedirect_def assms(1) path_code_def)
    show thesis
      by (rule serve_instrument [OF h run]) (rule that [of res], use assms(2) svc Inr in \<open>simp_all add: redirect_writer\<close>)
  qed
qed

lemma handleDeleteRule_store:
  assumes "svc_DeleteRule (a_service a) (q_PathCode r) (w_store st) = (res, s')"
  obtains w1 st1 where "handleDeleteRule a r w st = (Returned, w1, st1)" "w_store st1 = s'"
proof (cases res)
  case (Inl e)
  then show thesis using assms
    by (intro that [of "fst (writeServiceError a r e w (st\<lparr>w_store := s'\<rparr>))"
          "snd (writeServiceError a r e w (st\<lparr>w_store := s'\<rparr>))"])
      (simp_all add: handleDeleteRule_def split: prod.split)
next
  case (Inr u)
  then show thesis using assms
    by (intro that [of "WriteHeader 204 w" "st\<lparr>w_store := s'\<rparr>"]) (simp_all add: handleDeleteRule_def)
qed

lemma serve_delete_store:
  fixes st :: "('s, 'l) world"
  assumes "route_for a r = RDelete raw" "serve a r fresh_writer st = (oc, w2, st2)"
  shows "w_store st2 = w_store st \<or> (\<exists>res. svc_DeleteRule (a_service a) raw (w_store st) = (res, w_store st2))"
proof -
  have h: "handler_of a (route_for a r) = instrument ''delete_rule'' (withAdminAuth a (handleDeleteRule a))"
    by (simp add: assms(1) handler_of_def)
  show ?thesis
  proof (cases "c_AdminToken (a_cfg a) \<noteq> [] \<and> admin_token_of r \<noteq> c_AdminToken (a_cfg a)")
    case True
    then show ?thesis using serve_not_admin [OF assms(1)] assms(2) by (metis Pair_inject)
  next
    case False
    obtain res s' where svc: "svc_DeleteRule (a_service a) raw (w_store st) = (res, s')" by fastforce
    then have "svc_DeleteRule (a_service a) (q_PathCode (routed a r)) (w_store (entered r st)) = (res, s')"
      by (simp add: assms(1) path_code_def)
    then obtain w1 st1 where run: "handleDeleteRule a (routed a r) (push_recorder (inner_writer r)) (entered r st) = (Returned, w1, st1)"
      "w_store st1 = s'" by (rule handleDeleteRule_store)
    have "withAdminAuth a (handleDeleteRule a) (routed a r) (push_recorder (inner_writer r)) (entered r st) = (Returned, w1, st1)"
      using False run(1) by (auto simp: withAdminAuth_def)
    then have "w_store st2 = s'"
      by (rule serve_instrument [OF h]) (use assms(2) run(2) in simp)
    with svc show ?thesis by blast
  qed
qed

section \<open>What one request or tick does to the links\<close>

text \<open>New links only, and unused ones.\<close>

definition grows :: "table \<Rightarrow> table \<Rightarrow> bool" where
  "grows m m' \<longleftrightarrow> m \<subseteq>\<^sub>m m' \<and> (\<forall>c q. m' c = Some q \<longrightarrow> m c = Some q \<or> r_UsedCount q = 0)"

lemma grows_refl [simp]: "grows m m"
  by (simp add: grows_def)

lemma grows_trans: "grows m1 m2 \<Longrightarrow> grows m2 m3 \<Longrightarrow> grows m1 m3"
  unfolding grows_def using map_le_trans by blast

lemma grows_roomy: "grows m m' \<Longrightarrow> roomy k m \<Longrightarrow> k \<le> 9223372036854775807 \<Longrightarrow> roomy k m'"
  unfolding grows_def roomy_def by (metis add_0 order_refl)

text \<open>The conditions of the stores on times and rules, for the requests and ticks of a run.\<close>

definition event_ok :: "(rule \<Rightarrow> bool) \<Rightarrow> (instant \<Rightarrow> bool) \<Rightarrow> ('s, 'l) api \<Rightarrow> run_event \<Rightarrow> bool" where
  "event_ok storable timely a e =
     (case e of
        Tick now \<Rightarrow> timely (svc_Now (a_service a) now)
      | Request r \<Rightarrow> timely (svc_Now (a_service a) (q_Now r)) \<and>
          (\<forall>req rule. asked (route_for a r) r = Some req \<longrightarrow>
             ruleFromInput (svc_rejectPrivateTargets (a_service a)) (input_of req)
               (svc_Now (a_service a) (q_Now r)) = Inr rule \<longrightarrow> storable_as storable rule))"

text \<open>The requests for \<open>/r/c\<close> that are answered with a redirection.\<close>

definition redirected_to :: "('s, 'l) api \<Rightarrow> string \<Rightarrow> request \<Rightarrow> writer \<Rightarrow> bool" where
  "redirected_to a c r w \<longleftrightarrow>
     (case route_for a r of RRedirect raw \<Rightarrow> trim_space raw = c | _ \<Rightarrow> False) \<and> map_option fst (rw_Sent w) = Some 302"

fun redirections :: "('s, 'l) api \<Rightarrow> string \<Rightarrow> run_event list \<Rightarrow> ('s, 'l) world \<Rightarrow> nat" where
  "redirections a c [] st = 0"
| "redirections a c (Tick now # es) st = redirections a c es (cleanup_tick (a_service a) now st)"
| "redirections a c (Request r # es) st =
     (case serve a r fresh_writer st of
        (oc, w, st') \<Rightarrow> (if redirected_to a c r w then 1 else 0) + redirections a c es st')"

definition event_creates :: "('s, 'l) api \<Rightarrow> run_event \<Rightarrow> bool" where
  "event_creates a e \<longleftrightarrow> (case e of Request r \<Rightarrow> creating (route_for a r) | Tick _ \<Rightarrow> False)"

text \<open>Once the code has no link it gets none.\<close>

fun not_reissued :: "('s, 'l) api \<Rightarrow> ('s \<Rightarrow> table) \<Rightarrow> string \<Rightarrow> run_event list \<Rightarrow> ('s, 'l) world \<Rightarrow> bool" where
  "not_reissued a look c [] st \<longleftrightarrow> True"
| "not_reissued a look c (e # es) st \<longleftrightarrow>
     (look (w_store st) c = None \<longrightarrow> look (w_store (run_event_step a e st)) c = None)
     \<and> not_reissued a look c es (run_event_step a e st)"

text \<open>The same link, but for its uses.\<close>

definition same_link :: "rule \<Rightarrow> rule \<Rightarrow> bool" where
  "same_link r q \<longleftrightarrow> r_Code q = r_Code r \<and> r_URL q = r_URL r \<and> r_MaxUsages q = r_MaxUsages r"

context rule_store
begin

lemma create_any:
  assumes "wf s" "storable r" "r_UsedCount r = 0" "op_CreateRule ops r s = (res, s')"
  shows "wf s' \<and> grows (look s) (look s')"
proof -
  have "look s' = look s \<or> look s (r_Code r) = None \<and> look s' = (look s)(r_Code r \<mapsto> keeps r)"
    using assms create_Inl [OF assms(1,2)] create_Inr [OF assms(1,2)] by (cases res) auto
  then show ?thesis
    using create_wf [OF assms(1,2,4)] assms(3) keeps_frame(4) [of r] by (auto simp: grows_def map_le_def split: if_splits)
qed

lemma create_generated_any:
  assumes "svc_store svc = ops"
  shows "wf s \<Longrightarrow> storable_as storable r \<Longrightarrow> r_UsedCount r = 0 \<Longrightarrow>
    create_generated k svc r (s, src) = (res, (s', src')) \<Longrightarrow> wf s' \<and> grows (look s) (look s')"
proof (induction k arbitrary: r s src)
  case (Suc k)
  obtain gc src1 where g: "Generate (svc_generator svc) src = (gc, src1)" by fastforce
  show ?case
  proof (cases gc)
    case (Inl e)
    then show ?thesis using Suc.prems g by auto
  next
    case (Inr code)
    obtain cres s1 where c: "op_CreateRule ops (r\<lparr>r_Code := code\<rparr>) s = (cres, s1)" by fastforce
    have one: "wf s1 \<and> grows (look s) (look s1)"
      by (rule create_any [OF Suc.prems(1) storable_asD [OF Suc.prems(2)] _ c]) (simp add: Suc.prems(3))
    show ?thesis
    proof (cases "cres = Inl ErrAlreadyExists")
      case True
      then have "create_generated k svc (r\<lparr>r_Code := code\<rparr>) (s1, src1) = (res, (s', src'))"
        using Suc.prems(4) g Inr c assms by simp
      then have "wf s' \<and> grows (look s1) (look s')" using Suc.IH [of s1 "r\<lparr>r_Code := code\<rparr>" src1] one Suc.prems(2,3) by simp
      then show ?thesis using one grows_trans by blast
    next
      case False
      then have "s' = s1" using Suc.prems(4) g Inr c assms by (auto split: sum.splits if_splits)
      then show ?thesis using one by simp
    qed
  qed
qed auto

lemma service_create_any:
  assumes "svc_store svc = ops" "wf s"
    "\<And>r. ruleFromInput (svc_rejectPrivateTargets svc) input (svc_Now svc wall) = Inr r \<Longrightarrow> storable_as storable r"
    "svc_CreateRule svc wall input (s, src) = (res, (s', src'))"
  shows "wf s' \<and> grows (look s) (look s')"
proof (cases "ruleFromInput (svc_rejectPrivateTargets svc) input (svc_Now svc wall)")
  case (Inr r)
  note st = assms(3) [OF Inr] and use = ruleFromInput_Inr(5) [OF Inr]
  show ?thesis
  proof (cases "r_Code r = []")
    case True
    then show ?thesis using create_generated_any [OF assms(1,2) st use] assms(4) Inr by (simp add: svc_CreateRule_def)
  next
    case False
    obtain cres s1 where c: "op_CreateRule ops r s = (cres, s1)" by fastforce
    then have "s' = s1" using assms(1,4) Inr False by (auto simp: svc_CreateRule_def split: sum.splits)
    then show ?thesis using create_any [OF assms(2) storable_as_self [OF st] use c] by simp
  qed
qed (use assms(2,4) in \<open>simp add: svc_CreateRule_def\<close>)

text \<open>
  What an event leaves at a code, and whether it was a redirection of the code: nothing more
  than a use that the link allowed.
\<close>

lemma event_effect:
  fixes st :: "('s, 'l) world"
  assumes svc: "svc_store (a_service a) = ops" and st: "wf (w_store st)" and ok: "event_ok storable timely a e"
    and room: "roomy k (look (w_store st))" "0 < k" "k \<le> 9223372036854775807"
  defines "st' \<equiv> run_event_step a e st"
  shows "wf (w_store st')" (is ?wf)
    "roomy (k - 1) (look (w_store st'))" (is ?roomy)
    "look (w_store st') c = None \<or> look (w_store st) c = None \<or> look (w_store st') c = look (w_store st) c
     \<or> (\<exists>r now. look (w_store st) c = Some r \<and> \<not> fst (Expired r now) \<and> look (w_store st') c = Some (keeps (used r now)))"
     (is ?kept)
    "int (redirections a c [e] st) \<le> (if \<exists>r now. look (w_store st) c = Some r \<and> \<not> fst (Expired r now)
       \<and> look (w_store st') c = Some (keeps (used r now)) then 1 else 0)" (is ?hit)
    "\<not> event_creates a e \<Longrightarrow> look (w_store st) c = None \<Longrightarrow> look (w_store st') c = None"
proof -
  let ?dom = "\<not> event_creates a e \<longrightarrow> look (w_store st) c = None \<longrightarrow> look (w_store st') c = None"
  let ?m = "look (w_store st)" and ?m' = "look (w_store st')"
  let ?used = "\<lambda>c. \<exists>r now. ?m c = Some r \<and> \<not> fst (Expired r now) \<and> ?m' c = Some (keeps (used r now))"
  have room1: "roomy 1 ?m" using room roomy_mono by auto
  have easy: "?wf \<and> ?roomy \<and> ?kept \<and> ?hit \<and> ?dom"
    if "wf (w_store st')" "grows ?m ?m' \<and> event_creates a e \<or> ?m' \<subseteq>\<^sub>m ?m" "redirections a c [e] st = 0"
  proof -
    have "roomy (k - 1) ?m'" using that(2)
    proof
      assume "grows ?m ?m' \<and> event_creates a e"
      then show ?thesis using grows_roomy room roomy_mono by fastforce
    next
      assume "?m' \<subseteq>\<^sub>m ?m"
      then have "roomy k ?m'" using room(1) unfolding roomy_def map_le_def by (metis domI)
      then show ?thesis using roomy_mono by fastforce
    qed
    moreover have "?m' c = None \<or> ?m c = None \<or> ?m' c = ?m c"
      using that(2) unfolding grows_def map_le_def by (metis domIff)
    moreover have ?dom using that(2) unfolding map_le_def by (metis domIff)
    ultimately show ?thesis using that by auto
  qed
  have "?wf \<and> ?roomy \<and> ?kept \<and> ?hit \<and> ?dom"
  proof (cases e)
    case (Tick now)
    obtain res s' where d: "op_DeleteExpired ops (svc_Now (a_service a) now) (w_store st) = (res, s')" by fastforce
    have s': "w_store st' = s'"
      using d svc by (simp add: st'_def Tick cleanup_tick_store svc_DeleteExpired_eq)
    have t: "timely (svc_Now (a_service a) now)" using ok Tick by (simp add: event_ok_def)
    have "look s' = ?m \<or> look s' = swept (\<lambda>r. sweeps r (svc_Now (a_service a) now)) ?m"
      using d sweep_Inr [OF st t] sweep_Inl [OF st t] by (cases res) auto
    then have "?m' \<subseteq>\<^sub>m ?m" using s' swept_le by (fastforce simp: map_le_def)
    then show ?thesis using easy sweep_wf [OF st d] s' Tick by simp
  next
    case (Request r)
    obtain oc w2 st2 where sv: "serve a r fresh_writer st = (oc, w2, st2)" by (metis prod.exhaust)
    have s': "st' = st2" by (simp add: st'_def Request sv)
    have t: "timely (svc_Now (a_service a) (q_Now r))" using ok Request by (simp add: event_ok_def)
    have hits: "redirections a c [e] st = (if redirected_to a c r w2 then 1 else 0)" by (simp add: Request sv)
    consider "creating (route_for a r)" | raw where "route_for a r = RDelete raw"
      | raw where "route_for a r = RRedirect raw"
      | "\<not> creating (route_for a r)" "\<And>c. route_for a r \<noteq> RDelete c" "\<And>c. route_for a r \<noteq> RRedirect c"
      by blast
    then show ?thesis
    proof cases
      case 1
      have "wf (w_store st2) \<and> grows ?m (look (w_store st2))"
        using serve_creating_store [OF 1 sv]
      proof (elim disjE exE conjE)
        fix req res src'
        assume cr: "asked (route_for a r) r = Some req" "svc_CreateRule (a_service a) (q_Now r) (input_of req)
          (w_store st, w_entropy st) = (res, (w_store st2, src'))"
        show ?thesis
          by (rule service_create_any [OF svc st _ cr(2)]) (use ok Request cr(1) in \<open>simp add: event_ok_def\<close>)
      qed (use st in simp)
      moreover have "redirections a c [e] st = 0" using 1 hits by (auto simp: redirected_to_def creating_def)
      moreover have "event_creates a e" using 1 Request by (simp add: event_creates_def)
      ultimately show ?thesis using easy s' by simp
    next
      case 2
      have "wf (w_store st2) \<and> look (w_store st2) \<subseteq>\<^sub>m ?m"
        using serve_delete_store [OF 2 sv]
      proof (elim disjE exE)
        fix res assume d: "svc_DeleteRule (a_service a) raw (w_store st) = (res, w_store st2)"
        show ?thesis
        proof (cases "validateCode raw")
          case (Inl e)
          then show ?thesis using d st by (simp add: svc_DeleteRule_def)
        next
          case (Inr code)
          then have d': "op_DeleteRule ops code (w_store st) = (res, w_store st2)" using d svc by (simp add: svc_DeleteRule_def)
          have "look (w_store st2) = ?m \<or> look (w_store st2) = ?m(code := None)"
            using d' delete_Inr [OF st] delete_Inl [OF st] by (cases res) auto
          then show ?thesis using delete_wf [OF st d'] by (auto simp: map_le_def split: if_splits)
        qed
      qed (use st in simp)
      moreover have "redirections a c [e] st = 0" using 2 hits by (simp add: redirected_to_def)
      ultimately show ?thesis using easy s' by simp
    next
      case 3
      let ?now = "svc_Now (a_service a) (q_Now r)"
      obtain res where res: "svc_ResolveRule (a_service a) (q_Now r) raw (w_store st) = (res, w_store st2)"
        "map_option fst (rw_Sent w2) = Some 302 \<longleftrightarrow> is_ok res"
        by (rule serve_redirect_store [OF 3 sv])
      have none: "?wf \<and> ?roomy \<and> ?kept \<and> ?hit \<and> ?dom" if "wf (w_store st2)" "look (w_store st2) = ?m" "\<not> is_ok res"
        using easy that s' res(2) hits by (simp add: redirected_to_def)
      show ?thesis
      proof (cases "validateCode raw")
        case (Inl e)
        then have "res = Inl e \<and> w_store st2 = w_store st" using res(1) by (simp add: svc_ResolveRule_def)
        then show ?thesis by (intro none) (use st in simp_all)
      next
        case (Inr code)
        then have code: "trim_space raw = code" by (simp add: validateCode_Inr)
        have d: "op_ResolveRule ops code ?now (w_store st) = (res, w_store st2)"
          using res(1) Inr svc by (simp add: svc_ResolveRule_def)
        note wf2 = resolve_wf [OF st t room1 d]
        have used: "?wf \<and> ?roomy \<and> ?kept \<and> ?hit \<and> ?dom" if "?m code = Some r0" "\<not> fst (Expired r0 ?now)"
          "look (w_store st2) = ?m(code \<mapsto> keeps (used r0 ?now))" for r0
        proof -
          have "r_UsedCount (keeps (used r0 ?now)) = r_UsedCount r0 + 1"
            using roomy_room [OF room1 _ that(1)] by (simp add: keeps_frame)
          then have "roomy (k - 1) ?m'" using room(1) that(1,3) s' unfolding roomy_def by (fastforce split: if_splits)
          moreover have "?hit" using hits that s' 3 code by (auto simp: redirected_to_def)
          moreover have ?dom using that(1,3) s' by auto
          ultimately show ?thesis using wf2 that s' by auto
        qed
        show ?thesis
        proof (cases res)
          case (Inl e)
          from resolve_Inl [OF st t room1 d [unfolded Inl]] show ?thesis
          proof (elim disjE exE conjE)
            assume "look (w_store st2) = ?m"
            then show ?thesis by (intro none wf2) (simp_all add: Inl)
          qed (rule used)
        next
          case (Inr r')
          then show ?thesis using resolve_Inr [OF st t room1] d used by blast
        qed
      qed
    next
      case 4
      have "look (w_store st2) = ?m \<and> wf (w_store st2)" by (rule serve_reads [OF svc st 4 sv])
      moreover have "redirections a c [e] st = 0" using 4 hits by (auto simp: redirected_to_def split: route.splits)
      ultimately show ?thesis using easy s' by simp
    qed
  qed
  then show ?wf ?roomy ?kept ?hit "\<not> event_creates a e \<Longrightarrow> look (w_store st) c = None \<Longrightarrow> look (w_store st') c = None"
    by blast+
qed

text \<open>A run without creations brings no code back.\<close>

lemma not_reissued_if:
  fixes st :: "('s, 'l) world"
  assumes "svc_store (a_service a) = ops"
  shows "wf (w_store st) \<Longrightarrow> list_all (event_ok storable timely a) es \<Longrightarrow> list_all (\<lambda>e. \<not> event_creates a e) es \<Longrightarrow>
    roomy (int (length es)) (look (w_store st)) \<Longrightarrow> int (length es) \<le> 9223372036854775807 \<Longrightarrow>
    not_reissued a look c es st"
proof (induction es arbitrary: st)
  case (Cons e es)
  have ok: "event_ok storable timely a e" and pos: "0 < int (length (e # es))" using Cons.prems(2) by auto
  note eff = event_effect(1,2) [OF assms Cons.prems(1) ok Cons.prems(4) pos Cons.prems(5)]
    event_effect(5) [OF assms Cons.prems(1) ok Cons.prems(4) pos Cons.prems(5), of c]
  show ?case using eff Cons.IH [of "run_event_step a e st"] Cons.prems(2,3,5) by simp
qed simp

text \<open>The limit of a link over a run.\<close>

lemma redirections_Cons:
  "redirections a c (e # es) st = redirections a c [e] st + redirections a c es (run_event_step a e st)"
  by (cases e) (simp_all split: prod.split)

lemma redirections_le_limit:
  fixes st :: "('s, 'l) world"
  assumes "svc_store (a_service a) = ops"
  shows "wf (w_store st) \<Longrightarrow> list_all (event_ok storable timely a) es \<Longrightarrow> not_reissued a look c es st \<Longrightarrow>
    roomy (int (length es)) (look (w_store st)) \<Longrightarrow> int (length es) \<le> 9223372036854775807 \<Longrightarrow>
    int (redirections a c es st) \<le> (case look (w_store st) c of None \<Rightarrow> 0
      | Some r \<Rightarrow> (case r_MaxUsages r of None \<Rightarrow> int (length es) | Some m \<Rightarrow> max 0 (m - r_UsedCount r)))"
proof (induction es arbitrary: st)
  case Nil
  then show ?case by (auto split: option.split)
next
  case (Cons e es)
  let ?st' = "run_event_step a e st"
  have ok: "event_ok storable timely a e" using Cons.prems(2) by simp
  have pos: "0 < int (length (e # es))" by simp
  note eff = event_effect(1,2) [OF assms Cons.prems(1) ok Cons.prems(4) pos Cons.prems(5)]
    event_effect(3,4) [OF assms Cons.prems(1) ok Cons.prems(4) pos Cons.prems(5), of c]
  have IH: "int (redirections a c es ?st') \<le> (case look (w_store ?st') c of None \<Rightarrow> 0
      | Some r \<Rightarrow> (case r_MaxUsages r of None \<Rightarrow> int (length es) | Some m \<Rightarrow> max 0 (m - r_UsedCount r)))"
    using Cons.IH [of ?st'] Cons.prems eff(1,2) by simp
  have room1: "roomy 1 (look (w_store st))" using Cons.prems(4) roomy_mono by fastforce
  have uses: "r_MaxUsages (keeps (used r now)) = r_MaxUsages r"
      "r_UsedCount (keeps (used r now)) = r_UsedCount r + 1"
      "r_MaxUsages r = Some m \<Longrightarrow> r_UsedCount r < m"
    if "look (w_store st) c = Some r" "\<not> fst (Expired r now)" for r now m
    using that roomy_room [OF room1 _ that(1)] by (auto simp: keeps_frame Expired_iff)
  show ?case
  proof (cases "look (w_store st) c")
    case None
    then have "look (w_store ?st') c = None" using Cons.prems(3) by simp
    then show ?thesis using IH eff(4) None redirections_Cons [of a c e es st] by simp
  next
    case (Some r)
    show ?thesis
    proof (cases "\<exists>now. \<not> fst (Expired r now) \<and> look (w_store ?st') c = Some (keeps (used r now))")
      case True
      then obtain now where now: "\<not> fst (Expired r now)" "look (w_store ?st') c = Some (keeps (used r now))" by blast
      note u = uses [OF Some now(1)]
      have one: "int (redirections a c [e] st) \<le> 1" using eff(4) by (auto split: if_splits)
      show ?thesis
      proof (cases "r_MaxUsages r")
        case None
        then show ?thesis using IH one Some now(2) u(1) redirections_Cons [of a c e es st] by simp
      next
        case (Some m)
        have "int (redirections a c es ?st') \<le> max 0 (m - (r_UsedCount r + 1))" using IH now(2) u(1,2) Some by simp
        then show ?thesis
          using one \<open>look (w_store st) c = Some r\<close> Some u(3) [OF Some] redirections_Cons [of a c e es st] by simp
      qed
    next
      case False
      then have "redirections a c [e] st = 0" "look (w_store ?st') c = None \<or> look (w_store ?st') c = Some r"
        using eff(3,4) Some by (auto split: if_splits)
      then show ?thesis using IH Some redirections_Cons [of a c e es st] by (auto split: option.splits)
    qed
  qed
qed

text \<open>A run leaves all of a link but its uses, as long as it is there.\<close>

lemma link_over_run:
  fixes st :: "('s, 'l) world"
  assumes "svc_store (a_service a) = ops"
  shows "wf (w_store st) \<Longrightarrow> list_all (event_ok storable timely a) es \<Longrightarrow> not_reissued a look c es st \<Longrightarrow>
    roomy (int (length es) + 1) (look (w_store st)) \<Longrightarrow> int (length es) < 9223372036854775807 \<Longrightarrow>
    wf (w_store (run_events a es st)) \<and> roomy 1 (look (w_store (run_events a es st)))
    \<and> (case look (w_store (run_events a es st)) c of
         None \<Rightarrow> True
       | Some q \<Rightarrow> (case look (w_store st) c of None \<Rightarrow> False | Some r \<Rightarrow> same_link r q))"
proof (induction es arbitrary: st)
  case Nil
  then show ?case by (simp add: run_events_def same_link_def split: option.split)
next
  case (Cons e es)
  let ?st' = "run_event_step a e st"
  have ok: "event_ok storable timely a e" using Cons.prems(2) by simp
  have k: "0 < int (length (e # es)) + 1" "int (length (e # es)) + 1 \<le> 9223372036854775807" using Cons.prems(5) by simp_all
  note eff = event_effect(1,2) [OF assms Cons.prems(1) ok Cons.prems(4) k]
    event_effect(3) [OF assms Cons.prems(1) ok Cons.prems(4) k, of c]
  have step: "case look (w_store ?st') c of None \<Rightarrow> True
      | Some q \<Rightarrow> (case look (w_store st) c of None \<Rightarrow> False | Some r \<Rightarrow> same_link r q)"
    using eff(3) Cons.prems(3) by (auto simp: same_link_def keeps_frame used_def split: option.split)
  have IH: "wf (w_store (run_events a es ?st')) \<and> roomy 1 (look (w_store (run_events a es ?st')))
    \<and> (case look (w_store (run_events a es ?st')) c of None \<Rightarrow> True
       | Some q \<Rightarrow> (case look (w_store ?st') c of None \<Rightarrow> False | Some r \<Rightarrow> same_link r q))"
    using Cons.IH [OF eff(1)] Cons.prems(2,3,5) eff(2) by (simp add: add.commute)
  have run: "run_events a (e # es) st = run_events a es ?st'" by (simp add: run_events_def)
  show ?case using IH step by (auto simp: run same_link_def split: option.splits)
qed

end

end
