(* ===== verification/Server_Props.thy ===== *)
theory Server_Props
  imports Process
begin

text \<open>
  The properties of the HTTP side: what each request is answered with, what the guards let
  through, what clients see of the links, and the log of the process.
\<close>

section \<open>A server to apply them to\<close>

definition demo_outside :: "token_bucket outside" where
  "demo_outside = \<lparr>x_env = (\<lambda>_. []), x_exporter = None, x_resource = None,
     x_sqlite = (\<lambda>_. demo_sqlite), x_postgres = (\<lambda>_. demo_postgres),
     x_redis = (\<lambda>_ _ _. \<lparr>rd_keys = Map.empty, rd_faults = []\<rparr>), x_buckets = tb_ops, x_wild = (\<lambda>_. 0),
     x_time = pg_micro\<rparr>"

definition demo_config :: config where
  "demo_config = default_config\<lparr>c_AdminToken := ''secret''\<rparr>"

definition demo_api :: "(any_store, token_bucket any_limiter) api" where
  "demo_api = \<lparr>a_cfg = demo_config, a_service = service_of demo_outside demo_config, a_limiter = any_limiter_ops tb_ops\<rparr>"

definition demo_limiter :: "token_bucket any_limiter" where
  "demo_limiter = MemoryLimiter (NewMemory (Fin 30) 10 (10 * minute))"

definition demo_world :: "any_store \<Rightarrow> (any_store, token_bucket any_limiter) world" where
  "demo_world s = \<lparr>w_store = s, w_entropy = demo_entropy, w_limiter = demo_limiter, w_metrics = metrics_New,
     w_log = [], w_open = [], w_spans = []\<rparr>"

definition demo_request :: "string \<Rightarrow> string \<Rightarrow> request" where
  "demo_request m path = \<lparr>q_Method = m, q_Path = path, q_RawPath = [], q_RawQuery = [], q_Header = (\<lambda>_. []),
     q_RemoteAddr = ''10.0.0.1:5000'', q_Host = ''i8.sl'', q_TLS = True,
     q_Body = [], q_PathCode = [], q_RequestID = [],
     q_Now = demo_now, q_Elapsed = 1000, q_Random = Some (replicate 16 7),
     q_NewSpan = Some (''4bf92f35'', ''00f067aa''), q_Span = None\<rparr>"

lemma demo_request_simps [simp]:
  "q_Method (demo_request m path) = m" "q_Path (demo_request m path) = path" "q_Now (demo_request m path) = demo_now"
  "q_Header (demo_request m path) = (\<lambda>_. [])" "q_Random (demo_request m path) = Some (replicate 16 7)"
  by (simp_all add: demo_request_def)

lemma demo_api_simps [simp]:
  "a_cfg demo_api = demo_config" "a_service demo_api = service_of demo_outside demo_config"
  "a_limiter demo_api = any_limiter_ops tb_ops" "x_time demo_outside = pg_micro"
  "c_CodeLength demo_config = 7" "c_RejectPrivateTargets demo_config = False" "c_AdminToken demo_config = ''secret''"
  "c_MetricsPath demo_config = ''/metrics''" "c_TrustedProxies demo_config = []"
  by (simp_all add: demo_api_def demo_config_def default_config_def demo_outside_def)

lemma demo_world_simps [simp]: "w_store (demo_world s) = s" "w_limiter (demo_world s) = demo_limiter"
  "w_entropy (demo_world s) = demo_entropy"
  by (simp_all add: demo_world_def)

lemma demo_routes:
  "route_for demo_api (demo_request ''GET'' ''/health/live'') = RLive"
  "route_for demo_api (demo_request ''GET'' ''/api/v1/generate'') = RGenerate"
  "route_for demo_api (demo_request ''GET'' ''/r/abcd'') = RRedirect ''abcd''"
  "route_for demo_api (demo_request ''GET'' ''/api/v1/rules/abcd'') = RGet ''abcd''"
  "route_for demo_api (demo_request ''DELETE'' ''/api/v1/rules/abcd'') = RDelete ''abcd''"
  by (simp_all add: route_for_def, code_simp+)

lemma demo_handler: "NewHandler tb_ops demo_config (service_of demo_outside demo_config) (Some demo_limiter)
    = Inr (demo_api, demo_limiter, metrics_New)"
proof -
  have "\<not> pattern_refused ''/metrics''" by code_simp
  then show ?thesis by (simp add: NewHandler_def demo_api_def Let_def)
qed

lemma demo_any_sqlite: "any_sqlite_wf (SqliteStore demo_sqlite)" "any_quiet (SqliteStore demo_sqlite)"
  "any_look (SqliteStore demo_sqlite) = [''abcd'' \<mapsto> demo_rule]"
  using demo_sqlite_wf demo_sqlite_quiet demo_sqlite_look by (simp_all add: any_sqlite_wf_def any_quiet_def any_look_def)

lemma NewHandler_api:
  assumes "NewHandler bk cfg svc given = Inr (a, l0, m0)"
  shows "a_service a = svc" "a_limiter a = any_limiter_ops bk" "c_MetricsPath (a_cfg a) \<noteq> []"
  using assms by (auto simp: NewHandler_def Let_def split: if_splits)

section \<open>Answers\<close>

text \<open>
  C6. Every request, in every state and whatever fails behind the server, is answered exactly once:
  with one of the statuses that \<open>api/openapi.yaml\<close> documents for its route (301 and 405 where the mux
  itself answers) and with a request id in the header. The request is logged with that status and the
  ids of its span, and one span ends with it, which tells the same and fails from status 400 on.
\<close>

theorem every_request_answered:
  assumes "NewHandler bk cfg (service_of x cfg') given = Inr (a, l0, m0)"
  shows "\<exists>w st' n hdr log. serve a r fresh_writer st = (Returned, w, st') \<and> rw_Sent w = Some (n, hdr)
    \<and> n \<in> route_statuses (route_for a r) \<and> hdr ''X-Request-Id'' = Some (request_id_of r)
    \<and> w_log st' = log @ [LogCompleted (request_id_of r) (trace_id_of r) (span_id_of r) (q_Method r) (q_Path r) n
         (q_Elapsed r) (clientIP (c_TrustedProxies (a_cfg a)) r) (q_Header r ''User-Agent'')]
    \<and> w_open st' = w_open st \<and> w_spans st' = w_spans st @ [request_span r n]"
proof -
  have "store_create_sane (svc_store (a_service a))" "store_read_sane (svc_store (a_service a))"
    using any_store_sane NewHandler_api(1) [OF assms] by simp_all
  then show ?thesis by (rule serve_answered [where r = r and st = st]) blast
qed

lemma every_request_answered_witness:
  "\<exists>w st' hdr. serve demo_api (demo_request ''GET'' ''/health/live'') fresh_writer (demo_world (SqliteStore demo_sqlite))
     = (Returned, w, st') \<and> rw_Sent w = Some (200, hdr)"
  using every_request_answered [OF demo_handler, of "demo_request ''GET'' ''/health/live''"]
  by (simp add: demo_routes route_statuses_def) blast

text \<open>
  C9. \<open>GET /r/{code}\<close> on a store that does not fail: 404 when there is no link, 410 when it has
  expired or has no uses left, and otherwise 302 to the stored URL with one more use written; in the
  first two cases no link changes.
\<close>

theorem redirect_exact:
  assumes "NewHandler bk cfg (service_of x cfg') given = Inr (a, l0, m0)" "any_sqlite_wf (w_store st)"
    "any_quiet (w_store st)" "rfc3339_ok (q_Now r)" "roomy 1 (any_look (w_store st))"
    "route_for a r = RRedirect c" "alias_pattern c"
  shows "\<exists>w st' n hdr. serve a r fresh_writer st = (Returned, w, st') \<and> rw_Sent w = Some (n, hdr)
    \<and> (case any_look (w_store st) c of
         None \<Rightarrow> n = 404 \<and> any_look (w_store st') = any_look (w_store st)
       | Some rule \<Rightarrow>
           if fst (Expired rule (q_Now r)) then n = 410 \<and> any_look (w_store st') = any_look (w_store st)
           else n = 302 \<and> hdr ''Location'' = Some (hexEscapeNonASCII (r_URL rule))
             \<and> any_look (w_store st') = (any_look (w_store st))(c \<mapsto> used rule (q_Now r)))"
proof -
  note api = NewHandler_api(1) [OF assms(1)]
  have svc: "svc_store (a_service a) = any_store_ops (x_time x)" "svc_Now (a_service a) (q_Now r) = q_Now r"
    by (simp_all add: api)
  have t: "rfc3339_ok (svc_Now (a_service a) (q_Now r))" using assms(4) by (simp add: svc(2))
  show ?thesis
  proof (rule asq.serve_redirect [OF svc(1) assms(2,3) t assms(5-7)], goal_cases)
    case (1 w st' n hdr)
    note s = 1 [unfolded svc(2)]
    show ?thesis
    proof (cases "any_look (w_store st) c")
      case None
      with s show ?thesis by simp
    next
      case (Some rule)
      with s show ?thesis by (cases "fst (Expired rule (q_Now r))") simp_all
    qed
  qed
qed

lemma redirect_exact_witness:
  "\<exists>w st' hdr. serve demo_api (demo_request ''GET'' ''/r/abcd'') fresh_writer (demo_world (SqliteStore demo_sqlite))
     = (Returned, w, st') \<and> rw_Sent w = Some (302, hdr) \<and> hdr ''Location'' = Some ''https://example.com''"
proof -
  let ?st = "demo_world (SqliteStore demo_sqlite)" and ?r = "demo_request ''GET'' ''/r/abcd''"
  have e: "hexEscapeNonASCII ''https://example.com'' = ''https://example.com''" by code_simp
  have live: "\<not> fst (Expired demo_rule demo_now)" "r_URL demo_rule = ''https://example.com''"
    by (simp_all add: demo_rule_def Expired_iff second_def)
  have p: "any_sqlite_wf (w_store ?st)" "any_quiet (w_store ?st)" "rfc3339_ok (q_Now ?r)"
    "roomy 1 (any_look (w_store ?st))"
    by (simp_all add: demo_any_sqlite demo_now_ok demo_roomy)
  have alias4: "alias_pattern ''abcd''" by code_simp
  from redirect_exact [OF demo_handler p(1-4) demo_routes(3) alias4] show ?thesis
    using live e by (simp add: demo_any_sqlite) blast
qed

text \<open>
  C10. Requests for anything but creation, deletion and redirection leave every link as it is, on
  either store and whatever fails: the pages, the documents, the health checks, the metrics, the
  lookup of a rule, and requests with another method.
\<close>

theorem reads_keep_links:
  assumes "NewHandler bk cfg (service_of x cfg') given = Inr (a, l0, m0)"
    "any_sqlite_wf (w_store st) \<or> driver_time (x_time x) \<and> any_postgres_wf (x_time x) (w_store st)"
    "\<not> creating (route_for a r)" "\<forall>c. route_for a r \<noteq> RDelete c \<and> route_for a r \<noteq> RRedirect c"
    "serve a r fresh_writer st = (oc, w, st')"
  shows "any_look (w_store st') = any_look (w_store st)"
proof -
  have svc: "svc_store (a_service a) = any_store_ops (x_time x)" using NewHandler_api(1) [OF assms(1)] by simp
  from assms(2) show ?thesis
  proof
    assume "any_sqlite_wf (w_store st)"
    then show ?thesis using asq.serve_reads [OF svc _ assms(3) _ _ assms(5)] assms(4) by blast
  next
    assume "driver_time (x_time x) \<and> any_postgres_wf (x_time x) (w_store st)"
    then show ?thesis
      using rule_store.serve_reads [OF driver_time.any_store_postgres svc _ assms(3) _ _ assms(5)] assms(4) by blast
  qed
qed

lemma reads_keep_links_witness:
  "any_look (w_store (snd (snd (serve demo_api (demo_request ''GET'' ''/api/v1/rules/abcd'') fresh_writer
     (demo_world (SqliteStore demo_sqlite)))))) = [''abcd'' \<mapsto> demo_rule]"
proof -
  let ?r = "demo_request ''GET'' ''/api/v1/rules/abcd''" and ?st = "demo_world (SqliteStore demo_sqlite)"
  obtain oc w st' where s: "serve demo_api ?r fresh_writer ?st = (oc, w, st')" by (metis prod.exhaust)
  have "any_look (w_store st') = any_look (w_store ?st)"
    by (rule reads_keep_links [OF demo_handler _ _ _ s]) (simp_all add: demo_routes creating_def demo_any_sqlite)
  then show ?thesis using s by (simp add: demo_any_sqlite)
qed

section \<open>Guards\<close>

text \<open>
  C11. A client over its limit gets 429, is counted, and neither the links nor the random source are
  touched; when the limiter fails the answer is 503 and nothing is touched either.
\<close>

theorem rate_limited_untouched:
  assumes "creating (route_for a r)" "route_label (route_for a r) = Some label"
    "lim_Allow (a_limiter a) (q_Now r) (clientIP (c_TrustedProxies (a_cfg a)) r) (w_limiter st) = (verdict, l')"
    "verdict \<noteq> Inr True" "serve a r fresh_writer st = (oc, w, st')"
  shows "oc = Returned \<and> map_option fst (rw_Sent w) = Some (if is_ok verdict then 429 else 503)
    \<and> w_store st' = w_store st \<and> w_entropy st' = w_entropy st \<and> w_limiter st' = l'
    \<and> (is_ok verdict \<longrightarrow> m_rateLimitedTotal (w_metrics st') = count_up label (m_rateLimitedTotal (w_metrics st)))"
proof (cases verdict)
  case (Inl e)
  show ?thesis
    by (rule serve_limiter_down [OF assms(1) assms(3) [unfolded Inl]]) (use assms(5) Inl in simp)
next
  case (Inr allowed)
  then have v: "verdict = Inr False" using assms(4) by (cases allowed) auto
  show ?thesis
    by (rule serve_rate_limited [OF assms(1,2) assms(3) [unfolded v]]) (use assms(5) v in simp)
qed

definition demo_spent :: "(any_store, token_bucket any_limiter) world" where
  "demo_spent = (demo_world (SqliteStore demo_sqlite))\<lparr>w_limiter := MemoryLimiter (NewMemory (Fin 30) 0 (10 * minute))\<rparr>"

lemma rate_limited_untouched_witness:
  "map_option fst (rw_Sent (fst (snd (serve demo_api (demo_request ''GET'' ''/api/v1/generate'') fresh_writer demo_spent)))) = Some 429"
proof -
  let ?r = "demo_request ''GET'' ''/api/v1/generate''"
  obtain oc w st' where s: "serve demo_api ?r fresh_writer demo_spent = (oc, w, st')" by (metis prod.exhaust)
  obtain v l' where v: "lim_Allow (a_limiter demo_api) (q_Now ?r) (clientIP (c_TrustedProxies (a_cfg demo_api)) ?r)
      (w_limiter demo_spent) = (v, l')" by fastforce
  have "fst (lim_Allow (a_limiter demo_api) (q_Now ?r) (clientIP (c_TrustedProxies (a_cfg demo_api)) ?r)
      (w_limiter demo_spent)) = Inr False" by code_simp
  then have "v = Inr False" using v by simp
  then show ?thesis
    using rate_limited_untouched [OF _ _ v _ s, of "''generate_query''"] s by (simp add: demo_routes creating_def)
qed

text \<open>
  C12. Where an admin token is set, a deletion without it gets 401 with a challenge and is counted,
  and the links stay.
\<close>

theorem delete_needs_token:
  assumes "route_for a r = RDelete c" "c_AdminToken (a_cfg a) \<noteq> []" "admin_token_of r \<noteq> c_AdminToken (a_cfg a)"
    "serve a r fresh_writer st = (oc, w, st')"
  shows "oc = Returned \<and> map_option fst (rw_Sent w) = Some 401 \<and> w_store st' = w_store st
    \<and> m_adminAuthFailures (w_metrics st') = m_adminAuthFailures (w_metrics st) + 1"
  by (rule serve_not_admin [OF assms(1-3), where st = st]) (use assms(4) in simp)

lemma delete_needs_token_witness:
  "w_store (snd (snd (serve demo_api (demo_request ''DELETE'' ''/api/v1/rules/abcd'') fresh_writer
     (demo_world (SqliteStore demo_sqlite))))) = SqliteStore demo_sqlite"
proof -
  let ?r = "demo_request ''DELETE'' ''/api/v1/rules/abcd''" and ?st = "demo_world (SqliteStore demo_sqlite)"
  obtain oc w st' where s: "serve demo_api ?r fresh_writer ?st = (oc, w, st')" by (metis prod.exhaust)
  have "admin_token_of ?r = []" by code_simp
  then show ?thesis using delete_needs_token [OF demo_routes(5) _ _ s] s by simp
qed

text \<open>
  C13. A deletion that is answered 204 had the token, if one is set, and removes the link it names and
  no other; the code has no link afterwards.
\<close>

theorem deleted_is_gone:
  assumes "NewHandler bk cfg (service_of x cfg') given = Inr (a, l0, m0)" "any_sqlite_wf (w_store st)"
    "route_for a r = RDelete c" "alias_pattern c"
    "serve a r fresh_writer st = (oc, w, st')" "rw_Sent w = Some (204, hdr)"
  shows "(c_AdminToken (a_cfg a) = [] \<or> admin_token_of r = c_AdminToken (a_cfg a))
    \<and> any_look (w_store st) c \<noteq> None \<and> any_look (w_store st') = (any_look (w_store st))(c := None)"
proof -
  have svc: "svc_store (a_service a) = any_store_ops (x_time x)" using NewHandler_api(1) [OF assms(1)] by simp
  show ?thesis using asq.serve_delete [OF svc assms(2-6)] by simp
qed

definition demo_delete :: request where
  "demo_delete = (demo_request ''DELETE'' ''/api/v1/rules/abcd'')
     \<lparr>q_Header := (\<lambda>k. if k = ''Authorization'' then ''Bearer secret'' else [])\<rparr>"

lemma deleted_is_gone_witness:
  "any_look (w_store (snd (snd (serve demo_api demo_delete fresh_writer (demo_world (SqliteStore demo_sqlite)))))) ''abcd'' = None"
proof -
  let ?st = "demo_world (SqliteStore demo_sqlite)"
  obtain oc w st' where s: "serve demo_api demo_delete fresh_writer ?st = (oc, w, st')" by (metis prod.exhaust)
  have alias4: "alias_pattern ''abcd''" by code_simp
  have rt: "route_for demo_api demo_delete = RDelete ''abcd''" by (simp add: route_for_def) code_simp
  have "map_option fst (rw_Sent (fst (snd (serve demo_api demo_delete fresh_writer ?st)))) = Some 204" by code_simp
  then obtain hdr where "rw_Sent w = Some (204, hdr)" using s by auto
  from deleted_is_gone [OF demo_handler _ rt alias4 s this] show ?thesis
    using s by (simp add: demo_any_sqlite)
qed

text \<open>
  C14. The forwarding headers of a peer that is not a trusted proxy have no effect: neither on the
  client the request is limited and logged under, nor on the address links are shown with. With
  no proxies configured no peer is trusted.
\<close>

theorem untrusted_headers_ignored:
  assumes "\<not> forwardedHeadersTrusted (c_TrustedProxies cfg) r"
  shows "clientIP (c_TrustedProxies cfg) (r\<lparr>q_Header := hdrs\<rparr>) = clientIP (c_TrustedProxies cfg) r
    \<and> publicBaseURL cfg (r\<lparr>q_Header := hdrs\<rparr>) = publicBaseURL cfg r
    \<and> \<not> forwardedHeadersTrusted [] r"
  using untrusted_headers [OF assms] by (simp add: forwardedHeadersTrusted_def)

definition spoofed :: "string \<Rightarrow> string" where
  "spoofed k = (if k = ''X-Forwarded-For'' then ''1.2.3.4'' else [])"

lemma untrusted_headers_ignored_witness:
  "clientIP (c_TrustedProxies default_config) ((demo_request ''GET'' ''/'')\<lparr>q_Header := spoofed\<rparr>) = ''10.0.0.1''"
proof -
  have c: "c_TrustedProxies default_config = []" by (simp add: default_config_def)
  have "\<not> forwardedHeadersTrusted (c_TrustedProxies default_config) (demo_request ''GET'' ''/'')"
    by (simp add: forwardedHeadersTrusted_def c)
  moreover have "clientIP (c_TrustedProxies default_config) (demo_request ''GET'' ''/'') = ''10.0.0.1''" by code_simp
  ultimately show ?thesis using untrusted_headers_ignored by metis
qed

section \<open>Counting, panics and request ids\<close>

text \<open>
  C15. Every request of a registered route is counted once under its route, its method and the
  status that was sent to the client, and under nothing else.
\<close>

theorem request_counted:
  assumes "NewHandler bk cfg (service_of x cfg') given = Inr (a, l0, m0)" "route_label (route_for a r) = Some label"
    "serve a r fresh_writer st = (oc, w, st')"
  shows "\<exists>n hdr. rw_Sent w = Some (n, hdr) \<and> m_httpRequestsTotal (w_metrics st')
    = count_up (label, q_Method r, show_int n) (m_httpRequestsTotal (w_metrics st))"
proof -
  have "store_create_sane (svc_store (a_service a))" "store_read_sane (svc_store (a_service a))"
    using any_store_sane NewHandler_api(1) [OF assms(1)] by simp_all
  from serve_counted [OF this assms(2)] assms(3) show ?thesis by (metis Pair_inject)
qed

lemma request_counted_witness:
  "\<exists>n. m_httpRequestsTotal (w_metrics (snd (snd (serve demo_api (demo_request ''GET'' ''/health/live'') fresh_writer
     (demo_world (SqliteStore demo_sqlite)))))) (''health_live'', ''GET'', n) = 1"
proof -
  let ?r = "demo_request ''GET'' ''/health/live''" and ?st = "demo_world (SqliteStore demo_sqlite)"
  obtain oc w st' where s: "serve demo_api ?r fresh_writer ?st = (oc, w, st')" by (metis prod.exhaust)
  have "\<exists>n hdr. rw_Sent w = Some (n, hdr) \<and> m_httpRequestsTotal (w_metrics st')
      = count_up (''health_live'', q_Method ?r, show_int n) (m_httpRequestsTotal (w_metrics ?st))"
    by (rule request_counted [OF demo_handler _ s]) (simp add: demo_routes)
  then obtain n :: int where "m_httpRequestsTotal (w_metrics st')
      = count_up (''health_live'', q_Method ?r, show_int n) (m_httpRequestsTotal (w_metrics ?st))" by blast
  then have "m_httpRequestsTotal (w_metrics st') (''health_live'', ''GET'', show_int n) = 1"
    by (simp add: demo_world_def metrics_New_def)
  then show ?thesis using s by (intro exI [of _ "show_int n"]) simp
qed

text \<open>
  C38. A panic below the recovery becomes an answer: 500 if no status was sent before, and the
  status that was sent otherwise; it goes no further, it is logged, the innermost open span records it
  and fails, and the links are as the panic left them.
\<close>

theorem panic_answered:
  assumes "h r w st = (Panicked p, w1, st1)"
  shows "\<exists>w2 st2. withRecovery a h r w st = (Returned, w2, st2)
    \<and> map_option fst (rw_Sent w2) = Some (case rw_Sent w1 of None \<Rightarrow> 500 | Some (n, hdr) \<Rightarrow> n)
    \<and> w_store st2 = w_store st1
    \<and> w_log st2 = w_log st1 @ [LogPanic (q_RequestID r) (q_Path r) (clientIP (c_TrustedProxies (a_cfg a)) r) p]
    \<and> (\<forall>sp sps. w_open st1 = sp # sps \<longrightarrow> (\<exists>sp'. w_open st2 = sp' # sps
         \<and> sp_Errors sp' = sp_Errors sp @ [''panic: '' @ p] \<and> sp_Status sp' = Some ''panic recovered''))"
  using assms by (cases "rw_Sent w1") (simp_all add: withRecovery_def writeProblem_def writeJSON_def split: prod.split)

definition panicking :: "(any_store, token_bucket any_limiter) handler" where
  "panicking r w st = (Panicked ''boom'', w, st)"

lemma panic_answered_witness:
  "\<exists>w2 st2. withRecovery demo_api panicking (demo_request ''GET'' ''/'') fresh_writer (demo_world (SqliteStore demo_sqlite))
     = (Returned, w2, st2) \<and> map_option fst (rw_Sent w2) = Some 500"
proof -
  let ?r = "demo_request ''GET'' ''/''" and ?st = "demo_world (SqliteStore demo_sqlite)"
  have "panicking ?r fresh_writer ?st = (Panicked ''boom'', fresh_writer, ?st)" by (simp add: panicking_def)
  from panic_answered [of panicking ?r fresh_writer ?st "''boom''" fresh_writer ?st demo_api, OF this]
  show ?thesis by auto
qed

text \<open>
  Every request has an id of 1 to 128 bytes: the client's, without the space around it and cut
  to length, or 32 hexadecimal digits of random bytes.
\<close>

theorem request_id_bounds:
  assumes "q_Random r = Some bytes" "length bytes = 16"
  shows "request_id_of r \<noteq> [] \<and> length (request_id_of r) \<le> 128
    \<and> (trim_space (q_Header r ''X-Request-Id'') \<noteq> [] \<longrightarrow>
         request_id_of r = take 128 (trim_space (q_Header r ''X-Request-Id'')))"
  using request_id_of_ok [OF assms] by (auto simp: request_id_of_def sanitizeRequestID_def Let_def)

end
