(* ===== verification/Answers.thy ===== *)
theory Answers
  imports Http
begin

text \<open>
  The bytes of the JSON answers: what \<open>json.Encoder\<close> writes for the structs of
  \<open>internal/server/server.go\<close> by their tags, without the escaping of HTML, and that a client reads
  the fields back.
\<close>

section \<open>The values\<close>

definition optional :: "bool \<Rightarrow> string \<Rightarrow> json \<Rightarrow> (string \<times> json) list" where
  "optional b k v = (if b then [(k, v)] else [])"

definition time_value :: "instant \<Rightarrow> json" where
  "time_value t = JString (format_rfc3339nano t)"

definition optional_time :: "string \<Rightarrow> instant option \<Rightarrow> (string \<times> json) list" where
  "optional_time k t = (case t of None \<Rightarrow> [] | Some t \<Rightarrow> [(k, time_value t)])"

definition rule_value :: "ruleResponse \<Rightarrow> json" where
  "rule_value q = JObject
     ([(''code'', JString (rr_Code q)), (''short_url'', JString (rr_ShortURL q)), (''url'', JString (rr_URL q)),
       (''created_at'', time_value (rr_CreatedAt q))]
      @ optional_time ''expires_at'' (rr_ExpiresAt q)
      @ (case rr_MaxUsages q of None \<Rightarrow> [] | Some n \<Rightarrow> [(''max_usages'', JNumber (show_int n))])
      @ [(''used_count'', JNumber (show_int (rr_UsedCount q)))]
      @ optional_time ''last_used_at'' (rr_LastUsedAt q)
      @ [(''is_expired'', JBool (rr_IsExpired q))]
      @ optional (rr_ExpiredReason q \<noteq> []) ''expired_reason'' (JString (rr_ExpiredReason q)))"

definition problem_value :: "string \<Rightarrow> string \<Rightarrow> json" where
  "problem_value code message = JObject [(''error'', JString code), (''message'', JString message)]"

text \<open>A map is written in the order of its keys.\<close>

fun insert_key :: "string \<times> 'v \<Rightarrow> (string \<times> 'v) list \<Rightarrow> (string \<times> 'v) list" where
  "insert_key p [] = [p]"
| "insert_key p (q # qs) = (if bytes_le (fst p) (fst q) then p # q # qs else q # insert_key p qs)"

definition sort_keys :: "(string \<times> 'v) list \<Rightarrow> (string \<times> 'v) list" where
  "sort_keys ps = foldr insert_key ps []"

definition health_value :: "healthResponse \<Rightarrow> json" where
  "health_value h = JObject
     ([(''status'', JString (hr_Status h)), (''service'', JString (hr_Service h)),
       (''environment'', JString (hr_Environment h)), (''version'', JString (hr_Version h)),
       (''commit'', JString (hr_Commit h)), (''build_time'', JString (hr_BuildTime h)),
       (''time'', time_value (hr_Time h))]
      @ optional (hr_Checks h \<noteq> []) ''checks''
          (JObject (map (\<lambda>(k, v). (k, JString v)) (sort_keys (hr_Checks h)))))"

section \<open>The text\<close>

text \<open>
  \<open>Encoder.Encode\<close> of a value with times: a time outside the years 0 to 9999 is an error of
  \<open>Time.MarshalJSON\<close>, which the server drops, and nothing is written.
\<close>

definition encode_value :: "instant list \<Rightarrow> json \<Rightarrow> string" where
  "encode_value ts v = (if list_all rfc3339_ok ts then json_text v @ [CHR 0x0A] else [])"

definition rule_times :: "ruleResponse \<Rightarrow> instant list" where
  "rule_times q = rr_CreatedAt q # case_option [] (\<lambda>t. [t]) (rr_ExpiresAt q) @ case_option [] (\<lambda>t. [t]) (rr_LastUsedAt q)"

definition json_body :: "payload \<Rightarrow> string option" where
  "json_body p =
     (case p of
        RuleBody q \<Rightarrow> Some (encode_value (rule_times q) (rule_value q))
      | Problem code message \<Rightarrow> Some (encode_value [] (problem_value code message))
      | HealthBody h \<Rightarrow> Some (encode_value [hr_Time h] (health_value h))
      | _ \<Rightarrow> None)"

section \<open>What a client reads\<close>

definition client_value :: "string \<Rightarrow> json option" where
  "client_value body = (case read_value (None :: unit option) body of Decoded v rest \<Rightarrow> Some v | _ \<Rightarrow> None)"

definition member :: "json \<Rightarrow> string \<Rightarrow> json option" where
  "member v k = (case v of JObject ms \<Rightarrow> map_of ms k | _ \<Rightarrow> None)"

definition as_text :: "json \<Rightarrow> string option" where
  "as_text v = (case v of JString s \<Rightarrow> Some s | _ \<Rightarrow> None)"

definition as_int :: "json \<Rightarrow> int option" where
  "as_int v = (case v of JNumber t \<Rightarrow> parse_int64 t | _ \<Rightarrow> None)"

definition as_bool :: "json \<Rightarrow> bool option" where
  "as_bool v = (case v of JBool b \<Rightarrow> Some b | _ \<Rightarrow> None)"

definition as_time :: "json \<Rightarrow> instant option" where
  "as_time v = Option.bind (as_text v) parse_rfc3339nano"

text \<open>The rule in an answer: a missing optional field is absent, a missing reason is empty.\<close>

definition absent_or :: "(json \<Rightarrow> 'a option) \<Rightarrow> json option \<Rightarrow> 'a option option" where
  "absent_or f m = (case m of None \<Rightarrow> Some None | Some v \<Rightarrow> map_option Some (f v))"

definition client_rule :: "json \<Rightarrow> ruleResponse option" where
  "client_rule v =
     (case (Option.bind (member v ''code'') as_text, Option.bind (member v ''short_url'') as_text,
            Option.bind (member v ''url'') as_text, Option.bind (member v ''created_at'') as_time,
            absent_or as_time (member v ''expires_at''), absent_or as_int (member v ''max_usages''),
            Option.bind (member v ''used_count'') as_int, absent_or as_time (member v ''last_used_at''),
            Option.bind (member v ''is_expired'') as_bool, absent_or as_text (member v ''expired_reason'')) of
        (Some code, Some short, Some url, Some created, Some expires, Some usages, Some n, Some used_at, Some b, Some reason) \<Rightarrow>
          Some \<lparr>rr_Code = code, rr_ShortURL = short, rr_URL = url, rr_CreatedAt = created, rr_ExpiresAt = expires,
            rr_MaxUsages = usages, rr_UsedCount = n, rr_LastUsedAt = used_at, rr_IsExpired = b,
            rr_ExpiredReason = (case reason of None \<Rightarrow> [] | Some s \<Rightarrow> s)\<rparr>
      | _ \<Rightarrow> None)"

definition rule_encodable :: "ruleResponse \<Rightarrow> bool" where
  "rule_encodable q \<longleftrightarrow> text_ok (rr_Code q) \<and> text_ok (rr_ShortURL q) \<and> text_ok (rr_URL q) \<and> text_ok (rr_ExpiredReason q)
     \<and> list_all rfc3339_ok (rule_times q) \<and> in_int64 (rr_UsedCount q) \<and> (\<forall>n. rr_MaxUsages q = Some n \<longrightarrow> in_int64 n)"

section \<open>Reading back\<close>

abbreviation ascii :: "string \<Rightarrow> bool" where
  "ascii \<equiv> list_all (\<lambda>c. byte_of c < 128)"

lemma digit_char_ascii: "0 \<le> n \<Longrightarrow> n < 10 \<Longrightarrow> byte_of (digit_char n) < 128"
  by simp

lemma fixed_ascii: "ascii (fixed w n)"
  by (induction w arbitrary: n) (simp_all add: digit_char_ascii)

lemma is_digit_ascii: "is_digit c \<Longrightarrow> byte_of c < 128"
  by (auto simp: is_digit_def)

lemma show_nat_ascii: "0 \<le> n \<Longrightarrow> ascii (show_nat n)"
  using show_nat_digits [of n] by (auto simp: list_all_iff intro: is_digit_ascii)

lemma append_int_ascii: "ascii (append_int x w)"
  by (auto simp: append_int_def Let_def fixed_ascii show_nat_ascii)

lemma fraction_ascii: "ascii (fraction ns)"
proof -
  have "set (trim_right_byte c s) \<subseteq> set s" for c s
    by (auto simp: trim_right_byte_def dest: set_dropWhileD)
  then show ?thesis using fixed_ascii [of 9 ns] by (fastforce simp: fraction_def list_all_iff)
qed

lemma time_text_ok: "text_ok (format_rfc3339nano t)"
proof (rule text_ok_ascii)
  show "ascii (format_rfc3339nano t)"
    by (simp add: format_rfc3339nano_def stamp_def append_int_ascii fraction_ascii split: prod.split)
qed

lemma names_ok:
  "text_ok ''code''" "text_ok ''short_url''" "text_ok ''url''" "text_ok ''created_at''" "text_ok ''expires_at''"
  "text_ok ''max_usages''" "text_ok ''used_count''" "text_ok ''last_used_at''" "text_ok ''is_expired''" "text_ok ''expired_reason''"
  "text_ok ''error''" "text_ok ''message''"
  by (rule text_ok_ascii, simp)+

lemma client_value_encoded:
  assumes "json_ok v" "int (nesting v) \<le> max_nesting" "list_all rfc3339_ok ts"
  shows "client_value (encode_value ts v) = Some v"
  using read_json_text [OF assms(1,2), of "None :: unit option" "[]"] assms(3) by (simp add: client_value_def encode_value_def)

lemma rule_value_ok:
  assumes "rule_encodable q"
  shows "json_ok (rule_value q)" "int (nesting (rule_value q)) \<le> max_nesting"
  using assms
  by (auto simp: rule_value_def rule_encodable_def names_ok optional_def optional_time_def time_value_def time_text_ok
      max_nesting_def split: option.splits)

lemma as_simps [simp]:
  "as_text (JString s) = Some s" "as_bool (JBool b) = Some b" "in_int64 i \<Longrightarrow> as_int (JNumber (show_int i)) = Some i"
  "rfc3339_ok t \<Longrightarrow> as_time (time_value t) = Some t"
  by (simp_all add: as_text_def as_bool_def as_int_def as_time_def time_value_def parse_show_int parse_format_time)

text \<open>The members of a rule, one by one.\<close>

lemma rule_members:
  "member (rule_value q) ''code'' = Some (JString (rr_Code q))"
  "member (rule_value q) ''short_url'' = Some (JString (rr_ShortURL q))"
  "member (rule_value q) ''url'' = Some (JString (rr_URL q))"
  "member (rule_value q) ''created_at'' = Some (time_value (rr_CreatedAt q))"
  "member (rule_value q) ''expires_at'' = map_option time_value (rr_ExpiresAt q)"
  "member (rule_value q) ''max_usages'' = map_option (\<lambda>n. JNumber (show_int n)) (rr_MaxUsages q)"
  "member (rule_value q) ''used_count'' = Some (JNumber (show_int (rr_UsedCount q)))"
  "member (rule_value q) ''last_used_at'' = map_option time_value (rr_LastUsedAt q)"
  "member (rule_value q) ''is_expired'' = Some (JBool (rr_IsExpired q))"
  "member (rule_value q) ''expired_reason'' = (if rr_ExpiredReason q = [] then None else Some (JString (rr_ExpiredReason q)))"
  by (simp_all add: rule_value_def member_def optional_def optional_time_def split: option.split)

theorem client_rule_value:
  assumes "rule_encodable q"
  shows "client_rule (rule_value q) = Some q"
proof -
  have t: "rfc3339_ok (rr_CreatedAt q)" "\<And>t. rr_ExpiresAt q = Some t \<Longrightarrow> rfc3339_ok t"
    "\<And>t. rr_LastUsedAt q = Some t \<Longrightarrow> rfc3339_ok t"
    using assms by (simp_all add: rule_encodable_def rule_times_def)
  have e: "absent_or as_time (map_option time_value (rr_ExpiresAt q)) = Some (rr_ExpiresAt q)"
    "absent_or as_time (map_option time_value (rr_LastUsedAt q)) = Some (rr_LastUsedAt q)"
    "absent_or as_int (map_option (\<lambda>n. JNumber (show_int n)) (rr_MaxUsages q)) = Some (rr_MaxUsages q)"
    using t assms by (simp_all add: absent_or_def rule_encodable_def split: option.split)
  have n: "as_int (JNumber (show_int (rr_UsedCount q))) = Some (rr_UsedCount q)"
    using assms by (simp add: rule_encodable_def)
  show ?thesis
    by (simp add: client_rule_def rule_members e n t(1)) (simp add: absent_or_def)
qed

lemma answer_read_back:
  assumes "rule_encodable q"
  obtains body where "json_body (RuleBody q) = Some body" "Option.bind (client_value body) client_rule = Some q"
proof -
  have "list_all rfc3339_ok (rule_times q)" using assms by (simp add: rule_encodable_def)
  from client_value_encoded [OF rule_value_ok [OF assms] this] client_rule_value [OF assms] show thesis
    by (intro that [of "encode_value (rule_times q) (rule_value q)"]) (simp_all add: json_body_def)
qed

text \<open>A problem is read back with its code and its message.\<close>

lemma problem_read_back:
  assumes "text_ok code" "text_ok message"
  obtains body v where "json_body (Problem code message) = Some body" "client_value body = Some v"
    "member v ''error'' = Some (JString code)" "member v ''message'' = Some (JString message)"
proof -
  have "json_ok (problem_value code message)" "int (nesting (problem_value code message)) \<le> max_nesting"
    using assms by (auto simp: problem_value_def names_ok max_nesting_def)
  from client_value_encoded [OF this, of "[]"] show thesis
    by (intro that [of "encode_value [] (problem_value code message)" "problem_value code message"])
      (simp_all add: json_body_def problem_value_def member_def)
qed

end
