(* ===== verification/MapStore.thy ===== *)
theory MapStore
  imports Shortener
begin

text \<open>
  The store as its callers may think of it: a map from codes to rules, with one step for each call
  of the interface \<open>Store\<close>. Every store that meets the contract refines it: while no call fails,
  a sequence of calls is answered as the map answers it and leaves what the map leaves.
\<close>

section \<open>The map\<close>

datatype store_reply =
    ReplyRule "svc_error + rule"
  | ReplyUnit "svc_error + unit"
  | ReplyCount "svc_error + int"

fun map_reply :: "(rule \<Rightarrow> instant \<Rightarrow> bool) \<Rightarrow> store_call \<Rightarrow> table \<Rightarrow> store_reply" where
  "map_reply sw (CallCreate r) m = ReplyRule (if m (r_Code r) = None then Inr r else Inl ErrAlreadyExists)"
| "map_reply sw (CallGet c) m = ReplyRule (case m c of None \<Rightarrow> Inl ErrNotFound | Some r \<Rightarrow> Inr r)"
| "map_reply sw (CallDelete c) m = ReplyUnit (if m c = None then Inl ErrNotFound else Inr ())"
| "map_reply sw (CallSweep now) m = ReplyCount (Inr (int (card {c. \<exists>r. m c = Some r \<and> sw r now})))"
| "map_reply sw (CallResolve c now) m = ReplyRule
     (case m c of
        None \<Rightarrow> Inl ErrNotFound
      | Some r \<Rightarrow> if fst (Expired r now) then Inl (ExpiredError r (snd (Expired r now))) else Inr (used r now))"

fun map_step :: "(rule \<Rightarrow> rule) \<Rightarrow> (rule \<Rightarrow> instant \<Rightarrow> bool) \<Rightarrow> store_call \<Rightarrow> table \<Rightarrow> table" where
  "map_step keeps sw (CallCreate r) m = (if m (r_Code r) = None then m(r_Code r \<mapsto> keeps r) else m)"
| "map_step keeps sw (CallGet c) m = m"
| "map_step keeps sw (CallDelete c) m = m(c := None)"
| "map_step keeps sw (CallSweep now) m = swept (\<lambda>r. sw r now) m"
| "map_step keeps sw (CallResolve c now) m =
     (case m c of
        None \<Rightarrow> m
      | Some r \<Rightarrow> if fst (Expired r now) then m else m(c \<mapsto> keeps (used r now)))"

fun map_run :: "(rule \<Rightarrow> rule) \<Rightarrow> (rule \<Rightarrow> instant \<Rightarrow> bool) \<Rightarrow> store_call list \<Rightarrow> table \<Rightarrow> store_reply list \<times> table" where
  "map_run keeps sw [] m = ([], m)"
| "map_run keeps sw (k # ks) m =
     (case map_run keeps sw ks (map_step keeps sw k m) of (rs, m') \<Rightarrow> (map_reply sw k m # rs, m'))"

section \<open>The store\<close>

fun store_step :: "'s store_ops \<Rightarrow> store_call \<Rightarrow> 's \<Rightarrow> store_reply \<times> 's" where
  "store_step ops (CallCreate r) s = (case op_CreateRule ops r s of (res, s') \<Rightarrow> (ReplyRule res, s'))"
| "store_step ops (CallGet c) s = (case op_GetRule ops c s of (res, s') \<Rightarrow> (ReplyRule res, s'))"
| "store_step ops (CallDelete c) s = (case op_DeleteRule ops c s of (res, s') \<Rightarrow> (ReplyUnit res, s'))"
| "store_step ops (CallSweep now) s = (case op_DeleteExpired ops now s of (res, s') \<Rightarrow> (ReplyCount res, s'))"
| "store_step ops (CallResolve c now) s = (case op_ResolveRule ops c now s of (res, s') \<Rightarrow> (ReplyRule res, s'))"

fun store_run :: "'s store_ops \<Rightarrow> store_call list \<Rightarrow> 's \<Rightarrow> store_reply list \<times> 's" where
  "store_run ops [] s = ([], s)"
| "store_run ops (k # ks) s =
     (case store_step ops k s of (r, s1) \<Rightarrow> (case store_run ops ks s1 of (rs, s2) \<Rightarrow> (r # rs, s2)))"

lemma store_step_state: "snd (store_step ops k s) = call_state ops k s"
  by (cases k) (simp_all split: prod.split)

context rule_store
begin

lemma step_refines:
  assumes "wf s" "quiet s" "call_ok storable timely k" "roomy 1 (look s)" "store_step ops k s = (reply, s')"
  shows "reply = map_reply sweeps k (look s)" "look s' = map_step keeps sweeps k (look s)" "quiet s'"
proof -
  have "reply = map_reply sweeps k (look s) \<and> look s' = map_step keeps sweeps k (look s) \<and> quiet s'"
  proof (cases k)
    case (CallCreate r)
    obtain res where c: "op_CreateRule ops r s = (res, s')" "reply = ReplyRule res"
      using assms(5) CallCreate by (auto split: prod.splits)
    have st: "storable r" using assms(3) CallCreate by simp
    note q = create_quiet [OF assms(1,2) st c(1)]
    show ?thesis
    proof (cases "look s (r_Code r) = None")
      case True
      then have "op_CreateRule ops r s = (Inr r, s')" using q c(1) by simp
      from create_Inr [OF assms(1) st this] q show ?thesis using True c(2) CallCreate by simp
    next
      case False
      then obtain r' where "look s (r_Code r) = Some r'" by blast
      then show ?thesis using q c(2) CallCreate by simp
    qed
  next
    case (CallGet c)
    obtain res where g: "op_GetRule ops c s = (res, s')" "reply = ReplyRule res"
      using assms(5) CallGet by (auto split: prod.splits)
    from get_quiet [OF assms(1,2) g(1)] get_state [OF assms(1) g(1)] show ?thesis using g(2) CallGet by simp
  next
    case (CallDelete c)
    obtain v where d: "op_DeleteRule ops c s = (v, s')" "reply = ReplyUnit v"
      using assms(5) CallDelete by (auto split: prod.splits)
    note q = delete_quiet [OF assms(1,2) d(1)]
    have "look s' = (look s)(c := None)"
    proof (cases "look s c = None")
      case True
      then have "op_DeleteRule ops c s = (Inl ErrNotFound, s')" using q d(1) by simp
      from delete_Inl [OF assms(1) this] True show ?thesis by (auto simp: fun_upd_idem)
    next
      case False
      then have "op_DeleteRule ops c s = (Inr (), s')" using q d(1) by simp
      from delete_Inr [OF assms(1) this] show ?thesis by simp
    qed
    then show ?thesis using q d(2) CallDelete by simp
  next
    case (CallSweep now)
    obtain n where d: "op_DeleteExpired ops now s = (n, s')" "reply = ReplyCount n"
      using assms(5) CallSweep by (auto split: prod.splits)
    have t: "timely now" using assms(3) CallSweep by simp
    from sweep_quiet [OF assms(1,2) d(1)] obtain k where "quiet s'" "n = Inr k" by (auto simp: is_ok_iff)
    with sweep_Inr [OF assms(1) t] d show ?thesis using CallSweep by simp
  next
    case (CallResolve c now)
    obtain res where d: "op_ResolveRule ops c now s = (res, s')" "reply = ReplyRule res"
      using assms(5) CallResolve by (auto split: prod.splits)
    have t: "timely now" using assms(3) CallResolve by simp
    note q = resolve_quiet [OF assms(1,2) t assms(4) d(1)]
    have "look s' = map_step keeps sweeps k (look s)"
    proof (cases "look s c")
      case None
      then have "op_ResolveRule ops c now s = (Inl ErrNotFound, s')" using q d(1) by simp
      from resolve_NotFound [OF assms(1) this] show ?thesis using None CallResolve by simp
    next
      case (Some r)
      show ?thesis
      proof (cases "fst (Expired r now)")
        case True
        then have "op_ResolveRule ops c now s = (Inl (ExpiredError r (snd (Expired r now))), s')" using q d(1) Some by simp
        from resolve_Expired [OF assms(1) this] show ?thesis using Some True CallResolve by simp
      next
        case False
        then have "op_ResolveRule ops c now s = (Inr (used r now), s')" using q d(1) Some by simp
        from resolve_Inr [OF assms(1) t assms(4) this] Some show ?thesis using False CallResolve by auto
      qed
    qed
    then show ?thesis using q d(2) CallResolve by simp
  qed
  then show "reply = map_reply sweeps k (look s)" "look s' = map_step keeps sweeps k (look s)" "quiet s'" by auto
qed

lemma run_refines:
  assumes "wf s" "quiet s" "list_all (call_ok storable timely) ks" "roomy (int (length ks)) (look s)"
    "int (length ks) \<le> 9223372036854775807" "store_run ops ks s = (replies, s')"
  shows "map_run keeps sweeps ks (look s) = (replies, look s')"
  using assms
proof (induction ks arbitrary: s replies)
  case (Cons k ks)
  have ok: "call_ok storable timely k" and room: "roomy (int (length ks) + 1) (look s)" and one: "roomy 1 (look s)"
    using Cons.prems(3,4) by (auto intro: roomy_mono simp: add.commute)
  obtain r s1 where s1: "store_step ops k s = (r, s1)" by fastforce
  then obtain rs where rs: "store_run ops ks s1 = (rs, s')" "replies = r # rs"
    using Cons.prems(6) by (auto split: prod.splits)
  have e: "s1 = call_state ops k s" using s1 store_step_state [of ops k s] by simp
  note step = step_refines [OF Cons.prems(1,2) ok one s1]
  have "wf s1" unfolding e by (rule call_wf [OF Cons.prems(1) ok one])
  moreover have "roomy (int (length ks)) (look s1)" unfolding e
    using Cons.prems(5) by (intro call_roomy [OF Cons.prems(1) ok room]) auto
  ultimately have "map_run keeps sweeps ks (look s1) = (rs, look s')"
    using Cons.prems(3,5) step(3) rs(1) by (intro Cons.IH) auto
  then show ?case using step(1,2) rs(2) by simp
qed simp

end

end
