(* ===== verification/Api_Props.thy ===== *)
theory Api_Props
  imports Server_Props Answers MapStore
begin

text \<open>
  The properties of the interfaces at both ends: the bytes that clients send and get, the paths the
  mux sends on, and the stores as maps.
\<close>

section \<open>Bodies\<close>

lemma alias_text: "alias_pattern c \<Longrightarrow> text_ok c"
  by (rule text_ok_ascii) (auto simp: alias_pattern_def list_all_iff is_alnum_def is_alpha_def is_digit_def Let_def)

lemma reason_text: "text_ok (snd (Expired r now))"
proof -
  have "snd (Expired r now) \<in> {[], ''ttl'', ''max_usages''}" by (auto simp: Expired_def)
  then have "ascii (snd (Expired r now))" by (elim insertE) simp_all
  then show ?thesis by (rule text_ok_ascii)
qed

lemma ruleResponse_encodable:
  assumes "alias_pattern (r_Code rule)" "text_ok (r_URL rule)" "text_ok (rr_ShortURL (ruleResponse_of a r rule))"
    "sq_storable rule" "in_int64 (r_UsedCount rule)" "\<And>n. r_MaxUsages rule = Some n \<Longrightarrow> in_int64 n"
  shows "rule_encodable (ruleResponse_of a r rule)"
proof -
  obtain dead reason where x: "Expired rule (svc_Now (a_service a) (q_Now r)) = (dead, reason)" by fastforce
  then have "text_ok reason" using reason_text by (metis snd_conv)
  with x show ?thesis
    using assms alias_text [OF assms(1)]
    by (auto simp: rule_encodable_def ruleResponse_of_def rule_times_def sq_storable_def split: option.split)
qed

text \<open>The link that a request answered 201 has stored, on SQLite, by what was asked.\<close>

lemma link_created:
  fixes st :: "(any_store, 'b any_limiter) world"
  assumes "a_service a = service_of x cfg'" "4 \<le> c_CodeLength cfg'" "c_CodeLength cfg' \<le> 32" "any_sqlite_wf (w_store st)"
    "asked (route_for a r) r = Some q" "in_int64 (cr_MaxUsages q)" "rfc3339_ok (q_Now r)"
    "cr_TTLSeconds q = 0 \<or> rfc3339_ok (ttl_expiry (cr_TTLSeconds q) (q_Now r))"
    "creating (route_for a r)" "serve a r fresh_writer st = (oc, w, st')" "rw_Sent w = Some (201, hdr)"
  obtains rule u where "validateTargetURL (cr_URL q) (c_RejectPrivateTargets cfg') = Inr u" "r_URL rule = url_string u"
    "trim_space (cr_Alias q) \<noteq> [] \<longrightarrow> r_Code rule = trim_space (cr_Alias q)"
    "r_ExpiresAt rule = (if cr_TTLSeconds q = 0 then None else Some (ttl_expiry (cr_TTLSeconds q) (q_Now r)))"
    "r_MaxUsages rule = (if cr_MaxUsages q = 0 then None else Some (cr_MaxUsages q))" "r_UsedCount rule = 0"
    "any_look (w_store st) (r_Code rule) = None" "any_look (w_store st') (r_Code rule) = Some rule"
    "rw_Body w = [RuleBody (ruleResponse_of a r rule)]" "alias_pattern (r_Code rule)" "sq_storable rule"
    "any_look (w_store st) \<subseteq>\<^sub>m any_look (w_store st')" "any_sqlite_wf (w_store st')"
proof -
  have svc: "svc_store (a_service a) = any_store_ops (x_time x)" by (simp add: assms(1))
  obtain rule where c: "svc_CreateRule (a_service a) (q_Now r) (input_of q) (w_store st, w_entropy st)
       = (Inr rule, (w_store st', w_entropy st'))" "rw_Body w = [RuleBody (ruleResponse_of a r rule)]"
    using serve_201 [OF assms(9-11)] assms(5) by (metis option.inject)
  have good: "storable_as sq_storable r1"
    if "ruleFromInput (svc_rejectPrivateTargets (a_service a)) (input_of q) (svc_Now (a_service a) (q_Now r)) = Inr r1" for r1
    using ruleFromInput_Inr [OF that] assms(6-8)
    by (auto simp: storable_as_def sq_storable_def in_int64_def input_of_def assms(1))
  obtain r1 where r1: "ruleFromInput (svc_rejectPrivateTargets (a_service a)) (input_of q) (svc_Now (a_service a) (q_Now r)) = Inr r1"
    "rule = r1\<lparr>r_Code := r_Code rule\<rparr>" "any_look (w_store st) (r_Code rule) = None" "any_look (w_store st') (r_Code rule) = Some rule"
    "if r_Code r1 = [] then length (r_Code rule) = nat (gen_length (svc_generator (a_service a)))
       \<and> list_all is_alnum (r_Code rule) else rule = r1 \<and> alias_pattern (r_Code rule)"
    and kept: "any_look (w_store st) \<subseteq>\<^sub>m any_look (w_store st')" "any_sqlite_wf (w_store st')"
    by (rule asq.service_create_Inr [OF svc assms(4) good c(1)])
  note frame = ruleFromInput_Inr [OF r1(1)]
  obtain u where u: "validateTargetURL (cr_URL q) (c_RejectPrivateTargets cfg') = Inr u" "r_URL r1 = url_string u"
    using frame(1) by (auto simp: input_of_def assms(1))
  have fields: "r_URL rule = url_string u" "r_ExpiresAt rule = r_ExpiresAt r1" "r_MaxUsages rule = r_MaxUsages r1"
    "r_UsedCount rule = r_UsedCount r1"
    using r1(2) u(2) by (metis rule.select_convs rule.surjective rule.update_convs(1))+
  have name: "trim_space (cr_Alias q) \<noteq> [] \<longrightarrow> r_Code rule = trim_space (cr_Alias q)"
    using r1(5) frame(2) by (simp add: input_of_def)
  have pat: "alias_pattern (r_Code rule)"
    using r1(5) assms(2,3) by (auto simp: alias_pattern_def assms(1) NewGenerator_def split: if_splits)
  have keep: "sq_storable rule" using storable_asD [OF good [OF r1(1)], of "r_Code rule"] r1(2) by simp
  show thesis
    by (rule that [OF u(1) fields(1) name _ _ _ r1(3,4) c(2) pat keep kept])
      (use frame(5,9,10) in \<open>simp_all add: fields input_of_def assms(1)\<close>)
qed

text \<open>
  C28. From bytes to bytes: a client that posts a request as JSON and is answered 201 has its link
  stored with the URL, the alias, the time to live and the limit it wrote, under a code that had
  no link, and from the bytes of the answer it reads back every field of that link. On SQLite, for
  instants of years up to 9999 and addresses in UTF-8.
\<close>

theorem posted_link_reads_back:
  assumes "NewHandler bk cfg (service_of x cfg') given = Inr (a, l0, m0)" "4 \<le> c_CodeLength cfg'" "c_CodeLength cfg' \<le> 32"
    "any_sqlite_wf (w_store st)" "route_for a r = RCreate" "q_Body r = request_json q"
    "text_ok (cr_URL q)" "text_ok (cr_Alias q)" "in_int64 (cr_TTLSeconds q)" "in_int64 (cr_MaxUsages q)"
    "int (length (request_json q)) \<le> jsonBodyLimit" "rfc3339_ok (q_Now r)"
    "cr_TTLSeconds q = 0 \<or> rfc3339_ok (ttl_expiry (cr_TTLSeconds q) (q_Now r))"
    "serve a r fresh_writer st = (oc, w, st')" "rw_Sent w = Some (201, hdr)"
  shows "\<exists>rule u body. validateTargetURL (cr_URL q) (c_RejectPrivateTargets cfg') = Inr u \<and> r_URL rule = url_string u
    \<and> (trim_space (cr_Alias q) \<noteq> [] \<longrightarrow> r_Code rule = trim_space (cr_Alias q))
    \<and> r_ExpiresAt rule = (if cr_TTLSeconds q = 0 then None else Some (ttl_expiry (cr_TTLSeconds q) (q_Now r)))
    \<and> r_MaxUsages rule = (if cr_MaxUsages q = 0 then None else Some (cr_MaxUsages q)) \<and> r_UsedCount rule = 0
    \<and> any_look (w_store st) (r_Code rule) = None \<and> any_look (w_store st') (r_Code rule) = Some rule
    \<and> rw_Body w = [RuleBody (ruleResponse_of a r rule)]
    \<and> json_body (RuleBody (ruleResponse_of a r rule)) = Some body
    \<and> (text_ok (url_string u) \<and> text_ok (rr_ShortURL (ruleResponse_of a r rule)) \<longrightarrow>
        Option.bind (client_value body) client_rule = Some (ruleResponse_of a r rule))"
proof -
  have svc: "a_service a = service_of x cfg'" using NewHandler_api(1) [OF assms(1)] by simp
  have ask: "asked (route_for a r) r = Some q" "creating (route_for a r)"
    using decode_request_json [OF assms(7-11)] by (simp_all add: asked_def creating_def assms(5,6))
  obtain rule u where c: "validateTargetURL (cr_URL q) (c_RejectPrivateTargets cfg') = Inr u" "r_URL rule = url_string u"
    "trim_space (cr_Alias q) \<noteq> [] \<longrightarrow> r_Code rule = trim_space (cr_Alias q)"
    "r_ExpiresAt rule = (if cr_TTLSeconds q = 0 then None else Some (ttl_expiry (cr_TTLSeconds q) (q_Now r)))"
    "r_MaxUsages rule = (if cr_MaxUsages q = 0 then None else Some (cr_MaxUsages q))" "r_UsedCount rule = 0"
    "any_look (w_store st) (r_Code rule) = None" "any_look (w_store st') (r_Code rule) = Some rule"
    "rw_Body w = [RuleBody (ruleResponse_of a r rule)]" and keep: "alias_pattern (r_Code rule)" "sq_storable rule"
    by (rule link_created [OF svc assms(2-4) ask(1) assms(10,12,13) ask(2) assms(14,15)])
  obtain body where body: "json_body (RuleBody (ruleResponse_of a r rule)) = Some body" by (simp add: json_body_def)
  have reads: "Option.bind (client_value body) client_rule = Some (ruleResponse_of a r rule)"
    if "text_ok (url_string u) \<and> text_ok (rr_ShortURL (ruleResponse_of a r rule))"
  proof -
    have "rule_encodable (ruleResponse_of a r rule)"
      by (rule ruleResponse_encodable [OF keep(1) _ conjunct2 [OF that] keep(2)])
        (use that c(5,6) assms(10) in \<open>auto simp: c(2) in_int64_def split: if_splits\<close>)
    then show ?thesis using body answer_read_back by (metis option.inject)
  qed
  show ?thesis using c body reads by (intro exI [of _ rule] exI [of _ u] exI [of _ body]) simp
qed

definition demo_asked :: createRuleRequest where
  "demo_asked = \<lparr>cr_URL = ''https://example.com/y'', cr_Alias = ''post'', cr_TTLSeconds = 60, cr_MaxUsages = 5\<rparr>"

definition demo_post :: request where
  "demo_post = (demo_request ''POST'' ''/api/v1/rules'')\<lparr>q_Body := request_json demo_asked\<rparr>"

lemma demo_post_ok:
  "route_for demo_api demo_post = RCreate" "int (length (request_json demo_asked)) \<le> jsonBodyLimit"
  "rfc3339_ok (ttl_expiry 60 demo_now)" "publicBaseURL demo_config demo_post = ''https://i8.sl''"
  by (code_simp)+

lemma demo_post_target:
  "case validateTargetURL ''https://example.com/y'' False of Inl e \<Rightarrow> False | Inr u \<Rightarrow> url_string u = ''https://example.com/y''"
  by code_simp

lemma demo_post_serve:
  "(case serve demo_api demo_post fresh_writer (demo_world (SqliteStore demo_sqlite)) of
     (oc, w, st) \<Rightarrow> (oc, map_option fst (rw_Sent w))) = (Returned, Some 201)"
  by code_simp

lemma posted_link_reads_back_witness:
  "\<exists>w st' rule body. serve demo_api demo_post fresh_writer (demo_world (SqliteStore demo_sqlite)) = (Returned, w, st')
     \<and> any_look (w_store st') ''post'' = Some rule \<and> r_URL rule = ''https://example.com/y'' \<and> r_MaxUsages rule = Some 5
     \<and> rw_Body w = [RuleBody (ruleResponse_of demo_api demo_post rule)]
     \<and> json_body (RuleBody (ruleResponse_of demo_api demo_post rule)) = Some body
     \<and> Option.bind (client_value body) client_rule = Some (ruleResponse_of demo_api demo_post rule)"
proof -
  let ?st = "demo_world (SqliteStore demo_sqlite)"
  obtain oc w st' where s: "serve demo_api demo_post fresh_writer ?st = (oc, w, st')" by (metis prod.exhaust)
  obtain hdr where sent: "rw_Sent w = Some (201, hdr)" using demo_post_serve s by auto
  have "oc = Returned" using demo_post_serve s by simp
  have p: "any_sqlite_wf (w_store ?st)" "q_Body demo_post = request_json demo_asked" "rfc3339_ok (q_Now demo_post)"
    "text_ok (cr_URL demo_asked)" "text_ok (cr_Alias demo_asked)" "in_int64 (cr_TTLSeconds demo_asked)" "in_int64 (cr_MaxUsages demo_asked)"
    "cr_TTLSeconds demo_asked = 0 \<or> rfc3339_ok (ttl_expiry (cr_TTLSeconds demo_asked) (q_Now demo_post))"
    using demo_post_ok(3)
    by (simp_all add: demo_any_sqlite demo_post_def demo_now_ok demo_asked_def in_int64_def text_ok_ascii)
  have alias4: "trim_space ''post'' = ''post''" by code_simp
  have len: "4 \<le> c_CodeLength demo_config" "c_CodeLength demo_config \<le> 32" by simp_all
  obtain rule u body where c: "validateTargetURL (cr_URL demo_asked) False = Inr u" "r_URL rule = url_string u"
      "r_Code rule = ''post''" "r_MaxUsages rule = Some 5" "any_look (w_store st') (r_Code rule) = Some rule"
      "rw_Body w = [RuleBody (ruleResponse_of demo_api demo_post rule)]"
      "json_body (RuleBody (ruleResponse_of demo_api demo_post rule)) = Some body"
      "text_ok (url_string u) \<and> text_ok (rr_ShortURL (ruleResponse_of demo_api demo_post rule)) \<longrightarrow>
        Option.bind (client_value body) client_rule = Some (ruleResponse_of demo_api demo_post rule)"
    using posted_link_reads_back [OF demo_handler len p(1) demo_post_ok(1) p(2,4-7) demo_post_ok(2) p(3,8) s sent]
    by (elim exE conjE) (rule that, simp_all add: demo_asked_def alias4)
  have u: "url_string u = ''https://example.com/y''" using c(1) demo_post_target by (simp add: demo_asked_def)
  have short: "rr_ShortURL (ruleResponse_of demo_api demo_post rule) = BuildShortURL ''https://i8.sl'' ''post''"
    by (simp add: ruleResponse_of_def demo_post_ok(4) c(3) split: prod.split)
  have "BuildShortURL ''https://i8.sl'' ''post'' = ''https://i8.sl/r/post''" by code_simp
  then have "text_ok (url_string u)" "text_ok (rr_ShortURL (ruleResponse_of demo_api demo_post rule))"
    unfolding u short by (simp_all add: text_ok_ascii)
  then show ?thesis using s \<open>oc = Returned\<close> c u by (intro exI [of _ w] exI [of _ st'] exI [of _ rule] exI [of _ body]) simp
qed

text \<open>
  C33. A request that creates, whose query or body cannot be read, or whose body is larger than a
  mebibyte, creates nothing: once the limiter lets it through it is answered 400, and the links and
  the random source are as they were.
\<close>

theorem unreadable_request_untouched:
  assumes "creating (route_for a r)"
    "asked (route_for a r) r = None \<or> route_for a r = RCreate \<and> 1048576 < int (length (q_Body r))"
    "lim_Allow (a_limiter a) (q_Now r) (clientIP (c_TrustedProxies (a_cfg a)) r) (w_limiter st) = (verdict, l')"
    "serve a r fresh_writer st = (oc, w, st')"
  shows "oc = Returned
    \<and> map_option fst (rw_Sent w) = Some (case verdict of Inl e \<Rightarrow> 503 | Inr allowed \<Rightarrow> if allowed then 400 else 429)
    \<and> w_store st' = w_store st \<and> w_entropy st' = w_entropy st"
proof -
  have none: "asked (route_for a r) r = None"
    using assms(2) decode_too_large [of "q_Body r"] by (auto simp: asked_def jsonBodyLimit_def split: sum.split)
  obtain label where label: "route_label (route_for a r) = Some label"
    using creating_handler [OF assms(1)] by metis
  show ?thesis
  proof (cases verdict)
    case (Inl e)
    show ?thesis
      by (rule serve_limiter_down [OF assms(1) assms(3) [unfolded Inl]]) (use assms(4) Inl in simp)
  next
    case (Inr allowed)
    show ?thesis
    proof (cases allowed)
      case True
      with Inr have v: "verdict = Inr True" by simp
      show ?thesis
        by (rule serve_unreadable [OF assms(1) none assms(3) [unfolded v]]) (use assms(4) v in simp)
    next
      case False
      with Inr have v: "verdict = Inr False" by simp
      show ?thesis
        by (rule serve_rate_limited [OF assms(1) label assms(3) [unfolded v]]) (use assms(4) v in simp)
    qed
  qed
qed

definition demo_typo :: request where
  "demo_typo = (demo_request ''POST'' ''/api/v1/rules'')\<lparr>q_Body := json_text (JObject [(''usl'', JString ''https://example.com'')])\<rparr>"

lemma unreadable_request_untouched_witness:
  "map_option fst (rw_Sent (fst (snd (serve demo_api demo_typo fresh_writer (demo_world (SqliteStore demo_sqlite)))))) = Some 400
   \<and> w_store (snd (snd (serve demo_api demo_typo fresh_writer (demo_world (SqliteStore demo_sqlite))))) = SqliteStore demo_sqlite"
proof -
  let ?st = "demo_world (SqliteStore demo_sqlite)"
  obtain oc w st' where s: "serve demo_api demo_typo fresh_writer ?st = (oc, w, st')" by (metis prod.exhaust)
  have rt: "route_for demo_api demo_typo = RCreate" "asked RCreate demo_typo = None" by code_simp+
  obtain v l' where v: "lim_Allow (a_limiter demo_api) (q_Now demo_typo) (clientIP (c_TrustedProxies (a_cfg demo_api)) demo_typo)
      (w_limiter ?st) = (v, l')" by fastforce
  have "fst (lim_Allow (a_limiter demo_api) (q_Now demo_typo) (clientIP (c_TrustedProxies (a_cfg demo_api)) demo_typo)
      (w_limiter ?st)) = Inr True" by code_simp
  then have "v = Inr True" using v by simp
  then show ?thesis
    using unreadable_request_untouched [OF _ _ v s] rt s by (simp add: creating_def)
qed

section \<open>Paths\<close>



section \<open>The stores as maps\<close>

text \<open>
  C23. SQLite is a map from codes to rules: while no call fails, any sequence of creations, lookups,
  deletions, cleanups and resolutions is answered as the map answers it, and leaves what the map
  leaves; the map's cleanup is the comparison of texts.
\<close>

theorem sqlite_refines_map:
  assumes "sq_wf d" "sq_quiet d" "list_all (call_ok sq_storable rfc3339_ok) calls"
    "roomy (int (length calls)) (sq_look d)" "int (length calls) \<le> 9223372036854775807"
    "store_run sqlite_ops calls d = (replies, d')"
  shows "map_run (\<lambda>r. r) sq_sweeps calls (sq_look d) = (replies, sq_look d')"
  by (rule rule_store.run_refines [OF sq.rule_store_axioms]) (use assms in auto)

definition demo_script :: "store_call list" where
  "demo_script = [CallResolve ''abcd'' demo_now, CallCreate (demo_rule\<lparr>r_UsedCount := 0\<rparr>), CallDelete ''abcd'', CallGet ''abcd'']"

lemma demo_script_map: "fst (map_run keeps sw demo_script [''abcd'' \<mapsto> demo_rule])
    = [ReplyRule (Inr (used demo_rule demo_now)), ReplyRule (Inl ErrAlreadyExists), ReplyUnit (Inr ()), ReplyRule (Inl ErrNotFound)]"
proof -
  have "\<not> fst (Expired demo_rule demo_now)" "r_Code demo_rule = ''abcd''"
    by (simp_all add: demo_rule_def Expired_iff second_def)
  then show ?thesis by (simp add: demo_script_def)
qed

lemma sqlite_refines_map_witness:
  "fst (store_run sqlite_ops demo_script (demo_sqlite))
    = [ReplyRule (Inr (used demo_rule demo_now)), ReplyRule (Inl ErrAlreadyExists), ReplyUnit (Inr ()), ReplyRule (Inl ErrNotFound)]"
proof -
  obtain rs d' where s: "store_run sqlite_ops demo_script demo_sqlite = (rs, d')" by fastforce
  have "list_all (call_ok sq_storable rfc3339_ok) demo_script" "int (length demo_script) = 4"
    using demo_now_ok demo_storable by (simp_all add: demo_script_def sq_storable_def in_int64_def)
  then show ?thesis
    using sqlite_refines_map [OF demo_sqlite_wf demo_sqlite_quiet _ _ _ s] demo_script_map [of "\<lambda>r. r" sq_sweeps] s demo_roomy [of 4]
    by (simp add: demo_sqlite_look)
qed

text \<open>
  C25. PostgreSQL is the same map, for every driver that rounds instants down, monotonically and
  once: what it keeps of a rule is the rule with rounded instants, and its cleanup deletes by the
  rounded instant.
\<close>

theorem postgres_refines_map:
  assumes "driver_time ts" "pg_wf ts d" "pg_quiet d" "list_all (call_ok (\<lambda>r. True) (\<lambda>now. True)) calls"
    "roomy (int (length calls)) (pg_look d)" "int (length calls) \<le> 9223372036854775807"
    "store_run (postgres_ops ts) calls d = (replies, d')"
  shows "map_run (pg_keeps ts) (pg_sweeps ts) calls (pg_look d) = (replies, pg_look d')"
  by (rule rule_store.run_refines [OF driver_time.is_store [OF assms(1)]]) (use assms in auto)

lemma postgres_refines_map_witness:
  "fst (store_run (postgres_ops pg_micro) demo_script demo_postgres)
    = [ReplyRule (Inr (used demo_rule demo_now)), ReplyRule (Inl ErrAlreadyExists), ReplyUnit (Inr ()), ReplyRule (Inl ErrNotFound)]"
proof -
  obtain rs d' where s: "store_run (postgres_ops pg_micro) demo_script demo_postgres = (rs, d')" by fastforce
  have "list_all (call_ok (\<lambda>r. True) (\<lambda>now. True)) demo_script" "int (length demo_script) = 4"
    by (simp_all add: demo_script_def)
  then show ?thesis
    using postgres_refines_map [OF pgm.driver_time_axioms demo_postgres_wf demo_postgres_quiet _ _ _ s]
      demo_script_map [of "pg_keeps pg_micro" "pg_sweeps pg_micro"] s demo_roomy [of 4]
    by (simp add: demo_postgres_look)
qed

text \<open>Calls whose instants the driver keeps as they are, cleanups apart.\<close>

fun kept_call :: "(instant \<Rightarrow> instant) \<Rightarrow> store_call \<Rightarrow> bool" where
  "kept_call ts (CallCreate r) \<longleftrightarrow> pg_keeps ts r = r"
| "kept_call ts (CallResolve c now) \<longleftrightarrow> ts now = now"
| "kept_call ts (CallSweep now) \<longleftrightarrow> False"
| "kept_call ts _ \<longleftrightarrow> True"

lemma map_run_kept:
  "list_all (kept_call ts) calls \<Longrightarrow> \<forall>c r. m c = Some r \<longrightarrow> pg_keeps ts r = r \<Longrightarrow>
     map_run (pg_keeps ts) sw calls m = map_run (\<lambda>r. r) sw' calls m"
proof (induction calls arbitrary: m)
  case (Cons k calls)
  have used: "pg_keeps ts (used r now) = used r now" if "pg_keeps ts r = r" "ts now = now" for r now
    using that by (cases r) (simp add: pg_keeps_def used_def)
  let ?m = "map_step (\<lambda>r. r) sw' k m"
  have "kept_call ts k" using Cons.prems(1) by simp
  then have "map_step (pg_keeps ts) sw k m = ?m \<and> map_reply sw k m = map_reply sw' k m
      \<and> (\<forall>c r. ?m c = Some r \<longrightarrow> pg_keeps ts r = r)"
    using Cons.prems(2) used by (cases k) (auto split: option.split)
  then show ?case using Cons.IH [of ?m] Cons.prems(1) by simp
qed simp

text \<open>
  C34. SQLite and PostgreSQL are interchangeable: two stores that hold the same links give, while no
  call fails, the same answers to any sequence of creations, lookups, deletions and resolutions
  at instants the driver keeps, and hold the same links afterwards.
\<close>

theorem stores_agree:
  assumes "driver_time ts" "sq_wf d" "sq_quiet d" "pg_wf ts d2" "pg_quiet d2" "sq_look d = pg_look d2"
    "list_all (call_ok sq_storable rfc3339_ok) calls" "list_all (kept_call ts) calls"
    "roomy (int (length calls)) (sq_look d)" "int (length calls) \<le> 9223372036854775807"
  shows "fst (store_run sqlite_ops calls d) = fst (store_run (postgres_ops ts) calls d2)
    \<and> sq_look (snd (store_run sqlite_ops calls d)) = pg_look (snd (store_run (postgres_ops ts) calls d2))"
proof -
  have "call_ok (\<lambda>r. True) (\<lambda>now. True) k" if "call_ok sq_storable rfc3339_ok k" for k
    using that by (cases k) auto
  then have ok: "list_all (call_ok (\<lambda>r. True) (\<lambda>now. True)) calls" using assms(7) by (auto simp: list_all_iff)
  have kept: "\<forall>c r. pg_look d2 c = Some r \<longrightarrow> pg_keeps ts r = r"
    using driver_time.look_kept [OF assms(1,4)] by (auto simp: pg_kept_def)
  have "map_run (\<lambda>r. r) sq_sweeps calls (sq_look d)
      = (fst (store_run sqlite_ops calls d), sq_look (snd (store_run sqlite_ops calls d)))"
    by (rule rule_store.run_refines [OF sq.rule_store_axioms]) (use assms in auto)
  moreover have "map_run (pg_keeps ts) (pg_sweeps ts) calls (pg_look d2)
      = (fst (store_run (postgres_ops ts) calls d2), pg_look (snd (store_run (postgres_ops ts) calls d2)))"
    by (rule rule_store.run_refines [OF driver_time.is_store [OF assms(1)]]) (use assms ok in auto)
  ultimately show ?thesis
    using map_run_kept [OF assms(8) kept, of "pg_sweeps ts" sq_sweeps] assms(6) by simp
qed

lemma stores_agree_witness:
  "fst (store_run sqlite_ops demo_script demo_sqlite) = fst (store_run (postgres_ops pg_micro) demo_script demo_postgres)"
proof -
  have "list_all (call_ok sq_storable rfc3339_ok) demo_script" "int (length demo_script) = 4"
    using demo_now_ok demo_storable by (simp_all add: demo_script_def sq_storable_def in_int64_def)
  moreover have "pg_keeps pg_micro (demo_rule\<lparr>r_UsedCount := 0\<rparr>) = demo_rule\<lparr>r_UsedCount := 0\<rparr>" "pg_micro demo_now = demo_now"
    by code_simp+
  then have "list_all (kept_call pg_micro) demo_script" by (simp add: demo_script_def)
  ultimately show ?thesis
    using stores_agree [OF pgm.driver_time_axioms demo_sqlite_wf demo_sqlite_quiet demo_postgres_wf demo_postgres_quiet, of demo_script]
      demo_roomy [of 4]
    by (simp add: demo_sqlite_look demo_postgres_look)
qed

end
