(* ===== verification/Postgres_Locking.thy ===== *)
theory Postgres_Locking
  imports Postgres_Store
begin

text \<open>
  Concurrent resolutions on PostgreSQL: \<open>ResolveRule\<close> of \<open>internal/storage/postgres/store.go\<close>
  step by step, with any number of clients, and deletions and insertions in between. What the
  database contributes is that of its documentation at the isolation level \<open>READ COMMITTED\<close>:
  \<open>SELECT ... FOR UPDATE\<close> waits until no other transaction holds the lock of the row, then
  takes it and returns the committed row; an \<open>UPDATE\<close> or \<open>DELETE\<close> of a row waits for its lock;
  a commit makes the change visible and gives the locks up, as does a rollback. A bulk deletion
  is a sequence of deletions of one row each.
\<close>

section \<open>Clients and steps\<close>

datatype phase =
    Idle
  | Started string instant
  | Loaded string instant rule
  | Updated string instant rule
  | Answered "svc_error + rule"

record cluster =
  g_rows :: "pg_row list"
  g_owner :: "string \<rightharpoonup> nat"
  g_phase :: "nat \<Rightarrow> phase"
  g_uses :: "string \<Rightarrow> nat"

definition set_phase :: "nat \<Rightarrow> phase \<Rightarrow> cluster \<Rightarrow> cluster" where
  "set_phase p x g = g\<lparr>g_phase := (g_phase g)(p := x)\<rparr>"

definition release :: "string \<Rightarrow> cluster \<Rightarrow> cluster" where
  "release c g = g\<lparr>g_owner := (g_owner g)(c := None)\<rparr>"

definition lock_row :: "string \<Rightarrow> nat \<Rightarrow> cluster \<Rightarrow> cluster" where
  "lock_row c p g = g\<lparr>g_owner := (g_owner g)(c \<mapsto> p)\<rparr>"

definition write_row :: "(instant \<Rightarrow> instant) \<Rightarrow> string \<Rightarrow> instant \<Rightarrow> cluster \<Rightarrow> cluster" where
  "write_row ts c now g = g\<lparr>g_rows := map (pg_touch (ts now) c) (g_rows g)\<rparr>"

text \<open>
  \<open>g_uses\<close> counts the resolutions of a code that were answered with its rule. The steps of a
  client carry its calls: begin, the locking read, the test of expiry, the update, the commit;
  each call can fail, and a commit can take effect although its answer is lost.
\<close>

inductive pstep :: "(instant \<Rightarrow> instant) \<Rightarrow> cluster \<Rightarrow> cluster \<Rightarrow> bool" for ts where
  begin_tx: "g_phase g p = Idle \<or> g_phase g p = Answered res \<Longrightarrow>
    pstep ts g (set_phase p (Started c now) g)"
| begin_fails: "g_phase g p = Idle \<or> g_phase g p = Answered res \<Longrightarrow>
    pstep ts g (set_phase p (Answered (Inl (OtherError e))) g)"
| read_locked: "g_phase g p = Started c now \<Longrightarrow> g_owner g c = None \<Longrightarrow>
    find_row p_code c (g_rows g) = Some row \<Longrightarrow> pg_scanRule row = Inr r \<Longrightarrow>
    pstep ts g (set_phase p (Loaded c now r) (lock_row c p g))"
| read_missing: "g_phase g p = Started c now \<Longrightarrow> find_row p_code c (g_rows g) = None \<Longrightarrow>
    pstep ts g (set_phase p (Answered (Inl ErrNotFound)) g)"
| read_fails: "g_phase g p = Started c now \<Longrightarrow>
    pstep ts g (set_phase p (Answered (Inl (OtherError e))) g)"
| refuse: "g_phase g p = Loaded c now r \<Longrightarrow> Expired r now = (True, reason) \<Longrightarrow>
    pstep ts g (set_phase p (Answered (Inl (ExpiredError r reason))) (release c g))"
| update: "g_phase g p = Loaded c now r \<Longrightarrow> \<not> fst (Expired r now) \<Longrightarrow> in_int64 (r_UsedCount r + 1) \<Longrightarrow>
    pstep ts g (set_phase p (Updated c now r) g)"
| update_fails: "g_phase g p = Loaded c now r \<Longrightarrow> \<not> fst (Expired r now) \<Longrightarrow>
    pstep ts g (set_phase p (Answered (Inl (OtherError e))) (release c g))"
| commit: "g_phase g p = Updated c now r \<Longrightarrow>
    pstep ts g (set_phase p (Answered (Inr (used r now)))
      (release c (write_row ts c now (g\<lparr>g_uses := (g_uses g)(c := g_uses g c + 1)\<rparr>))))"
| commit_lost: "g_phase g p = Updated c now r \<Longrightarrow>
    pstep ts g (set_phase p (Answered (Inl (OtherError e))) (release c (write_row ts c now g)))"
| commit_fails: "g_phase g p = Updated c now r \<Longrightarrow>
    pstep ts g (set_phase p (Answered (Inl (OtherError e))) (release c g))"
| create: "r_Code r \<notin> p_code ` set (g_rows g) \<Longrightarrow>
    pstep ts g (g\<lparr>g_rows := g_rows g @ [pg_insert_row ts r]\<rparr>)"
| delete_one: "g_owner g c = None \<Longrightarrow>
    pstep ts g (g\<lparr>g_rows := filter (\<lambda>row. p_code row \<noteq> c) (g_rows g)\<rparr>)"

inductive_cases pstepE: "pstep ts g g'"

text \<open>The runs from a cluster in which no link of the code \<open>c\<close> is created.\<close>

inductive runs :: "(instant \<Rightarrow> instant) \<Rightarrow> string \<Rightarrow> cluster \<Rightarrow> cluster \<Rightarrow> bool" for ts c g0 where
  start: "runs ts c g0 g0"
| step: "runs ts c g0 g \<Longrightarrow> pstep ts g g' \<Longrightarrow>
    (c \<notin> p_code ` set (g_rows g) \<Longrightarrow> c \<notin> p_code ` set (g_rows g')) \<Longrightarrow> runs ts c g0 g'"

lemma cluster_simps [simp]:
  "g_rows (set_phase p x g) = g_rows g" "g_owner (set_phase p x g) = g_owner g"
  "g_uses (set_phase p x g) = g_uses g" "g_phase (set_phase p x g) = (g_phase g)(p := x)"
  "g_rows (release c g) = g_rows g" "g_owner (release c g) = (g_owner g)(c := None)"
  "g_uses (release c g) = g_uses g" "g_phase (release c g) = g_phase g"
  "g_rows (lock_row c p g) = g_rows g" "g_owner (lock_row c p g) = (g_owner g)(c \<mapsto> p)"
  "g_uses (lock_row c p g) = g_uses g" "g_phase (lock_row c p g) = g_phase g"
  "g_rows (write_row ts c now g) = map (pg_touch (ts now) c) (g_rows g)" "g_owner (write_row ts c now g) = g_owner g"
  "g_uses (write_row ts c now g) = g_uses g" "g_phase (write_row ts c now g) = g_phase g"
  by (simp_all add: set_phase_def release_def lock_row_def write_row_def)

section \<open>The lock invariant\<close>

text \<open>A client past its read holds the lock of its row, and has seen the row as it is.\<close>

definition holds :: "cluster \<Rightarrow> nat \<Rightarrow> string \<Rightarrow> rule \<Rightarrow> bool" where
  "holds g p c r \<longleftrightarrow> g_owner g c = Some p
     \<and> (\<exists>row. find_row p_code c (g_rows g) = Some row \<and> pg_scanRule row = Inr r)"

fun phase_ok :: "cluster \<Rightarrow> nat \<Rightarrow> phase \<Rightarrow> bool" where
  "phase_ok g p (Loaded c now r) \<longleftrightarrow> holds g p c r"
| "phase_ok g p (Updated c now r) \<longleftrightarrow> holds g p c r \<and> \<not> fst (Expired r now) \<and> in_int64 (r_UsedCount r + 1)"
| "phase_ok g p _ \<longleftrightarrow> True"

definition locked_ok :: "cluster \<Rightarrow> bool" where
  "locked_ok g \<longleftrightarrow> distinct (map p_code (g_rows g)) \<and> (\<forall>p. phase_ok g p (g_phase g p))"

lemma touch_code [simp]: "p_code (pg_touch t c row) = p_code row"
  by (simp add: pg_touch_def)

lemma find_touch:
  "find_row p_code c' (map (pg_touch t c) rows)
    = map_option (pg_touch t c) (find_row p_code c' rows)"
  by (rule find_row_map) simp

lemma touch_other: "p_code row \<noteq> c \<Longrightarrow> pg_touch t c row = row"
  by (simp add: pg_touch_def)

lemma find_code: "find_row p_code c rows = Some row \<Longrightarrow> p_code row = c"
  using find_row_SomeD by metis

lemma find_touch_other: "c' \<noteq> c \<Longrightarrow> find_row p_code c' (map (pg_touch t c) rows) = find_row p_code c' rows"
  by (cases "find_row p_code c' rows") (auto simp: find_touch dest: find_code intro: touch_other)

lemma holds_set_phase [simp]: "holds (set_phase q x g) p c r = holds g p c r"
  by (simp add: holds_def)

lemma phase_ok_set_phase [simp]: "phase_ok (set_phase q x g) p y = phase_ok g p y"
  by (cases y) simp_all

lemma phase_ok_frame:
  assumes "phase_ok g q x"
    "\<And>c r. holds g q c r \<Longrightarrow> holds h q c r"
  shows "phase_ok h q x"
  using assms by (cases x) auto

lemma locked_ok_move:
  assumes "locked_ok g" "distinct (map p_code (g_rows h))" "phase_ok h p x" "g_phase h = g_phase g"
    "\<And>q c. q \<noteq> p \<Longrightarrow> g_owner g c = Some q \<Longrightarrow>
       g_owner h c = Some q \<and> find_row p_code c (g_rows h) = find_row p_code c (g_rows g)"
  shows "locked_ok (set_phase p x h)"
proof -
  have "phase_ok h q (g_phase g q)" if "q \<noteq> p" for q
    by (rule phase_ok_frame [of g]) (use assms(1,5) that in \<open>auto simp: locked_ok_def holds_def\<close>)
  then show ?thesis using assms(2-4) by (simp add: locked_ok_def)
qed

lemma locked_holds: "locked_ok g \<Longrightarrow> g_phase g p = Loaded c now r \<Longrightarrow> holds g p c r"
    "locked_ok g \<Longrightarrow> g_phase g p = Updated c now r \<Longrightarrow>
       holds g p c r \<and> \<not> fst (Expired r now) \<and> in_int64 (r_UsedCount r + 1)"
  by (metis locked_ok_def phase_ok.simps(1)) (metis locked_ok_def phase_ok.simps(2))

lemma distinct_touch: "distinct (map p_code rows) \<Longrightarrow> distinct (map p_code (map (pg_touch t c) rows))"
  by (simp add: comp_def)

lemma locked_ok_rows:
  assumes "locked_ok g" "distinct (map p_code rows)"
    "\<And>c row. g_owner g c \<noteq> None \<Longrightarrow> find_row p_code c (g_rows g) = Some row \<Longrightarrow> find_row p_code c rows = Some row"
  shows "locked_ok (g\<lparr>g_rows := rows\<rparr>)"
proof -
  have "phase_ok (g\<lparr>g_rows := rows\<rparr>) q (g_phase g q)" for q
    by (rule phase_ok_frame [of g]) (use assms(1,3) in \<open>auto simp: locked_ok_def holds_def\<close>)
  then show ?thesis using assms(2) by (simp add: locked_ok_def)
qed

lemma locked_ok_step:
  assumes "pstep ts g g'" "locked_ok g"
  shows "locked_ok g'"
  using assms(1)
proof (cases rule: pstep.cases)
  case (read_locked p c now row r)
  show ?thesis unfolding read_locked(1)
    by (rule locked_ok_move [OF assms(2)]) (use assms(2) read_locked in \<open>auto simp: locked_ok_def holds_def\<close>)
next
  case (refuse p c now r reason)
  show ?thesis unfolding refuse(1)
    by (rule locked_ok_move [OF assms(2)])
      (use assms(2) locked_holds(1) [OF assms(2) refuse(2)] refuse in \<open>auto simp: locked_ok_def holds_def\<close>)
next
  case (update p c now r)
  show ?thesis unfolding update(1)
    by (rule locked_ok_move [OF assms(2)]) (use assms(2) locked_holds(1) [OF assms(2) update(2)] update in \<open>auto simp: locked_ok_def\<close>)
next
  case (update_fails p c now r e)
  show ?thesis unfolding update_fails(1)
    by (rule locked_ok_move [OF assms(2)])
      (use assms(2) locked_holds(1) [OF assms(2) update_fails(2)] update_fails in \<open>auto simp: locked_ok_def holds_def\<close>)
next
  case (commit p c now r)
  show ?thesis unfolding commit(1)
    by (rule locked_ok_move [OF assms(2)])
      (use assms(2) locked_holds(2) [OF assms(2) commit(2)] commit in \<open>auto simp: locked_ok_def holds_def comp_def find_touch_other\<close>)
next
  case (commit_lost p c now r e)
  show ?thesis unfolding commit_lost(1)
    by (rule locked_ok_move [OF assms(2)])
      (use assms(2) locked_holds(2) [OF assms(2) commit_lost(2)] commit_lost in \<open>auto simp: locked_ok_def holds_def comp_def find_touch_other\<close>)
next
  case (commit_fails p c now r e)
  show ?thesis unfolding commit_fails(1)
    by (rule locked_ok_move [OF assms(2)])
      (use assms(2) locked_holds(2) [OF assms(2) commit_fails(2)] commit_fails in \<open>auto simp: locked_ok_def holds_def\<close>)
next
  case (create r)
  show ?thesis unfolding create(1)
    by (rule locked_ok_rows [OF assms(2)]) (use assms(2) create in \<open>auto simp: locked_ok_def find_row_append\<close>)
next
  case (delete_one c)
  show ?thesis unfolding delete_one(1)
    by (rule locked_ok_rows [OF assms(2)])
      (use assms(2) delete_one in \<open>auto simp: locked_ok_def find_row_filter distinct_map_filter_key dest: find_code\<close>)
qed (use assms(2) in \<open>auto intro!: locked_ok_move [OF assms(2)] simp: locked_ok_def\<close>)

section \<open>The limit under concurrency\<close>

text \<open>
  While a link of the code is there, its count is at least the uses that were answered since
  the start, and at most its limit.
\<close>

definition within_limit :: "string \<Rightarrow> int \<Rightarrow> int \<Rightarrow> cluster \<Rightarrow> bool" where
  "within_limit c m n g \<longleftrightarrow> int (g_uses g c) + n \<le> m
     \<and> (\<forall>row. find_row p_code c (g_rows g) = Some row \<longrightarrow>
          p_max_usages row = Some m \<and> int (g_uses g c) + n \<le> p_used_count row \<and> p_used_count row \<le> m)"

lemma within_limit_same:
  "within_limit c m n g \<Longrightarrow> g_uses h c = g_uses g c \<Longrightarrow>
     find_row p_code c (g_rows h) = find_row p_code c (g_rows g) \<or> find_row p_code c (g_rows h) = None \<Longrightarrow> within_limit c m n h"
  by (auto simp: within_limit_def)

lemma within_limit_step:
  assumes "pstep ts g g'" "locked_ok g" "within_limit c m n g"
    "c \<notin> p_code ` set (g_rows g) \<Longrightarrow> c \<notin> p_code ` set (g_rows g')"
  shows "within_limit c m n g'"
proof -
  have writes: "within_limit c m n g'"
    if "g_phase g p = Updated c' now r" "g_rows g' = map (pg_touch (ts now) c') (g_rows g)"
      "g_uses g' c = g_uses g c + (if c' = c then k else 0)" "k \<le> 1" for p c' now r k
  proof (cases "c' = c")
    case True
    note upd = that(1)
    obtain row where row: "find_row p_code c (g_rows g) = Some row" "pg_scanRule row = Inr r" "\<not> fst (Expired r now)"
      using locked_holds(2) [OF assms(2) upd] True by (auto simp: holds_def)
    have "p_max_usages row = r_MaxUsages r" "p_used_count row = r_UsedCount r" using row(2) by (auto simp: pg_scanRule_def)
    then have "p_used_count row < m" using assms(3) row(1,3) by (auto simp: within_limit_def Expired_iff)
    moreover have "p_used_count (pg_touch (ts now) c row) = p_used_count row + 1"
      "p_max_usages (pg_touch (ts now) c row) = p_max_usages row"
      using find_code [OF row(1)] by (simp_all add: pg_touch_def)
    ultimately show ?thesis using assms(3) that row(1) True by (auto simp: within_limit_def find_touch)
  next
    case False
    then show ?thesis using within_limit_same [OF assms(3)] that(2,3) by (simp add: find_touch_other)
  qed
  show ?thesis
    using assms(1)
  proof (cases rule: pstep.cases)
    case (commit p c' now r)
    then show ?thesis by (intro writes [of p c' now r 1]) auto
  next
    case (commit_lost p c' now r e)
    then show ?thesis by (intro writes [of p c' now r 0]) auto
  next
    case (create r)
    have "find_row p_code c (g_rows g') = find_row p_code c (g_rows g)"
    proof (cases "find_row p_code c (g_rows g)")
      case None
      then show ?thesis using assms(4) by (metis find_row_None_iff)
    qed (simp add: create find_row_append)
    then show ?thesis using within_limit_same [OF assms(3)] create by simp
  next
    case (delete_one c')
    then show ?thesis using within_limit_same [OF assms(3)] assms(2)
      by (auto simp: find_row_filter locked_ok_def split: option.splits)
  qed (use within_limit_same [OF assms(3)] in auto)
qed

lemma runs_within: "runs ts c g0 g \<Longrightarrow> locked_ok g0 \<Longrightarrow> within_limit c m n g0 \<Longrightarrow> locked_ok g \<and> within_limit c m n g"
  by (induction rule: runs.induct) (auto intro: locked_ok_step within_limit_step)

section \<open>The steps refine the calls\<close>

text \<open>
  A commit does to the rows, and answers, what the whole call \<open>pg_ResolveRule\<close> would at that
  moment: concurrent resolutions behave as if they ran one after the other.
\<close>

definition quiet_db :: "pg_row list \<Rightarrow> pg_error \<Rightarrow> pg_error \<Rightarrow> postgres" where
  "quiet_db rows conflict overflow =
     \<lparr>db_rows = rows, db_faults = [], db_conflict = conflict, db_overflow = overflow\<rparr>"

lemma commit_is_call:
  assumes "locked_ok g" "g_phase g p = Updated c now r"
  shows "pg_ResolveRule ts c now (quiet_db (g_rows g) e1 e2)
    = (Inr (used r now), quiet_db (g_rows (write_row ts c now g)) e1 e2)"
proof -
  obtain row where row: "find_row p_code c (g_rows g) = Some row" "pg_scanRule row = Inr r"
    "\<not> fst (Expired r now)" "in_int64 (r_UsedCount r + 1)"
    using locked_holds(2) [OF assms] by (auto simp: holds_def)
  have "p_used_count row = r_UsedCount r" using row(2) by (auto simp: pg_scanRule_def)
  moreover have "x = row" if "x \<in> set (g_rows g)" "p_code x = c" for x
    using that row(1) assms(1) find_row_Some_iff [of p_code "g_rows g" c x] by (simp add: locked_ok_def)
  ultimately have "\<not> list_ex (\<lambda>x. p_code x = c \<and> \<not> in_int64 (p_used_count x + 1)) (g_rows g)"
    using row(4) by (auto simp: list_ex_iff)
  then show ?thesis
    using row by (simp add: pg_ResolveRule_def quiet_db_def no_faults_eqs no_faults_def pg_update_usage_def
        tx_exec_def tx_commit_def db_call_def next_fault_def)
qed

section \<open>Locks are given up\<close>

text \<open>The lock of a row is held by a client that has read the row and has not answered.\<close>

definition owner_ok :: "cluster \<Rightarrow> bool" where
  "owner_ok g \<longleftrightarrow> (\<forall>c p. g_owner g c = Some p \<longrightarrow> (\<exists>now r. g_phase g p = Loaded c now r \<or> g_phase g p = Updated c now r))"

lemma owner_ok_move:
  assumes "owner_ok g" "g_phase h = g_phase g"
    "\<And>c q. g_owner h c = Some q \<Longrightarrow> g_owner g c = Some q \<or> q = p"
    "\<And>c. g_owner h c = Some p \<Longrightarrow> \<exists>now r. x = Loaded c now r \<or> x = Updated c now r"
  shows "owner_ok (set_phase p x h)"
  using assms by (fastforce simp: owner_ok_def)

lemma owner_phase: "owner_ok g \<Longrightarrow> g_owner g c = Some p \<Longrightarrow> g_phase g p = x \<Longrightarrow>
    \<exists>now r. x = Loaded c now r \<or> x = Updated c now r"
  by (auto simp: owner_ok_def)

lemma owner_ok_step:
  assumes "pstep ts g g'" "owner_ok g"
  shows "owner_ok g'"
  using assms(1)
proof (cases rule: pstep.cases)
  case (create r)
  then show ?thesis using assms(2) by (simp add: owner_ok_def)
next
  case (delete_one c)
  then show ?thesis using assms(2) by (simp add: owner_ok_def)
qed (use owner_phase [OF assms(2)] in \<open>fastforce intro!: owner_ok_move [OF assms(2)] split: if_splits\<close>)+

section \<open>Steps in which no call fails\<close>

text \<open>
  From which phase to which a client moves while its calls work: the read finds the row or that there
  is none; the update is left out when the rule is expired, and refused by the database when the count
  would leave its column; the commit answers with the rule.
\<close>

fun advances :: "phase \<Rightarrow> phase \<Rightarrow> bool" where
  "advances (Started c now) (Loaded c' now' r) \<longleftrightarrow> True"
| "advances (Started c now) (Answered (Inl e)) \<longleftrightarrow> e = ErrNotFound"
| "advances (Loaded c now r) (Updated c' now' r') \<longleftrightarrow> True"
| "advances (Loaded c now r) (Answered (Inl e)) \<longleftrightarrow> fst (Expired r now) \<or> \<not> in_int64 (r_UsedCount r + 1)"
| "advances (Updated c now r) (Answered (Inr r')) \<longleftrightarrow> True"
| "advances _ _ \<longleftrightarrow> False"

text \<open>A step of the client \<open>p\<close>, and of nobody else, in which no call fails.\<close>

definition works :: "(instant \<Rightarrow> instant) \<Rightarrow> nat \<Rightarrow> cluster \<Rightarrow> cluster \<Rightarrow> bool" where
  "works ts p g g' \<longleftrightarrow> pstep ts g g' \<and> (\<exists>x. g_phase g' = (g_phase g)(p := x) \<and> advances (g_phase g p) x)"

lemma worksI:
  "pstep ts g (set_phase p x h) \<Longrightarrow> g_phase h = g_phase g \<Longrightarrow> advances (g_phase g p) x \<Longrightarrow> works ts p g (set_phase p x h)"
  by (auto simp: works_def)

lemma works_pstep: "works ts p g g' \<Longrightarrow> pstep ts g g'"
  by (simp add: works_def)

text \<open>What a client that holds a lock will answer when none of its calls fails, and the rows it leaves.\<close>

definition due :: "string \<Rightarrow> rule \<Rightarrow> instant \<Rightarrow> svc_error + rule" where
  "due overflow r now =
     (case Expired r now of
        (True, reason) \<Rightarrow> Inl (ExpiredError r reason)
      | (False, _) \<Rightarrow> if in_int64 (r_UsedCount r + 1) then Inr (used r now) else Inl (OtherError overflow))"

definition left_rows :: "(instant \<Rightarrow> instant) \<Rightarrow> string \<Rightarrow> rule \<Rightarrow> instant \<Rightarrow> pg_row list \<Rightarrow> pg_row list" where
  "left_rows ts c r now rows =
     (if fst (Expired r now) \<or> \<not> in_int64 (r_UsedCount r + 1) then rows else map (pg_touch (ts now) c) rows)"

lemma due_cases:
  obtains reason where "Expired r now = (True, reason)" "due msg r now = Inl (ExpiredError r reason)" "left_rows ts c r now rows = rows"
  | "\<not> fst (Expired r now)" "\<not> in_int64 (r_UsedCount r + 1)" "due msg r now = Inl (OtherError msg)" "left_rows ts c r now rows = rows"
  | "\<not> fst (Expired r now)" "in_int64 (r_UsedCount r + 1)" "due msg r now = Inr (used r now)"
    "left_rows ts c r now rows = map (pg_touch (ts now) c) rows"
  by (cases "Expired r now") (auto simp: due_def left_rows_def split: bool.splits)

lemma holder_finishes:
  assumes "g_phase g q = Loaded c now r \<or> g_phase g q = Updated c now r \<and> \<not> fst (Expired r now) \<and> in_int64 (r_UsedCount r + 1)"
  obtains g' k where "k \<le> 2" "(works ts q ^^ k) g g'" "g_phase g' = (g_phase g)(q := Answered (due overflow r now))"
    "g_owner g' = (g_owner g)(c := None)" "g_rows g' = left_rows ts c r now (g_rows g)"
proof -
  let ?done = "\<lambda>h g'. g_phase g' = (g_phase h)(q := Answered (due overflow r now)) \<and> g_owner g' = (g_owner h)(c := None)
    \<and> g_rows g' = left_rows ts c r now (g_rows h)"
  have com: "\<exists>h'. works ts q h h' \<and> ?done h h'"
    if "g_phase h q = Updated c now r" "\<not> fst (Expired r now)" "in_int64 (r_UsedCount r + 1)" for h
    using worksI [OF commit [OF that(1)]] that
    by (intro exI conjI, assumption?) (auto simp: due_def left_rows_def split: prod.split)
  show thesis
  proof (cases "g_phase g q = Loaded c now r")
    case True
    show thesis
    proof (cases rule: due_cases [of r now overflow ts c "g_rows g"])
      case (1 reason)
      have "works ts q g (set_phase q (Answered (due overflow r now)) (release c g))"
        unfolding 1(2) by (rule worksI [OF refuse [OF True 1(1)]]) (simp_all add: True 1(1))
      then show thesis using 1(3) by (intro that [of 1 "set_phase q (Answered (due overflow r now)) (release c g)"]) (simp_all add: eq_OO)
    next
      case 2
      have "works ts q g (set_phase q (Answered (due overflow r now)) (release c g))"
        unfolding 2(3) by (rule worksI [OF update_fails [OF True 2(1)]]) (simp_all add: True 2(2))
      then show thesis using 2(4) by (intro that [of 1 "set_phase q (Answered (due overflow r now)) (release c g)"]) (simp_all add: eq_OO)
    next
      case 3
      let ?h = "set_phase q (Updated c now r) g"
      have "works ts q g ?h" by (rule worksI [OF update [OF True 3(1,2)]]) (simp_all add: True)
      moreover obtain h' where h': "works ts q ?h h'" "?done ?h h'" using com [of ?h] 3 by auto
      ultimately have "(works ts q ^^ 2) g h'" by (auto simp: numeral_2_eq_2 eq_OO)
      then show thesis using h'(2) that [of 2 h'] by simp
    qed
  next
    case False
    then obtain h' where "works ts q g h'" "?done g h'" using com [of g] assms by blast
    then show thesis using that [of 1 h'] by (simp add: eq_OO)
  qed
qed

text \<open>The whole call on a table of distinct codes, when no call fails.\<close>

lemma call_result:
  assumes "distinct (map p_code rows)"
  shows "pg_ResolveRule ts c now (quiet_db rows e1 e2)
    = (case find_row p_code c rows of
         None \<Rightarrow> (Inl ErrNotFound, quiet_db rows e1 e2)
       | Some row \<Rightarrow> (case pg_scanRule row of
           Inl e \<Rightarrow> (Inl (OtherError (''load rule for resolve: '' @ e)), quiet_db rows e1 e2)
         | Inr r \<Rightarrow> (due (''update rule usage: '' @ pg_text e2) r now, quiet_db (left_rows ts c r now rows) e1 e2)))"
proof (cases "find_row p_code c rows")
  case None
  then show ?thesis by (simp add: pg_ResolveRule_def quiet_db_def no_faults_eqs no_faults_def db_call_def next_fault_def)
next
  case (Some row)
  have only: "x = row" if "x \<in> set rows" "p_code x = c" for x
    using that Some assms find_row_Some_iff [of p_code rows c x] by simp
  have "row \<in> set rows" "p_code row = c" using find_row_SomeD [OF Some] by simp_all
  then have "list_ex (\<lambda>x. p_code x = c \<and> \<not> in_int64 (p_used_count x + 1)) rows \<longleftrightarrow> \<not> in_int64 (p_used_count row + 1)"
    using only unfolding list_ex_iff by blast
  moreover obtain r where r: "pg_scanRule row = Inr r" "p_used_count row = r_UsedCount r"
    by (metis pg_scanRule_def rule.select_convs(6))
  ultimately have e: "list_ex (\<lambda>x. p_code x = c \<and> \<not> in_int64 (p_used_count x + 1)) rows \<longleftrightarrow> \<not> in_int64 (r_UsedCount r + 1)"
    by simp
  note call = pg_ResolveRule_def quiet_db_def no_faults_eqs no_faults_def pg_update_usage_def
        tx_exec_def tx_commit_def db_call_def next_fault_def due_def
  obtain dead reason where x: "Expired r now = (dead, reason)" by fastforce
  show ?thesis
    by (cases dead; cases "in_int64 (r_UsedCount r + 1)") (simp_all add: call left_rows_def Some r(1) e x)
qed

text \<open>
  A client that has begun is answered: the holder of the lock, if there is one, finishes in at most
  two steps of its own, then the client reads and finishes in at most three, as the whole call would.
\<close>

lemma lock_given_up:
  assumes "locked_ok g" "owner_ok g" "g_phase g p = Started c now" "g_owner g c = Some q"
  obtains g1 j res where "q \<noteq> p" "j \<le> 2" "(works ts q ^^ j) g g1" "g_phase g1 = (g_phase g)(q := Answered res)"
    "g_owner g1 = (g_owner g)(c := None)"
proof -
  obtain now' r where q: "g_phase g q = Loaded c now' r \<or> g_phase g q = Updated c now' r"
    using assms(2,4) unfolding owner_ok_def by blast
  then have h: "g_phase g q = Loaded c now' r \<or> g_phase g q = Updated c now' r \<and> \<not> fst (Expired r now') \<and> in_int64 (r_UsedCount r + 1)"
    using locked_holds(2) [OF assms(1)] by blast
  have "q \<noteq> p" using q assms(3) by auto
  then show thesis using holder_finishes [OF h] that by metis
qed

lemma free_served:
  assumes "locked_ok g" "g_phase g p = Started c now" "g_owner g c = None"
  obtains g' k res where "k \<le> 3" "(works ts p ^^ k) g g'" "g_phase g' p = Answered res" "g_owner g' c = None"
    "pg_ResolveRule ts c now (quiet_db (g_rows g) e1 e2) = (res, quiet_db (g_rows g') e1 e2)"
proof -
  have dist: "distinct (map p_code (g_rows g))" using assms(1) by (simp add: locked_ok_def)
  show thesis
  proof (cases "find_row p_code c (g_rows g)")
    case None
    have "works ts p g (set_phase p (Answered (Inl ErrNotFound)) g)"
      by (rule worksI [OF read_missing [OF assms(2) None]]) (simp_all add: assms(2))
    then show thesis
      by (intro that [of 1 "set_phase p (Answered (Inl ErrNotFound)) g"])
        (simp_all add: assms(3) call_result [OF dist] None eq_OO)
  next
    case (Some row)
    obtain r where r: "pg_scanRule row = Inr r" by (simp add: pg_scanRule_def)
    let ?h = "set_phase p (Loaded c now r) (lock_row c p g)"
    have l: "works ts p g ?h" by (rule worksI [OF read_locked [OF assms(2,3) Some r]]) (simp_all add: assms(2))
    have "g_phase ?h p = Loaded c now r \<or> g_phase ?h p = Updated c now r \<and> \<not> fst (Expired r now) \<and> in_int64 (r_UsedCount r + 1)" by simp
    then obtain g' k where g': "k \<le> 2" "(works ts p ^^ k) ?h g'"
      "g_phase g' = (g_phase ?h)(p := Answered (due (''update rule usage: '' @ pg_text e2) r now))"
      "g_owner g' = (g_owner ?h)(c := None)" "g_rows g' = left_rows ts c r now (g_rows ?h)"
      by (rule holder_finishes)
    have "(works ts p ^^ Suc k) g g'" using l g'(2) by (rule relpowp_Suc_I2)
    then show thesis using g'(1,3-5)
      by (intro that [of "Suc k" g']) (simp_all add: call_result [OF dist] Some r)
  qed
qed

end
