(* ===== verification/Tracing.thy ===== *)
theory Tracing
  imports Shortener Spans
begin

text \<open>
  The spans of the service's methods (\<open>internal/shortener/service.go\<close>): each method again, with the
  span it keeps, which ends when the method returns. The theorem is that the span changes nothing
  and tells how the method ended.
\<close>

definition fail_span :: "svc_error \<Rightarrow> string \<Rightarrow> span \<Rightarrow> span" where
  "fail_span e description sp = SetError description (RecordError (error_text e) sp)"

definition traced_Ping :: "'s service \<Rightarrow> 's \<Rightarrow> ((svc_error + unit) \<times> 's) \<times> span" where
  "traced_Ping svc s = (op_Ping (svc_store svc) s, new_span ''service.ping'')"

definition traced_DeleteExpired :: "'s service \<Rightarrow> instant \<Rightarrow> 's \<Rightarrow> ((svc_error + int) \<times> 's) \<times> span" where
  "traced_DeleteExpired svc wall s =
     (let sp = new_span ''service.delete_expired'' in
      case op_DeleteExpired (svc_store svc) (svc_Now svc wall) s of
        (Inl e, s') \<Rightarrow> ((Inl e, s'), fail_span e ''delete expired failed'' sp)
      | (Inr deleted, s') \<Rightarrow> ((Inr deleted, s'), SetAttributes [Int64Attr ''rules.deleted'' deleted] sp))"

fun traced_generated ::
  "nat \<Rightarrow> 's service \<Rightarrow> rule \<Rightarrow> 's \<times> entropy \<Rightarrow> span \<Rightarrow> ((svc_error + rule) \<times> 's \<times> entropy) \<times> span" where
  "traced_generated 0 svc r (s, src) sp =
     (let err = OtherError ''could not generate a unique short code''
      in ((Inl err, (s, src)), fail_span err ''code collision exhaustion'' sp))"
| "traced_generated (Suc k) svc r (s, src) sp =
     (case Generate (svc_generator svc) src of
        (Inl e, src') \<Rightarrow> ((Inl (OtherError e), (s, src')), fail_span (OtherError e) ''generate code failed'' sp)
      | (Inr code, src') \<Rightarrow>
          (case op_CreateRule (svc_store svc) (r\<lparr>r_Code := code\<rparr>) s of
             (Inl e, s') \<Rightarrow>
               if e = ErrAlreadyExists then traced_generated k svc (r\<lparr>r_Code := code\<rparr>) (s', src') sp
               else ((Inl e, (s', src')), fail_span e ''create generated rule failed'' sp)
           | (Inr created, s') \<Rightarrow>
               ((Inr created, (s', src')), SetAttributes [StringAttr ''rule.code'' (r_Code created)] sp)))"

text \<open>The attributes of a creation that is asked for.\<close>

definition input_attributes :: "create_input \<Rightarrow> attribute list" where
  "input_attributes input =
     [BoolAttr ''rule.has_alias'' (trim_space (in_Alias input) \<noteq> []),
      Int64Attr ''rule.ttl_seconds'' (in_TTLSeconds input), Int64Attr ''rule.max_usages'' (in_MaxUsages input)]"

definition traced_CreateRule ::
  "'s service \<Rightarrow> instant \<Rightarrow> create_input \<Rightarrow> 's \<times> entropy \<Rightarrow> ((svc_error + rule) \<times> 's \<times> entropy) \<times> span" where
  "traced_CreateRule svc wall input w =
     (let sp = SetAttributes (input_attributes input) (new_span ''service.create_rule'') in
      case ruleFromInput (svc_rejectPrivateTargets svc) input (svc_Now svc wall) of
        Inl e \<Rightarrow> ((Inl e, w), fail_span e ''invalid create input'' sp)
      | Inr r \<Rightarrow>
          if r_Code r \<noteq> [] then
            (case op_CreateRule (svc_store svc) r (fst w) of
               (Inl e, s') \<Rightarrow> ((Inl e, (s', snd w)), fail_span e ''create rule failed'' sp)
             | (Inr created, s') \<Rightarrow>
                 ((Inr created, (s', snd w)), SetAttributes [StringAttr ''rule.code'' (r_Code created)] sp))
          else traced_generated 10 svc r w sp)"

definition traced_GetRule :: "'s service \<Rightarrow> string \<Rightarrow> 's \<Rightarrow> ((svc_error + rule) \<times> 's) \<times> span" where
  "traced_GetRule svc raw s =
     (let sp = new_span ''service.get_rule'' in
      case validateCode raw of
        Inl e \<Rightarrow> ((Inl e, s), fail_span e ''invalid code'' sp)
      | Inr code \<Rightarrow>
          (let sp = SetAttributes [StringAttr ''rule.code'' code] sp in
           case op_GetRule (svc_store svc) code s of
             (Inl e, s') \<Rightarrow> ((Inl e, s'), fail_span e ''get rule failed'' sp)
           | (Inr r, s') \<Rightarrow> ((Inr r, s'), sp)))"

definition traced_DeleteRule :: "'s service \<Rightarrow> string \<Rightarrow> 's \<Rightarrow> ((svc_error + unit) \<times> 's) \<times> span" where
  "traced_DeleteRule svc raw s =
     (let sp = new_span ''service.delete_rule'' in
      case validateCode raw of
        Inl e \<Rightarrow> ((Inl e, s), fail_span e ''invalid code'' sp)
      | Inr code \<Rightarrow>
          (let sp = SetAttributes [StringAttr ''rule.code'' code] sp in
           case op_DeleteRule (svc_store svc) code s of
             (Inl e, s') \<Rightarrow> ((Inl e, s'), fail_span e ''delete rule failed'' sp)
           | (Inr u, s') \<Rightarrow> ((Inr u, s'), sp)))"

definition traced_ResolveRule :: "'s service \<Rightarrow> instant \<Rightarrow> string \<Rightarrow> 's \<Rightarrow> ((svc_error + rule) \<times> 's) \<times> span" where
  "traced_ResolveRule svc wall raw s =
     (let sp = new_span ''service.resolve_rule'' in
      case validateCode raw of
        Inl e \<Rightarrow> ((Inl e, s), fail_span e ''invalid code'' sp)
      | Inr code \<Rightarrow>
          (let sp = SetAttributes [StringAttr ''rule.code'' code] sp in
           case op_ResolveRule (svc_store svc) code (svc_Now svc wall) s of
             (Inl e, s') \<Rightarrow> ((Inl e, s'), fail_span e ''resolve rule failed'' sp)
           | (Inr r, s') \<Rightarrow> ((Inr r, s'), sp)))"

section \<open>What a span tells\<close>

text \<open>
  A span that started with some attributes tells the result: the error that is returned, recorded
  once, with the status of a failure, or no error; and its attributes are those and what the result adds.
\<close>

definition tells :: "string \<Rightarrow> (svc_error + 'a) \<Rightarrow> attribute list \<Rightarrow> ('a \<Rightarrow> attribute list) \<Rightarrow> span \<Rightarrow> bool" where
  "tells name res as extra sp \<longleftrightarrow> sp_Name sp = name \<and>
     (case res of
        Inl e \<Rightarrow> sp_Errors sp = [error_text e] \<and> sp_Status sp \<noteq> None \<and> sp_Attributes sp = as
      | Inr x \<Rightarrow> sp_Errors sp = [] \<and> sp_Status sp = None \<and> sp_Attributes sp = as @ extra x)"

lemma tells_fail [simp]: "sp_Errors sp = [] \<Longrightarrow>
    tells name (Inl e) as extra (fail_span e d sp) \<longleftrightarrow> sp_Name sp = name \<and> sp_Attributes sp = as"
  by (simp add: tells_def fail_span_def)

lemma tells_ok [simp]: "tells name (Inr x) as extra sp \<longleftrightarrow>
    sp_Name sp = name \<and> sp_Errors sp = [] \<and> sp_Status sp = None \<and> sp_Attributes sp = as @ extra x"
  by (simp add: tells_def)

lemma traced_generated:
  "sp_Errors sp = [] \<Longrightarrow> sp_Status sp = None \<Longrightarrow> traced_generated k svc r w sp = (res, sp') \<Longrightarrow>
   res = create_generated k svc r w
   \<and> tells (sp_Name sp) (fst res) (sp_Attributes sp) (\<lambda>r. [StringAttr ''rule.code'' (r_Code r)]) sp'"
proof (induction k svc r w sp rule: traced_generated.induct)
  case (2 k svc r s src sp)
  then show ?case by (auto split: prod.splits sum.splits if_splits)
qed (auto simp: Let_def)

text \<open>The attributes of the methods that take a code.\<close>

definition code_attributes :: "string \<Rightarrow> attribute list" where
  "code_attributes raw = (case validateCode raw of Inl e \<Rightarrow> [] | Inr code \<Rightarrow> [StringAttr ''rule.code'' code])"

lemmas traced_defs = traced_Ping_def traced_DeleteExpired_def traced_CreateRule_def traced_GetRule_def
  traced_DeleteRule_def traced_ResolveRule_def svc_defs code_attributes_def Let_def

lemma traced_create:
  obtains sp where "traced_CreateRule svc wall input w = (svc_CreateRule svc wall input w, sp)"
    "tells ''service.create_rule'' (fst (svc_CreateRule svc wall input w))
      (input_attributes input) (\<lambda>r. [StringAttr ''rule.code'' (r_Code r)]) sp"
proof -
  obtain res sp where t: "traced_CreateRule svc wall input w = (res, sp)" by fastforce
  have "res = svc_CreateRule svc wall input w \<and> tells ''service.create_rule'' (fst res)
    (input_attributes input) (\<lambda>r. [StringAttr ''rule.code'' (r_Code r)]) sp"
  proof (cases "ruleFromInput (svc_rejectPrivateTargets svc) input (svc_Now svc wall)")
    case (Inl e)
    then show ?thesis using t by (auto simp: traced_CreateRule_def svc_CreateRule_def Let_def)
  next
    case (Inr r)
    show ?thesis
    proof (cases "r_Code r = []")
      case True
      with Inr t have "traced_generated 10 svc r w
          (SetAttributes (input_attributes input) (new_span ''service.create_rule'')) = (res, sp)"
        by (simp add: traced_CreateRule_def Let_def)
      from traced_generated [OF _ _ this] True Inr show ?thesis by (auto simp: svc_CreateRule_def)
    next
      case False
      with Inr t show ?thesis
        by (auto simp: traced_CreateRule_def svc_CreateRule_def Let_def split: prod.splits sum.splits)
    qed
  qed
  with t show thesis by (auto intro: that)
qed

lemma traced_code:
  "\<exists>sp. traced_GetRule svc raw s = (svc_GetRule svc raw s, sp)
     \<and> tells ''service.get_rule'' (fst (svc_GetRule svc raw s)) (code_attributes raw) (\<lambda>_. []) sp"
  "\<exists>sp. traced_DeleteRule svc raw s = (svc_DeleteRule svc raw s, sp)
     \<and> tells ''service.delete_rule'' (fst (svc_DeleteRule svc raw s)) (code_attributes raw) (\<lambda>_. []) sp"
  "\<exists>sp. traced_ResolveRule svc wall raw s = (svc_ResolveRule svc wall raw s, sp)
     \<and> tells ''service.resolve_rule'' (fst (svc_ResolveRule svc wall raw s)) (code_attributes raw) (\<lambda>_. []) sp"
  by (auto simp: traced_defs split: prod.split sum.split)

lemma traced_sweep:
  "\<exists>sp. traced_DeleteExpired svc wall s = (svc_DeleteExpired svc wall s, sp)
     \<and> tells ''service.delete_expired'' (fst (svc_DeleteExpired svc wall s)) [] (\<lambda>n. [Int64Attr ''rules.deleted'' n]) sp"
  by (auto simp: traced_defs split: prod.split sum.split)

text \<open>
  C30. Every method of the service returns and does the same with its span as without, and the span
  tells how it ended: a method that fails records the error it returns and has the status of a
  failure, one that succeeds has neither (a failing \<open>Ping\<close> leaves no trace). The attributes are no
  more than whether an alias was asked for, the time to live, the limit, the code and the number of
  deleted links: no span holds the target of a link.
\<close>

theorem spans_tell_results:
  "(\<exists>sp. traced_CreateRule svc wall input w = (svc_CreateRule svc wall input w, sp)
     \<and> tells ''service.create_rule'' (fst (svc_CreateRule svc wall input w)) (input_attributes input)
         (\<lambda>r. [StringAttr ''rule.code'' (r_Code r)]) sp)
   \<and> (\<exists>sp. traced_GetRule svc raw s = (svc_GetRule svc raw s, sp)
     \<and> tells ''service.get_rule'' (fst (svc_GetRule svc raw s)) (code_attributes raw) (\<lambda>_. []) sp)
   \<and> (\<exists>sp. traced_DeleteRule svc raw s = (svc_DeleteRule svc raw s, sp)
     \<and> tells ''service.delete_rule'' (fst (svc_DeleteRule svc raw s)) (code_attributes raw) (\<lambda>_. []) sp)
   \<and> (\<exists>sp. traced_ResolveRule svc wall raw s = (svc_ResolveRule svc wall raw s, sp)
     \<and> tells ''service.resolve_rule'' (fst (svc_ResolveRule svc wall raw s)) (code_attributes raw) (\<lambda>_. []) sp)
   \<and> (\<exists>sp. traced_DeleteExpired svc wall s = (svc_DeleteExpired svc wall s, sp)
     \<and> tells ''service.delete_expired'' (fst (svc_DeleteExpired svc wall s)) []
         (\<lambda>n. [Int64Attr ''rules.deleted'' n]) sp)
   \<and> traced_Ping svc s = (svc_Ping svc s, new_span ''service.ping'')"
proof -
  obtain sp where "traced_CreateRule svc wall input w = (svc_CreateRule svc wall input w, sp)"
    "tells ''service.create_rule'' (fst (svc_CreateRule svc wall input w)) (input_attributes input)
       (\<lambda>r. [StringAttr ''rule.code'' (r_Code r)]) sp" by (rule traced_create)
  moreover have "traced_Ping svc s = (svc_Ping svc s, new_span ''service.ping'')"
    by (simp add: traced_Ping_def svc_Ping_def)
  ultimately show ?thesis
    by (intro conjI traced_code traced_sweep exI [of _ sp]) assumption+
qed

end
