(* ===== verification/ProcessRate.thy ===== *)
theory ProcessRate
  imports Process RedisWindow
begin

text \<open>
  The rate of a client over a run of the process: which requests ask the limiter, and the bound that
  the contract of a limiter over time gives on the links a client creates.
\<close>

section \<open>What a request does to the limiter\<close>

definition limiter_kept :: "('s, 'l) handler \<Rightarrow> bool" where
  "limiter_kept h \<longleftrightarrow> (\<forall>r w st. case h r w st of (oc, w', st') \<Rightarrow> w_limiter st' = w_limiter st)"

lemma limiter_keptD:
  assumes "limiter_kept h" "h r w st = (oc, w', st')"
  shows "w_limiter st' = w_limiter st"
proof -
  have "case h r w st of (oc, w', st') \<Rightarrow> w_limiter st' = w_limiter st"
    using assms(1) [unfolded limiter_kept_def, THEN spec, THEN spec, THEN spec] .
  with assms(2) show ?thesis by simp
qed

lemma limiter_kept_handlers:
  "limiter_kept handleLanding" "limiter_kept handleDocs" "limiter_kept handleOpenAPI" "limiter_kept handleMetrics"
  "limiter_kept (handleLive a)" "limiter_kept (handleGetRule a)" "limiter_kept (handleDeleteRule a)"
  "limiter_kept (handleRedirect a)" "limiter_kept methodNotAllowed" "limiter_kept (handleClean loc)"
  by (auto simp: limiter_kept_def http_defs writeServiceError_def split: prod.splits sum.splits svc_error.splits)

lemma limiter_kept_guards:
  "limiter_kept h \<Longrightarrow> limiter_kept (withAdminAuth a h)" "limiter_kept h \<Longrightarrow> limiter_kept (instrument route h)"
  by (auto simp: limiter_kept_def withAdminAuth_def instrument_def split: prod.splits if_splits outcome.splits)

text \<open>The readiness probe pings the limiter, when the store answers.\<close>

lemma handleReady_limiter:
  fixes st :: "('s, 'l) world"
  assumes "handleReady a r w st = (oc, w', st')"
  shows "oc = Returned \<and> (w_limiter st' = w_limiter st \<or> (\<exists>u. lim_Ping (a_limiter a) (w_limiter st) = (u, w_limiter st')))"
proof -
  obtain res s' where p: "svc_Ping (a_service a) (w_store st) = (res, s')" by fastforce
  obtain u l' where l: "lim_Ping (a_limiter a) (w_limiter st) = (u, l')" by fastforce
  show ?thesis using assms by (cases res; cases u) (auto simp: handleReady_def p l)
qed

text \<open>A request that cannot create a link at most pings the limiter.\<close>

lemma serve_other_limiter:
  fixes st :: "('s, 'l) world"
  assumes "store_create_sane (svc_store (a_service a))" "store_read_sane (svc_store (a_service a))"
    "\<not> creating (route_for a r)" "serve a r fresh_writer st = (oc, w2, st2)"
  shows "w_limiter st2 = w_limiter st \<or> (\<exists>u. lim_Ping (a_limiter a) (w_limiter st) = (u, w_limiter st2))"
proof -
  obtain w1 st1 where h: "handler_of a (route_for a r) (routed a r) (inner_writer r) (entered r st) = (Returned, w1, st1)"
    by (rule answers_routed [OF assms(1,2)])
  have through: "w_limiter st2 = w_limiter st1"
    using serve_through [OF h] assms(4) by (metis Pair_inject)
  show ?thesis
  proof (cases "route_for a r = RReady")
    case True
    obtain oc' w' st' where r: "handleReady a (routed a r) (push_recorder (inner_writer r)) (entered r st) = (oc', w', st')"
      by (metis prod.exhaust)
    note ready = handleReady_limiter [OF r]
    then have "w_limiter st1 = w_limiter st'"
      using h True r by (auto simp: handler_of_def instrument_def)
    with ready through show ?thesis by simp
  next
    case False
    then have "limiter_kept (handler_of a (route_for a r))"
      using assms(3)
      by (cases "route_for a r")
        (simp_all add: creating_def handler_of_def limiter_kept_handlers limiter_kept_guards)
    from limiter_keptD [OF this h] through show ?thesis by simp
  qed
qed

text \<open>A request that can create a link asks the limiter once; it is answered 201 only when it is allowed.\<close>

lemma serve_creating_limiter:
  fixes st :: "('s, 'l) world"
  assumes "creating (route_for a r)" "serve a r fresh_writer st = (oc, w2, st2)"
    "lim_Allow (a_limiter a) (q_Now r) (clientIP (c_TrustedProxies (a_cfg a)) r) (w_limiter st) = (allowed, l')"
  shows "w_limiter st2 = l' \<and> (map_option fst (rw_Sent w2) = Some 201 \<longrightarrow> allowed = Inr True)"
proof -
  obtain label where label: "route_label (route_for a r) = Some label"
    using creating_handler [OF assms(1)] by metis
  consider e where "allowed = Inl e" | "allowed = Inr False" | "allowed = Inr True" "asked (route_for a r) r = None"
    | req where "allowed = Inr True" "asked (route_for a r) r = Some req"
    by (metis (full_types) not_None_eq sumE)
  then show ?thesis
  proof cases
    case 1
    obtain w3 st3 hdr where "serve a r fresh_writer st = (Returned, w3, st3)" "rw_Sent w3 = Some (503, hdr)" "w_limiter st3 = l'"
      by (rule serve_limiter_down [OF assms(1) assms(3) [unfolded 1]])
    then show ?thesis using assms(2) by simp
  next
    case 2
    obtain w3 st3 hdr where "serve a r fresh_writer st = (Returned, w3, st3)" "rw_Sent w3 = Some (429, hdr)" "w_limiter st3 = l'"
      by (rule serve_rate_limited [OF assms(1) label assms(3) [unfolded 2]])
    then show ?thesis using assms(2) by simp
  next
    case 3
    then show ?thesis using serve_unreadable [OF assms(1) 3(2) assms(3) [unfolded 3(1)]] assms(2) by (metis Pair_inject)
  next
    case 4
    obtain res s' src' where c: "svc_CreateRule (a_service a) (q_Now r) (input_of req) (w_store st, w_entropy st)
        = (res, (s', src'))" by (metis prod.exhaust)
    show ?thesis
      using serve_creates [OF assms(1) 4(2) assms(3) [unfolded 4(1)] c] assms(2) 4(1) by (metis Pair_inject)
  qed
qed

lemma cleanup_tick_limiter [simp]: "w_limiter (cleanup_tick svc now st) = w_limiter st"
  by (simp add: cleanup_tick_def split: prod.split sum.split)

section \<open>Over a run\<close>

text \<open>The calls of the limiter that the events of a run make.\<close>

fun event_calls :: "('s, 'l) api \<Rightarrow> run_event \<Rightarrow> (instant \<times> string) list" where
  "event_calls a (Request r) =
     (if creating (route_for a r) then [(q_Now r, clientIP (c_TrustedProxies (a_cfg a)) r)] else [])"
| "event_calls a (Tick now) = []"

definition limiter_calls :: "('s, 'l) api \<Rightarrow> run_event list \<Rightarrow> (instant \<times> string) list" where
  "limiter_calls a es = concat (map (event_calls a) es)"

text \<open>How many links a client is answered to have created.\<close>

fun creations :: "('s, 'l) api \<Rightarrow> string \<Rightarrow> run_event list \<Rightarrow> ('s, 'l) world \<Rightarrow> nat" where
  "creations a ip [] st = 0"
| "creations a ip (Tick now # es) st = creations a ip es (cleanup_tick (a_service a) now st)"
| "creations a ip (Request r # es) st =
     (case serve a r fresh_writer st of
        (oc, w, st') \<Rightarrow>
          (if creating (route_for a r) \<and> limit_key (clientIP (c_TrustedProxies (a_cfg a)) r) = limit_key ip
              \<and> map_option fst (rw_Sent w) = Some 201 then 1 else 0)
          + creations a ip es st')"

lemma run_events_Cons: "run_events a (e # es) st = run_events a es (run_event_step a e st)"
  by (simp add: run_events_def)

context rate_limiter
begin

text \<open>What one event does to the level of a client.\<close>

lemma event_level:
  fixes st :: "('s, 'l) world"
  assumes "a_limiter a = ops" "store_create_sane (svc_store (a_service a))" "store_read_sane (svc_store (a_service a))"
    "rwf (w_limiter st) t0" "timely t0" "timely t1" "list_all (\<lambda>c. timely (fst c)) (event_calls a e)"
    "sorted (t0 # map fst (event_calls a e) @ [t1])"
  shows "\<exists>t \<ge> t0. t \<le> t1 \<and> (event_calls a e = [] \<longrightarrow> t = t0) \<and> (event_calls a e \<noteq> [] \<longrightarrow> t = fst (hd (event_calls a e)))
    \<and> timely t \<and> rwf (w_limiter (run_event_step a e st)) t
    \<and> level (w_limiter (run_event_step a e st)) t ip + of_nat (creations a ip [e] st)
        \<le> level (w_limiter st) t0 ip + rate * (clock t - clock t0) + slack * of_nat (calls_under ip (event_calls a e))"
proof (cases e)
  case (Tick now)
  then show ?thesis using assms(4-6,8) by auto
next
  case (Request r)
  obtain oc w2 st2 where s: "serve a r fresh_writer st = (oc, w2, st2)" by (metis prod.exhaust)
  show ?thesis
  proof (cases "creating (route_for a r)")
    case False
    from serve_other_limiter [OF assms(2,3) False s]
    have "rwf (w_limiter st2) t0 \<and> level (w_limiter st2) t0 ip = level (w_limiter st) t0 ip"
      using ping_level [OF assms(4)] assms(1,4) by auto
    then show ?thesis using assms(5,8) by (auto simp: Request s False)
  next
    case True
    let ?ip = "clientIP (c_TrustedProxies (a_cfg a)) r"
    obtain allowed l' where al: "lim_Allow ops (q_Now r) ?ip (w_limiter st) = (allowed, l')" by fastforce
    note lim_r = serve_creating_limiter [OF True s, unfolded assms(1), OF al]
    have t: "t0 \<le> q_Now r" "q_Now r \<le> t1" "timely (q_Now r)" using assms(7,8) True Request by auto
    have w: "rwf (w_limiter st) (q_Now r)" by (rule wf_later [OF assms(4) t(1)])
    have "level l' (q_Now r) ip + (if limit_key ?ip = limit_key ip \<and> allowed = Inr True then 1 else 0)
        \<le> level (w_limiter st) t0 ip + rate * (clock (q_Now r) - clock t0)
          + slack * (if limit_key ?ip = limit_key ip then 1 else 0)"
      using refill [OF assms(4,5) t(1,3), of ip] spend [OF w t(3) al, of ip] by (auto split: if_splits)
    moreover have "rwf l' (q_Now r)" by (rule wf_allow [OF w t(3) al])
    ultimately show ?thesis
      using t lim_r by (intro exI [of _ "q_Now r"]) (auto simp: Request s True split: if_splits)
  qed
qed

lemma creations_le_level:
  fixes st :: "('s, 'l) world"
  assumes "a_limiter a = ops" "store_create_sane (svc_store (a_service a))" "store_read_sane (svc_store (a_service a))"
  shows "rwf (w_limiter st) t0 \<Longrightarrow> timely t0 \<Longrightarrow> timely t1 \<Longrightarrow> list_all (\<lambda>c. timely (fst c)) (limiter_calls a es) \<Longrightarrow>
    sorted (t0 # map fst (limiter_calls a es) @ [t1]) \<Longrightarrow>
    rwf (w_limiter (run_events a es st)) t1
    \<and> of_nat (creations a ip es st)
      \<le> level (w_limiter st) t0 ip + rate * (clock t1 - clock t0) + slack * of_nat (calls_under ip (limiter_calls a es))"
proof (induction es arbitrary: st t0)
  case Nil
  then have "level (w_limiter st) t1 ip \<le> level (w_limiter st) t0 ip + rate * (clock t1 - clock t0)"
    by (intro refill) auto
  moreover have "rwf (w_limiter st) t1" using wf_later [OF Nil(1)] Nil(5) by simp
  ultimately show ?case using level_nonneg [of "w_limiter st" t1 ip] Nil(3) by (simp add: run_events_def limiter_calls_def calls_under_def)
next
  case (Cons e es)
  have calls: "limiter_calls a (e # es) = event_calls a e @ limiter_calls a es" by (simp add: limiter_calls_def)
  have under: "calls_under ip (limiter_calls a (e # es)) = calls_under ip (event_calls a e) + calls_under ip (limiter_calls a es)"
    by (simp add: calls calls_under_def)
  have split: "creations a ip (e # es) st = creations a ip [e] st + creations a ip es (run_event_step a e st)"
    by (cases e) (simp_all split: prod.split)
  have one: "sorted (t0 # map fst (event_calls a e) @ [t1])" "list_all (\<lambda>c. timely (fst c)) (event_calls a e)"
    using Cons.prems(4,5) by (auto simp: calls sorted_append)
  obtain t where t: "t0 \<le> t" "timely t" "rwf (w_limiter (run_event_step a e st)) t"
    "event_calls a e = [] \<longrightarrow> t = t0" "event_calls a e \<noteq> [] \<longrightarrow> t = fst (hd (event_calls a e))"
    "level (w_limiter (run_event_step a e st)) t ip + of_nat (creations a ip [e] st)
        \<le> level (w_limiter st) t0 ip + rate * (clock t - clock t0) + slack * of_nat (calls_under ip (event_calls a e))"
    using event_level [OF assms Cons.prems(1-3) one(2,1), of ip] by blast
  have rest: "sorted (t # map fst (limiter_calls a es) @ [t1])" "list_all (\<lambda>c. timely (fst c)) (limiter_calls a es)"
    using Cons.prems(4,5) t(4,5) by (cases "event_calls a e"; auto simp: calls sorted_append)+
  from Cons.IH [OF t(3,2) Cons.prems(3) rest(2,1)] t(6) show ?case
    unfolding under split run_events_Cons by (simp add: algebra_simps)
qed

lemma creations_in_window:
  fixes st :: "('s, 'l) world"
  assumes "a_limiter a = ops" "store_create_sane (svc_store (a_service a))" "store_read_sane (svc_store (a_service a))"
    "\<And>t. rwf (w_limiter st) t" "list_all (\<lambda>c. timely (fst c)) (limiter_calls a (hs @ es))" "timely t0" "timely t1"
    "sorted (map fst (limiter_calls a hs) @ t0 # map fst (limiter_calls a es) @ [t1])"
  shows "of_nat (creations a ip es (run_events a hs st))
    \<le> burst + rate * (clock t1 - clock t0) + slack * of_nat (calls_under ip (limiter_calls a es))"
proof -
  have app: "limiter_calls a (hs @ es) = limiter_calls a hs @ limiter_calls a es" by (simp add: limiter_calls_def)
  define t where "t = (case limiter_calls a hs of [] \<Rightarrow> t0 | c # cs \<Rightarrow> fst c)"
  have t: "timely t" "sorted (t # map fst (limiter_calls a hs) @ [t0])"
    using assms(5,6,8) unfolding app t_def by (cases "limiter_calls a hs"; auto simp: sorted_append)+
  have w: "rwf (w_limiter (run_events a hs st)) t0"
    using creations_le_level [OF assms(1-4) t(1) assms(6) _ t(2)] assms(5) by (simp add: app)
  from creations_le_level [OF assms(1-3) w assms(6,7), of es ip] level_burst [OF w assms(6), of ip] assms(5,8)
  show ?thesis by (simp add: app sorted_append)
qed

end

section \<open>On the limiters of the process\<close>

text \<open>A client of the process with the limiter in memory.\<close>

lemma memory_creations:
  fixes st :: "('s, 'b any_limiter) world"
  assumes "refilling bk (f64_div perMinute (f64_of_int 60)) burst ttl bwf left lev rate"
    "a_limiter a = any_limiter_ops bk" "w_limiter st = MemoryLimiter (NewMemory perMinute burst ttl)"
    "store_create_sane (svc_store (a_service a))" "store_read_sane (svc_store (a_service a))"
    "sorted (map fst (limiter_calls a hs) @ t0 # map fst (limiter_calls a es) @ [t1])"
  shows "of_nat (creations a ip es (run_events a hs st)) \<le> of_int burst + rate * seconds (t1 - t0)"
proof -
  note memory = any_memory_limiter [OF refilling.over_time [OF assms(1)]]
  have w: "\<exists>l. w_limiter st = MemoryLimiter l \<and> metered.lwf (f64_div perMinute (f64_of_int 60)) burst ttl bwf lev rate l
      \<and> idle_since t l" for t
    using metered.new_lwf [OF refilling.axioms(1) [OF assms(1)] refl] refilling.new_idle [OF assms(1)] assms(3) by blast
  from rate_limiter.creations_in_window [OF memory assms(2,4,5) w _ _ _ assms(6), of ip]
  show ?thesis by (simp add: list_all_iff seconds_diff)
qed

text \<open>A client of the process with the limiter in Redis.\<close>

lemma redis_creations:
  fixes st :: "('s, 'b any_limiter) world"
  assumes "redis_config rl rate" "w_limiter st = RedisLimiter rl s" "rd_keys s = Map.empty"
    "a_limiter a = any_limiter_ops bk"
    "store_create_sane (svc_store (a_service a))" "store_read_sane (svc_store (a_service a))"
    "list_all (\<lambda>c. ms_ok (fst c)) (limiter_calls a (hs @ es))" "ms_ok t0" "ms_ok t1"
    "sorted (map fst (limiter_calls a hs) @ t0 # map fst (limiter_calls a es) @ [t1])"
  shows "of_nat (creations a ip es (run_events a hs st))
    \<le> of_int (rl_burst rl) + rate * (milli_clock t1 - milli_clock t0)
      + call_slack rl rate * of_nat (calls_under ip (limiter_calls a es))"
proof -
  note redis = any_redis_limiter [OF redis_config.over_time [OF assms(1)]]
  have w: "\<exists>s. w_limiter st = RedisLimiter rl s \<and> redis_config.twf rl s t" for t
    using redis_config.empty_twf [OF assms(1,3)] assms(2) by blast
  show ?thesis by (rule rate_limiter.creations_in_window [OF redis assms(4-6) w assms(7-10)])
qed

end
