(* ===== verification/Spec2Isabelle.thy ===== *)
theory Spec2Isabelle
  imports Link_Props Service_Props Api_Props Postgres_Locking Tracing ProcessRate
begin

text \<open>
  A model of I8SL, a URL shortener written in Go, and the theorems that make it correct. A client
  creates a link, with a generated code or an alias, optionally with a time to live and a number of
  uses; \<open>GET /r/{code}\<close> redirects to its target until it expires or its uses are spent.

  \<^bold>\<open>The parts and how they interact.\<close> The command calls \<open>app.Run\<close>, which reads the configuration
  (\<open>config.Load\<close>), sets up tracing, opens a store (SQLite or PostgreSQL) and a rate limiter (in
  memory or in Redis), and serves HTTP (\<open>server.NewHandler\<close>) beside a background cleanup. A request
  goes through the middleware (request id, span, recovery of panics, log), the mux, the guards of
  its route (rate limit, admin token) and its handler, which calls the \<open>shortener.Service\<close>; the
  service validates, draws codes (\<open>code.Generator\<close>) and calls the store.

  \<^bold>\<open>Libraries and languages.\<close> Prelude (64-bit integers, results as sums, lists), GoStrings, GoTime,
  GoNet, GoUrl, GoFloat and GoParse write out what the source uses of Go's standard library:
  byte strings and Unicode space, RFC 3339 times on the proleptic calendar, IP addresses and
  prefixes, \<open>url.Parse\<close> of Go 1.25, binary64 with rounding to nearest even, \<open>ParseFloat\<close> and
  \<open>ParseDuration\<close>. GoUtf8 (runes), GoJson (the scanner of \<open>encoding/json\<close> as a state machine on
  bytes, its unquoting, and the encoder) and JsonFacts (what is encoded is read back) are its JSON.
  Http is the request, the response writer and the state of the process; Mux is \<open>http.ServeMux\<close>:
  the cleaning and unescaping of paths and the patterns of \<open>NewHandler\<close>.

  \<^bold>\<open>The source, theory by theory.\<close>
  \<^item> \<open>internal/code/generator.go\<close>: CodeGen. The random source is a sequence of draws that may fail.
  \<^item> \<open>internal/shortener/service.go\<close>: Rules (the rule, its validation, expiry), Store (the interface
    \<open>Store\<close> and its contract, the locale \<open>rule_store\<close>), Shortener (the service over any store) and Tracing (its
    methods with their spans, of the type in Spans).
  \<^item> \<open>internal/storage/sqlite/store.go\<close>: Sqlite_Store; \<open>internal/storage/postgres/store.go\<close>:
    Postgres_Store. Both work on the rows of a table behind a script of failing calls (SqlDb);
    RowTable and RowStore hold what the two share, as locales that each store interprets.
    Postgres_Locking has \<open>ResolveRule\<close> on PostgreSQL as a step relation of concurrent clients with
    row locks.
  \<^item> \<open>internal/ratelimit\<close>: RateLimit (the interface as the locale \<open>limiter\<close>, the limiter in memory over
    the token bucket of \<open>golang.org/x/time/rate\<close> as a parameter, and the Lua script in binary64), and
    over time, as the locale \<open>rate_limiter\<close>, RateWindow (in memory) and RedisWindow (in Redis).
  \<^item> \<open>internal/config/config.go\<close>: Config. \<open>internal/observability\<close>: Metrics, and \<open>telemetry.Setup\<close> in App.
  \<^item> \<open>internal/server/server.go\<close>: JsonBody (from the bytes of a body to a \<open>createRuleRequest\<close>: the limit of
    a mebibyte, both calls of \<open>Decode\<close>, unknown fields, type errors), Answers (the structs of the answers
    to bytes, by their tags), Server (handlers, middleware), with the lemmas of ServerFacts and, for
    whole requests, Serve.
  \<^item> \<open>internal/app/app.go\<close>: AnyStore (the store behind the interface value), App (start, cleanup, shutdown)
    and Process (a whole run of requests and cleanup ticks; in ProcessRate, the rate of a client over it).

  \<^bold>\<open>The lemmas.\<close> The store contract is an abstraction of the table to a map from codes to rules,
  with a law for each operation on each branch, for calls that fail and for calls that take effect
  although they fail; the service, the server and the run of the process are proved over it once and
  hold for SQLite, PostgreSQL and the store of the process, which interpret it. MapStore states the
  map as a program of its own, which every store of the contract refines. RateLimit bounds
  what one client is granted at any instant by its tokens and those by the burst. RateWindow and RedisWindow
  bound what it is granted in a span of time by a potential, the level of its bucket (for the script with
  an explicit rounding error), prove that who waits for a token gets it (in memory whatever other clients
  do, on any bucket of the locale \<open>metered\<close>), and show where the bound fails, outside the locale \<open>refilling\<close>:
  a client that is forgotten too early, and clocks that disagree. ProcessRate carries the potential through
  the requests of a run: one that creates asks the limiter once, any other at most pings it.
  ServerFacts has a calculus of handlers that answer once. Postgres_Locking has the invariants of the
  row locks: who holds one has read the row, sees it as it is, and can finish by steps in which no call
  fails (\<open>works\<close>). Tracing shows that spans change no result and tell it.
  The properties stand in Link_Props (C16 to C22, C24, C26, C27), Tracing (C30), Service_Props (C7, C8,
  C29, C31, C32, C39), Server_Props (C6, C9 to C15, C38), Api_Props (C23, C25, C28, C33, C34, C36) and
  here (C1 to C5, C35, C37, C40).

  \<^bold>\<open>Bounds and fuel.\<close> No loop of the program is cut short: the source's own bound is the retry of
  generated codes (ten attempts, as \<open>create_generated\<close> counts down), and every other recursion is
  over data. Instants are unbounded nanoseconds; the conversions that lose range (durations of 64
  bits, the times a column can hold, counts of 64 bits) are written out, and a property that needs
  a range says so: \<open>rfc3339_ok\<close> is the years 0 to 9999 that SQLite's text columns keep, \<open>roomy n\<close> leaves
  room for \<open>n\<close> more uses below the largest 64-bit count. In C1, C2 and C5 the run is any list of
  events; \<open>event_ok\<close> asks of each instant and input what the store can hold, and \<open>not_reissued\<close>
  that no request gives the code out anew once its link is gone, since that is a new link.
  \<open>ms_ok\<close> is the milliseconds that binary64 holds exactly, and a burst is at most \<open>2^53\<close> for the same reason.
  \<open>max_nesting\<close> is the 10000 levels at which \<open>encoding/json\<close> gives up; what the program encodes has
  two at most.

  \<^bold>\<open>Not modelled.\<close> TCP, timeouts and the closing of connections; metrics paths with wildcards or a
  slash at the end, and the \<open>OPTIONS *\<close> form of a request; that \<open>strconv.Quote\<close> escapes the
  unprintable runes beyond U+00A0, and the text of an error of \<open>time.Parse\<close> (in messages only); the text
  format of the metrics and their histogram buckets, the sampling and exporting of spans (their ids are readings of a request), and that the
  spans of the service are children of the span of the request; the pages and documents that are embedded files
  (\<open>docs/embed.go\<close>, \<open>api/spec.go\<close>), whose content is a constructor each; data races inside the process,
  whose shared state is behind mutexes; deployment files. Times are read in UTC, as the program does
  throughout. The engines, drivers, Redis and the token bucket are parameters, scripts of failures,
  or the documented behaviour of the statements the code sends.
\<close>

section \<open>Limits\<close>

text \<open>
  C1. A link with a limit never redirects more often than its limit allows, on SQLite, over a whole
  run of the process: for every sequence of requests of any kind and cleanup ticks, every pattern
  of failing database calls and every limiter, the redirections answered for the code number at
  most the limit less the uses so far, as long as the code is not given out anew once its link
  is gone.
\<close>

theorem process_limit_sqlite:
  assumes "NewHandler bk cfg (service_of x cfg') given = Inr (a, l0, m0)" "any_sqlite_wf (w_store st)"
    "list_all (event_ok sq_storable rfc3339_ok a) es" "not_reissued a any_look c es st"
    "roomy (int (length es)) (any_look (w_store st))" "int (length es) \<le> 9223372036854775807"
    "any_look (w_store st) c = Some r" "r_MaxUsages r = Some m" "r_UsedCount r \<le> m"
  shows "int (redirections a c es st) \<le> m - r_UsedCount r"
proof -
  have svc: "svc_store (a_service a) = any_store_ops (x_time x)" using NewHandler_api(1) [OF assms(1)] by simp
  from asq.redirections_le_limit [OF svc assms(2-6)] show ?thesis using assms(7-9) by simp
qed

definition demo_events :: "run_event list" where
  "demo_events = [Request (demo_request ''GET'' ''/r/abcd''), Tick demo_now, Request (demo_request ''GET'' ''/r/abcd''),
     Request (demo_request ''GET'' ''/r/abcd'')]"

lemma demo_events_ok:
  "list_all (event_ok sq_storable rfc3339_ok demo_api) demo_events"
  "list_all (\<lambda>e. \<not> event_creates demo_api e) demo_events" "int (length demo_events) = 4"
  by (simp_all add: demo_events_def event_ok_def event_creates_def demo_routes creating_def asked_def demo_now_ok)

lemma process_limit_sqlite_witness:
  "int (redirections demo_api ''abcd'' demo_events (demo_world (SqliteStore demo_sqlite))) \<le> 2"
proof -
  let ?st = "demo_world (SqliteStore demo_sqlite)"
  have p: "any_sqlite_wf (w_store ?st)" "roomy (int (length demo_events)) (any_look (w_store ?st))"
    "int (length demo_events) \<le> 9223372036854775807" "any_look (w_store ?st) ''abcd'' = Some demo_rule"
    "r_MaxUsages demo_rule = Some 3" "r_UsedCount demo_rule \<le> 3"
    by (simp_all add: demo_any_sqlite demo_roomy demo_events_ok) (simp_all add: demo_rule_def)
  have svc: "svc_store (a_service demo_api) = any_store_ops pg_micro" by simp
  note n = asq.not_reissued_if [OF svc p(1) demo_events_ok(1,2) p(2,3)]
  from process_limit_sqlite [OF demo_handler p(1) demo_events_ok(1) n p(2-6)] show ?thesis
    by (simp add: demo_rule_def)
qed

text \<open>
  C2. The same on PostgreSQL, for every way the driver rounds instants that is monotone, keeps
  what it has rounded, and never rounds up: over a whole run the redirections answered for a code number
  at most its limit less the uses so far, as long as the code is not given out anew once its link is gone.
\<close>

theorem process_limit_postgres:
  assumes "NewHandler bk cfg (service_of x cfg') given = Inr (a, l0, m0)"
    "driver_time (x_time x)" "any_postgres_wf (x_time x) (w_store st)" "not_reissued a any_look c es st"
    "roomy (int (length es)) (any_look (w_store st))" "int (length es) \<le> 9223372036854775807"
    "any_look (w_store st) c = Some r" "r_MaxUsages r = Some m" "r_UsedCount r \<le> m"
  shows "int (redirections a c es st) \<le> m - r_UsedCount r"
proof -
  have svc: "svc_store (a_service a) = any_store_ops (x_time x)" using NewHandler_api(1) [OF assms(1)] by simp
  have "event_ok (\<lambda>r. True) (\<lambda>now. True) a e" for e
    by (cases e) (simp_all add: event_ok_def storable_as_def)
  then have "list_all (event_ok (\<lambda>r. True) (\<lambda>now. True) a) es" by (simp add: list_all_iff)
  from rule_store.redirections_le_limit [OF driver_time.any_store_postgres [OF assms(2)] svc assms(3) this assms(4-6)]
  show ?thesis using assms(7-9) by simp
qed

lemma demo_any_postgres: "any_postgres_wf pg_micro (PostgresStore demo_postgres)"
  "any_look (PostgresStore demo_postgres) = [''abcd'' \<mapsto> demo_rule]"
  using demo_postgres_wf demo_postgres_look by (simp_all add: any_postgres_wf_def any_look_def)

lemma process_limit_postgres_witness:
  "int (redirections demo_api ''abcd'' demo_events (demo_world (PostgresStore demo_postgres))) \<le> 2"
proof -
  let ?st = "demo_world (PostgresStore demo_postgres)"
  have p: "any_postgres_wf pg_micro (w_store ?st)" "roomy (int (length demo_events)) (any_look (w_store ?st))"
    "int (length demo_events) \<le> 9223372036854775807" "any_look (w_store ?st) ''abcd'' = Some demo_rule"
    "r_MaxUsages demo_rule = Some 3" "r_UsedCount demo_rule \<le> 3"
    by (simp_all add: demo_any_postgres demo_roomy demo_events_ok) (simp_all add: demo_rule_def)
  have svc: "svc_store (a_service demo_api) = any_store_ops pg_micro" by simp
  have ok: "list_all (event_ok (\<lambda>r. True) (\<lambda>now. True) demo_api) demo_events"
    by (simp add: demo_events_def event_ok_def storable_as_def)
  note n = rule_store.not_reissued_if [OF pgm.any_store_postgres svc p(1) ok demo_events_ok(2) p(2,3)]
  have ts: "driver_time (x_time demo_outside)" by (simp add: pgm.driver_time_axioms)
  have "any_postgres_wf (x_time demo_outside) (w_store ?st)" using p(1) by simp
  from process_limit_postgres [OF demo_handler ts this n p(2-6)] show ?thesis
    by (simp add: demo_rule_def)
qed

text \<open>A cluster before any call.\<close>

definition cold :: "cluster \<Rightarrow> bool" where
  "cold g \<longleftrightarrow> g_phase g = (\<lambda>_. Idle) \<and> g_owner g = Map.empty \<and> g_uses g = (\<lambda>_. 0) \<and> distinct (map p_code (g_rows g))"

lemma cold_ok: "cold g \<Longrightarrow> locked_ok g"
  by (simp add: cold_def locked_ok_def)

text \<open>
  C3. Concurrent resolutions on PostgreSQL: however the steps of any number of clients interleave,
  with deletions, links of other codes and failing calls between them, the answers that carry the rule
  of a code number at most its limit less the uses so far, as long as no link of the code is created
  once it is gone (\<open>runs\<close>).
\<close>

theorem concurrent_limit:
  assumes "runs ts c g0 g" "cold g0" "find_row p_code c (g_rows g0) = Some row"
    "p_max_usages row = Some m" "p_used_count row \<le> m"
  shows "int (g_uses g c) \<le> m - p_used_count row"
proof -
  have "within_limit c m (p_used_count row) g0" using assms(2-5) by (simp add: within_limit_def cold_def)
  from runs_within [OF assms(1) cold_ok [OF assms(2)] this] show ?thesis by (simp add: within_limit_def)
qed

definition demo_cluster :: cluster where
  "demo_cluster = \<lparr>g_rows = [pg_insert_row pg_micro demo_rule], g_owner = Map.empty, g_phase = (\<lambda>_. Idle), g_uses = (\<lambda>_. 0)\<rparr>"

lemma demo_cold: "cold demo_cluster"
  by (simp add: cold_def demo_cluster_def)

lemma runs_reachable: "runs ts c g0 g \<Longrightarrow> (pstep ts)\<^sup>*\<^sup>* g0 g"
  by (induction rule: runs.induct) auto

text \<open>Two clients begin, the first gets the lock, and comes to its update.\<close>

lemma demo_run:
  obtains g where "(pstep pg_micro)\<^sup>*\<^sup>* demo_cluster g" "runs pg_micro ''abcd'' demo_cluster g"
    "g_phase g 0 = Updated ''abcd'' demo_now demo_rule" "g_uses g ''abcd'' = 0"
    "g_phase g 1 = Started ''abcd'' demo_now" "g_owner g ''abcd'' = Some 0"
proof -
  let ?g1 = "set_phase 0 (Started ''abcd'' demo_now) demo_cluster"
  let ?g2 = "set_phase 1 (Started ''abcd'' demo_now) ?g1"
  let ?g3 = "set_phase 0 (Loaded ''abcd'' demo_now demo_rule) (lock_row ''abcd'' 0 ?g2)"
  let ?g4 = "set_phase 0 (Updated ''abcd'' demo_now demo_rule) ?g3"
  have live: "\<not> fst (Expired demo_rule demo_now)" "in_int64 (r_UsedCount demo_rule + 1)" "r_Code demo_rule = ''abcd''"
    by (simp_all add: demo_rule_def Expired_iff second_def in_int64_def)
  have s1: "pstep pg_micro demo_cluster ?g1" by (rule begin_tx) (simp add: demo_cluster_def)
  have s2: "pstep pg_micro ?g1 ?g2" by (rule begin_tx) (simp add: demo_cluster_def)
  have s3: "pstep pg_micro ?g2 ?g3"
    by (rule read_locked [where row = "pg_insert_row pg_micro demo_rule"]) (simp_all add: demo_cluster_def live pg_scan_insert_row demo_kept)
  have s4: "pstep pg_micro ?g3 ?g4" by (rule update) (simp_all add: live)
  have r: "runs pg_micro ''abcd'' demo_cluster ?g4"
    by (rule runs.step [OF runs.step [OF runs.step [OF runs.step [OF runs.start s1] s2] s3] s4]) simp_all
  have "(pstep pg_micro)\<^sup>*\<^sup>* demo_cluster ?g4" using r by (rule runs_reachable)
  from this r show thesis by (rule that) (simp_all add: demo_cluster_def)
qed

lemma concurrent_limit_witness:
  "\<exists>g. runs pg_micro ''abcd'' demo_cluster g \<and> g_uses g ''abcd'' = 1 \<and> int (g_uses g ''abcd'') \<le> 2"
proof -
  obtain g where g: "runs pg_micro ''abcd'' demo_cluster g" "g_phase g 0 = Updated ''abcd'' demo_now demo_rule"
    "g_uses g ''abcd'' = 0" by (rule demo_run)
  note s = commit [OF g(2), of pg_micro]
  have r: "runs pg_micro ''abcd'' demo_cluster (set_phase 0 (Answered (Inr (used demo_rule demo_now)))
      (release ''abcd'' (write_row pg_micro ''abcd'' demo_now (g\<lparr>g_uses := (g_uses g)(''abcd'' := g_uses g ''abcd'' + 1)\<rparr>))))"
    by (rule runs.step [OF g(1) s]) auto
  have d: "find_row p_code ''abcd'' (g_rows demo_cluster) = Some (pg_insert_row pg_micro demo_rule)"
    "p_max_usages (pg_insert_row pg_micro demo_rule) = Some 3" "p_used_count (pg_insert_row pg_micro demo_rule) = 1"
    by (simp_all add: demo_cluster_def demo_rule_def pg_insert_row_def pg_nullableInt_def)
  let ?g = "set_phase 0 (Answered (Inr (used demo_rule demo_now)))
      (release ''abcd'' (write_row pg_micro ''abcd'' demo_now (g\<lparr>g_uses := (g_uses g)(''abcd'' := g_uses g ''abcd'' + 1)\<rparr>)))"
  have "int (g_uses ?g ''abcd'') \<le> 3 - p_used_count (pg_insert_row pg_micro demo_rule)"
    by (rule concurrent_limit [OF r demo_cold d(1,2)]) (simp add: d(3) demo_rule_def)
  moreover have "g_uses ?g ''abcd'' = 1" by (simp add: g(3))
  ultimately show ?thesis using r d(3) by (intro exI [of _ ?g]) simp
qed



text \<open>
  C37. No client is kept waiting by a lock that nobody gives up: in every reachable state, the holder
  of the row that a client wants, if there is one, is answered and gives its lock up after at most two
  steps of its own in which no call fails; then the client is answered after at most three steps of its
  own in which no call fails, with the answer and the table of the whole call, and leaves no lock.
\<close>

theorem clients_served:
  assumes "cold g0" "(pstep ts)\<^sup>*\<^sup>* g0 g" "g_phase g p = Started c now"
  shows "\<exists>g1 g2 k res.
      (case g_owner g c of
         None \<Rightarrow> g1 = g
       | Some q \<Rightarrow> q \<noteq> p \<and> (\<exists>j \<le> 2. (works ts q ^^ j) g g1) \<and> (\<exists>res'. g_phase g1 q = Answered res'))
    \<and> g_owner g1 c = None \<and> k \<le> 3 \<and> (works ts p ^^ k) g1 g2
    \<and> g_phase g2 p = Answered res \<and> g_owner g2 c = None
    \<and> pg_ResolveRule ts c now (quiet_db (g_rows g1) e1 e2) = (res, quiet_db (g_rows g2) e1 e2)"
proof -
  have ok: "locked_ok g \<and> owner_ok g" using assms(2)
  proof (induction rule: rtranclp_induct)
    case base
    then show ?case using cold_ok [OF assms(1)] assms(1) by (simp add: owner_ok_def cold_def)
  qed (auto intro: locked_ok_step owner_ok_step)
  note serve = free_served [where ts = ts and p = p and c = c and now = now and ?e1.0 = e1 and ?e2.0 = e2]
  show ?thesis
  proof (cases "g_owner g c")
    case None
    obtain g2 k res where "k \<le> 3" "(works ts p ^^ k) g g2" "g_phase g2 p = Answered res" "g_owner g2 c = None"
      "pg_ResolveRule ts c now (quiet_db (g_rows g) e1 e2) = (res, quiet_db (g_rows g2) e1 e2)"
      by (rule serve [OF conjunct1 [OF ok] assms(3) None])
    then show ?thesis by (intro exI [of _ g] exI [of _ g2] exI [of _ k] exI [of _ res]) (simp add: None)
  next
    case (Some q)
    obtain g1 j res' where g1: "q \<noteq> p" "j \<le> 2" "(works ts q ^^ j) g g1" "g_phase g1 = (g_phase g)(q := Answered res')"
      "g_owner g1 = (g_owner g)(c := None)"
      by (rule lock_given_up [OF conjunct1 [OF ok] conjunct2 [OF ok] assms(3) Some])
    have "locked_ok g1" using g1(3) conjunct1 [OF ok]
      by (induction j arbitrary: g1) (auto dest: works_pstep intro: locked_ok_step)
    moreover have "g_phase g1 p = Started c now" "g_owner g1 c = None" using g1(1,4,5) assms(3) by simp_all
    ultimately obtain g2 k res where "k \<le> 3" "(works ts p ^^ k) g1 g2" "g_phase g2 p = Answered res" "g_owner g2 c = None"
      "pg_ResolveRule ts c now (quiet_db (g_rows g1) e1 e2) = (res, quiet_db (g_rows g2) e1 e2)" by (rule serve)
    then show ?thesis using g1 Some by (intro exI [of _ g1] exI [of _ g2] exI [of _ k] exI [of _ res]) auto
  qed
qed

lemma clients_served_witness:
  "\<exists>(g :: cluster) g1 g2 j k. g_owner g ''abcd'' = Some 0 \<and> g_phase g 1 = Started ''abcd'' demo_now
     \<and> j \<le> 2 \<and> (works pg_micro 0 ^^ j) g g1 \<and> k \<le> 3 \<and> (works pg_micro 1 ^^ k) g1 g2 \<and> (\<exists>res. g_phase g2 1 = Answered res)"
proof -
  obtain g where g: "(pstep pg_micro)\<^sup>*\<^sup>* demo_cluster g" "g_phase g 1 = Started ''abcd'' demo_now" "g_owner g ''abcd'' = Some 0"
    by (rule demo_run)
  obtain g1 g2 k res where r: "case g_owner g ''abcd'' of None \<Rightarrow> g1 = g
      | Some q \<Rightarrow> q \<noteq> 1 \<and> (\<exists>j \<le> 2. (works pg_micro q ^^ j) g g1) \<and> (\<exists>res'. g_phase g1 q = Answered res')"
    "k \<le> 3" "(works pg_micro 1 ^^ k) g1 g2" "g_phase g2 1 = Answered res"
    using clients_served [OF demo_cold g(1,2), of "DriverError []" "DriverError []"]
    by (elim exE conjE) (rule that; assumption)
  obtain j where "j \<le> 2" "(works pg_micro 0 ^^ j) g g1" using r(1) [unfolded g(3) option.case] by blast
  then show ?thesis using r(2-4) g(2,3) by blast
qed

section \<open>From creation to redirection\<close>

text \<open>
  C5. A request that is answered 201 has stored the link it was shown, with the URL it asked for as
  \<open>net/url\<close> parses and prints it: its code had no link before and every other link is as it was.
  From then on, after any run of requests and cleanup ticks, whatever fails in it, the code redirects to
  exactly that URL whenever the store works and the link is there and not expired, as long as the code
  was not given out anew. On SQLite, for instants of years up to 9999.
\<close>

theorem create_then_redirect:
  fixes st :: "(any_store, 'b any_limiter) world"
  assumes "NewHandler bk cfg (service_of x cfg') given = Inr (a, l0, m0)" "4 \<le> c_CodeLength cfg'" "c_CodeLength cfg' \<le> 32"
    "any_sqlite_wf (w_store st)" "asked (route_for a r) r = Some req" "rfc3339_ok (q_Now r)" "in_int64 (cr_MaxUsages req)"
    "cr_TTLSeconds req = 0 \<or> rfc3339_ok (ttl_expiry (cr_TTLSeconds req) (q_Now r))"
    "creating (route_for a r)" "serve a r fresh_writer st = (oc, w, st')" "rw_Sent w = Some (201, hdr)"
  shows "\<exists>rule u. parse_url (trim_space (cr_URL req)) = Some u \<and> r_URL rule = url_string u
    \<and> (trim_space (cr_Alias req) \<noteq> [] \<longrightarrow> r_Code rule = trim_space (cr_Alias req))
    \<and> rw_Body w = [RuleBody (ruleResponse_of a r rule)] \<and> alias_pattern (r_Code rule)
    \<and> any_look (w_store st) (r_Code rule) = None \<and> any_look (w_store st) \<subseteq>\<^sub>m any_look (w_store st')
    \<and> any_look (w_store st') (r_Code rule) = Some rule
    \<and> (\<forall>es (st2 :: (any_store, 'b any_limiter) world) r2 q.
        list_all (event_ok sq_storable rfc3339_ok a) es \<and> not_reissued a any_look (r_Code rule) es st'
        \<and> roomy (int (length es) + 1) (any_look (w_store st')) \<and> int (length es) < 9223372036854775807
        \<and> w_store st2 = w_store (run_events a es st') \<and> any_quiet (w_store st2)
        \<and> any_look (w_store st2) (r_Code rule) = Some q \<and> \<not> fst (Expired q (q_Now r2))
        \<and> route_for a r2 = RRedirect (r_Code rule) \<and> rfc3339_ok (q_Now r2) \<longrightarrow>
        (\<exists>w2 st3 hdr2. serve a r2 fresh_writer st2 = (Returned, w2, st3) \<and> rw_Sent w2 = Some (302, hdr2)
          \<and> hdr2 ''Location'' = Some (hexEscapeNonASCII (url_string u))))"
proof -
  have svc: "a_service a = service_of x cfg'" "svc_store (a_service a) = any_store_ops (x_time x)"
    using NewHandler_api(1) [OF assms(1)] by simp_all
  obtain rule u where c: "validateTargetURL (cr_URL req) (c_RejectPrivateTargets cfg') = Inr u" "r_URL rule = url_string u"
    "trim_space (cr_Alias req) \<noteq> [] \<longrightarrow> r_Code rule = trim_space (cr_Alias req)"
    "any_look (w_store st) (r_Code rule) = None" "any_look (w_store st') (r_Code rule) = Some rule"
    "rw_Body w = [RuleBody (ruleResponse_of a r rule)]" "alias_pattern (r_Code rule)"
    "any_look (w_store st) \<subseteq>\<^sub>m any_look (w_store st')" "any_sqlite_wf (w_store st')"
    by (rule link_created [OF svc(1) assms(2-5,7,6,8-11)])
  have later: "\<exists>w2 st3 hdr2. serve a r2 fresh_writer st2 = (Returned, w2, st3) \<and> rw_Sent w2 = Some (302, hdr2)
      \<and> hdr2 ''Location'' = Some (hexEscapeNonASCII (url_string u))"
    if run: "list_all (event_ok sq_storable rfc3339_ok a) es" "not_reissued a any_look (r_Code rule) es st'"
      "roomy (int (length es) + 1) (any_look (w_store st'))" "int (length es) < 9223372036854775807"
      and s2: "w_store st2 = w_store (run_events a es st')" "any_quiet (w_store st2)"
      "any_look (w_store st2) (r_Code rule) = Some q" "\<not> fst (Expired q (q_Now r2))"
      "route_for a r2 = RRedirect (r_Code rule)" "rfc3339_ok (q_Now r2)"
    for es q r2 and st2 :: "(any_store, 'b any_limiter) world"
  proof -
    note kept = asq.link_over_run [OF svc(2) c(9) run, folded s2(1), unfolded s2(3) c(5) option.case]
    have now: "rfc3339_ok (svc_Now (a_service a) (q_Now r2))" using s2(6) by (simp add: svc(1))
    obtain w2 st3 n hdr2 where "serve a r2 fresh_writer st2 = (Returned, w2, st3)" "rw_Sent w2 = Some (n, hdr2)"
      "n = 302" "n = 302 \<Longrightarrow> hdr2 ''Location'' = Some (hexEscapeNonASCII (r_URL q))"
      by (rule asq.serve_redirect [OF svc(2) conjunct1 [OF kept] s2(2) now _ s2(5) c(7)])
        (use kept s2(3,4) in \<open>simp_all add: svc(1)\<close>)
    then show ?thesis using kept c(2) by (auto simp: same_link_def)
  qed
  show ?thesis
    using validateTargetURL_Inr(1) [OF c(1)] c later by (intro exI [of _ rule] exI [of _ u]) blast
qed

definition demo_create :: request where
  "demo_create = (demo_request ''GET'' ''/api/v1/generate'')\<lparr>q_RawQuery := ''url=https://example.com/x&alias=wxyz''\<rparr>"

lemma demo_create_ok: "asked (route_for demo_api demo_create) demo_create
    = Some \<lparr>cr_URL = ''https://example.com/x'', cr_Alias = ''wxyz'', cr_TTLSeconds = 0, cr_MaxUsages = 0\<rparr>"
    "creating (route_for demo_api demo_create)"
  by code_simp+

lemma demo_create_serve:
    "(case serve demo_api demo_create fresh_writer (demo_world (SqliteStore demo_sqlite)) of
       (oc, w, st) \<Rightarrow> (oc, map_option fst (rw_Sent w))) = (Returned, Some 201)"
  by code_simp

lemma create_then_redirect_witness:
  "\<exists>w st' rule. serve demo_api demo_create fresh_writer (demo_world (SqliteStore demo_sqlite)) = (Returned, w, st')
     \<and> rw_Body w = [RuleBody (ruleResponse_of demo_api demo_create rule)]
     \<and> any_look (w_store st') (r_Code rule) = Some rule"
proof -
  let ?st = "demo_world (SqliteStore demo_sqlite)"
  obtain oc w st' where s: "serve demo_api demo_create fresh_writer ?st = (oc, w, st')" by (metis prod.exhaust)
  obtain hdr where sent: "rw_Sent w = Some (201, hdr)" using demo_create_serve s by auto
  have p: "any_sqlite_wf (w_store ?st)" "rfc3339_ok (q_Now demo_create)"
    by (simp_all add: demo_any_sqlite demo_create_def demo_now_ok)
  have "oc = Returned" using demo_create_serve s by simp
  moreover have "\<exists>rule. rw_Body w = [RuleBody (ruleResponse_of demo_api demo_create rule)]
      \<and> any_look (w_store st') (r_Code rule) = Some rule"
    using create_then_redirect [OF demo_handler _ _ p(1) demo_create_ok(1) p(2) _ _ demo_create_ok(2) s sent]
    by (simp add: in_int64_def) blast
  ultimately show ?thesis using s by blast
qed

section \<open>The limit at the interface of the store\<close>

text \<open>
  A link with a limit is never resolved more often than its limit allows, on SQLite:
  for every sequence of calls to the store (creations of other codes, lookups, deletions,
  cleanups, resolutions of any code at any times) and every pattern of failing database calls,
  the successful resolutions of the code number at most the limit less the uses so far.
\<close>

theorem sqlite_limit_holds:
  assumes "sq_wf d" "sq_look d c = Some r" "r_MaxUsages r = Some m" "r_UsedCount r \<le> m"
    "list_all (call_ok sq_storable rfc3339_ok) calls" "list_all (\<lambda>k. \<not> creates c k) calls"
    "roomy (int (length calls)) (sq_look d)" "int (length calls) \<le> 9223372036854775807"
  shows "int (hits sqlite_ops c calls d) \<le> m - r_UsedCount r"
  by (rule sq.hits_le_limit) (use assms in auto)

text \<open>
  The same on PostgreSQL, for every way the driver rounds instants that is monotone,
  idempotent and never rounds up.
\<close>

theorem postgres_limit_holds:
  assumes "driver_time ts" "pg_wf ts d" "pg_look d c = Some r" "r_MaxUsages r = Some m" "r_UsedCount r \<le> m"
    "list_all (\<lambda>k. \<forall>q. k = CallCreate q \<longrightarrow> r_UsedCount q = 0) calls" "list_all (\<lambda>k. \<not> creates c k) calls"
    "roomy (int (length calls)) (pg_look d)" "int (length calls) \<le> 9223372036854775807"
  shows "int (hits (postgres_ops ts) c calls d) \<le> m - r_UsedCount r"
proof -
  have "call_ok (\<lambda>r. True) (\<lambda>now. True) k" if "\<forall>q. k = CallCreate q \<longrightarrow> r_UsedCount q = 0" for k
    using that by (cases k) auto
  then have "list_all (call_ok (\<lambda>r. True) (\<lambda>now. True)) calls"
    using assms(6) by (simp add: list_all_iff)
  then show ?thesis
    by (intro rule_store.hits_le_limit [OF driver_time.is_store [OF assms(1)]]) (use assms in auto)
qed

section \<open>The process\<close>

text \<open>
  C35. However the process ends, with an error at any point of its start, a panic, a signal, a failing
  listener or a failing shutdown, it closes everything it opened, the last opened first, as long
  as the tracer's resource can be made.
\<close>

theorem run_closes_everything:
  assumes "x_resource x = None \<or> x_exporter x \<noteq> None"
  shows "closes_all [] (snd (snd (Run x src events stop shutdown)))"
  using Run_tidy [OF assms] by (simp add: tidy_def)

lemma run_closes_everything_witness:
  "closes_all [] (snd (snd (Run demo_outside demo_entropy demo_events SignalReceived None)))"
  by (rule run_closes_everything) (simp add: demo_outside_def)

text \<open>
  A metrics path that is the path of another page is accepted by the configuration and makes the
  construction of the handler panic: the process ends before it serves anything.
\<close>

definition docs_environment :: environment where
  "docs_environment key = (if key = ''I8SL_METRICS_PATH'' then ''/docs'' else [])"

theorem metrics_path_panics:
  "\<exists>cfg e acts. Load docs_environment = Inr cfg
     \<and> Run (demo_outside\<lparr>x_env := docs_environment\<rparr>) src events stop shutdown = (RunPanic e, None, acts)"
proof -
  have l: "Load docs_environment = Inr (default_config\<lparr>c_MetricsPath := ''/docs''\<rparr>)" by code_simp
  have "fst (sq_NewStore demo_sqlite) = Inr ()" by code_simp
  then obtain d where s: "sq_NewStore demo_sqlite = (Inr (), d)" by (cases "sq_NewStore demo_sqlite") simp
  have "pattern_refused ''/docs''" by code_simp
  then have h: "\<exists>e. NewHandler tb_ops (default_config\<lparr>c_MetricsPath := ''/docs''\<rparr>) svc given = Inl e" for svc given
    by (simp add: NewHandler_def)
  let ?x = "demo_outside\<lparr>x_env := docs_environment\<rparr>" and ?cfg = "default_config\<lparr>c_MetricsPath := ''/docs''\<rparr>"
  have t: "telemetry_Setup ?x ?cfg = (Inr NoopTracer, [PropagatorSet, ProviderSet NoopTracer])"
    by (simp add: telemetry_Setup_def default_config_def)
  have o: "openStore ?x ?cfg = Inr (SqliteStore d, ''sqlite'')"
    using s by (simp add: openStore_def default_config_def demo_outside_def)
  obtain r where r: "openRateLimiter ?x ?cfg = (Inr r, [Opened LimiterConn])"
    by (simp add: openRateLimiter_def default_config_def)
  obtain e where e: "run_server ?x ?cfg (SqliteStore d, ''sqlite'') r src events stop shutdown = (RunPanic e, None, [])"
    using h [of "service_of ?x ?cfg" "Some (fst r)"] by (auto simp: run_server_def demo_outside_def)
  show ?thesis using l t o r e by (auto simp: Run_def deferring_def demo_outside_def)
qed

text \<open>
  The label of a PostgreSQL database, which goes to the log, shows its host and its name
  alone: addresses that differ in the user, the password or the options have one label.
\<close>

lemma postgres_label_no_secret:
  assumes "parse_url uri = Some u" "parse_url uri' = Some v" "u_Host u = u_Host v" "u_Path u = u_Path v"
  shows "postgresLabel uri = postgresLabel uri'"
proof -
  have "hostname u = hostname v" using assms(3) by (simp only: hostname_def)
  then show ?thesis using assms(1,2,4) by (simp only: postgresLabel_def option.case)
qed

text \<open>
  C40. Over any run of the process with the limiter in memory, whatever the requests and whatever fails
  behind it: in any span of time the requests of one client that are answered 201 number at most
  \<open>burst\<close> and one more for each token that refills in it. On buckets that refill at the configured rate
  and are full again by the time their client is forgotten.
\<close>

theorem process_creation_rate:
  fixes st :: "(any_store, 'b any_limiter) world"
  assumes "openRateLimiter x cfg = (Inr (w_limiter st, label), acts)" "c_RateLimitBackend cfg = ''memory''"
    "NewHandler (x_buckets x) cfg (service_of x cfg) (Some (w_limiter st)) = Inr (a, l0, m0)"
    "refilling (x_buckets x) (f64_div (c_GenerationRatePerMinute cfg) (f64_of_int 60)) (c_GenerationBurst cfg)
       (10 * minute) bwf left lev rate"
    "sorted (map fst (limiter_calls a hs) @ t0 # map fst (limiter_calls a es) @ [t1])"
  shows "of_nat (creations a ip es (run_events a hs st)) \<le> of_int (c_GenerationBurst cfg) + rate * seconds (t1 - t0)"
proof -
  have w: "w_limiter st = MemoryLimiter (NewMemory (c_GenerationRatePerMinute cfg) (c_GenerationBurst cfg) (10 * minute))"
    using assms(1,2) by (simp add: openRateLimiter_def)
  have sane: "store_create_sane (svc_store (a_service a))" "store_read_sane (svc_store (a_service a))"
    using any_store_sane NewHandler_api(1) [OF assms(3)] by simp_all
  show ?thesis by (rule memory_creations [OF assms(4) NewHandler_api(2) [OF assms(3)] w sane assms(5)])
qed

definition demo_shorten :: request where
  "demo_shorten = (demo_request ''GET'' ''/api/v1/generate'')\<lparr>q_RawQuery := ''url=https://example.com/x''\<rparr>"

lemma process_creation_rate_witness:
  "creations demo_api ''10.0.0.1'' (replicate 100 (Request demo_shorten)) (demo_world (SqliteStore demo_sqlite)) \<le> 10"
proof -
  let ?es = "replicate 100 (Request demo_shorten)" and ?st = "demo_world (SqliteStore demo_sqlite)"
  have c: "c_RateLimitBackend demo_config = ''memory''" "c_GenerationRatePerMinute demo_config = Fin 30"
    "c_GenerationBurst demo_config = 10" by (simp_all add: demo_config_def default_config_def)
  have b: "x_buckets demo_outside = tb_ops" by (simp add: demo_outside_def)
  have l: "openRateLimiter demo_outside demo_config = (Inr (w_limiter ?st, ''memory''), [Opened LimiterConn])"
    by (simp add: openRateLimiter_def c demo_limiter_def)
  have h: "NewHandler (x_buckets demo_outside) demo_config (service_of demo_outside demo_config) (Some (w_limiter ?st))
      = Inr (demo_api, demo_limiter, metrics_New)" by (simp add: b demo_handler)
  have "f64_div (Fin 30) (f64_of_int 60) = Fin (1 / 2)" by code_simp
  then have r: "refilling (x_buckets demo_outside) (f64_div (c_GenerationRatePerMinute demo_config) (f64_of_int 60))
      (c_GenerationBurst demo_config) (10 * minute) (\<lambda>b. tb_wf 10 b \<and> tb_rate b = 1 / 2)
      (\<lambda>b now. \<lfloor>tb_refilled now b\<rfloor>) (\<lambda>b now. tb_refilled now b) (1 / 2)"
    unfolding b c using tbw.refilling_axioms by simp
  have "creating (route_for demo_api demo_shorten)" "q_Now demo_shorten = demo_now"
    by (code_simp, simp add: demo_shorten_def)
  then have "map fst (limiter_calls demo_api (replicate n (Request demo_shorten))) = replicate n demo_now" for n
    by (induction n) (simp_all add: limiter_calls_def)
  then have "sorted (map fst (limiter_calls demo_api []) @ demo_now # map fst (limiter_calls demo_api ?es) @ [demo_now])"
    by (simp add: limiter_calls_def sorted_append)
  from process_creation_rate [OF l c(1) h r this, of "''10.0.0.1''"]
  show ?thesis by (simp add: run_events_def seconds_def c)
qed

end
